(* ===== verification/Prelude.thy ===== *)
theory Prelude
  imports Main "HOL-Library.Word"
begin

text \<open>
  Shared vocabulary of the development.

  \<^item> \<open>size_t\<close>, the 64-bit unsigned counters of the library (they wrap), and \<open>npos\<close>.
  \<^item> \<open>fault\<close>: what a C++ operation does when its precondition is broken.  Code that can
    do so returns \<open>fault + 'a\<close>; \<open>andThen\<close> sequences such code.
  \<^item> The parts of the standard library the sources use: \<open>string_view::find\<close>, \<open>substr\<close>
    and \<open>at\<close>, array access, \<open>std::to_string\<close>, \<open>std::from_chars\<close>,
    \<open>std::partition_point\<close>, \<open>std::stable_partition\<close>, \<open>std::rotate\<close>.
  \<^item> The collections \<open>fault_simps\<close> and \<open>word_conv\<close> carry the proofs of the components.
\<close>

named_theorems fault_simps \<open>equations that push case analysis through faulting code\<close>
named_theorems word_conv \<open>conversions between 64-bit counters and natural numbers\<close>

section \<open>Machine integers\<close>

type_synonym size_t = "64 word"

abbreviation npos :: size_t where "npos \<equiv> - 1"

section \<open>Faults\<close>

text \<open>
  \<open>Out_Of_Bounds\<close>: access outside an array or a container, undefined behaviour.
  \<open>Out_Of_Range\<close>: \<open>std::out_of_range\<close> thrown by a checked access.
  \<open>Assert_Failed\<close>: a \<open>BOOST_ASSERT\<close> that does not hold.
  \<open>Bad_Value_Access\<close>: \<open>value()\<close> on a result that holds an error or on an empty optional, which throws.
  \<open>Length_Error\<close>: \<open>std::length_error\<close> thrown by a container that is asked to grow too much.
  \<open>Ill_Typed\<close>: an object of another type than the code expects, which the compiler excludes.
\<close>

datatype fault =
    Out_Of_Bounds
  | Out_Of_Range
  | Assert_Failed
  | Bad_Value_Access
  | Length_Error
  | Ill_Typed

fun andThen :: "fault + 'a \<Rightarrow> ('a \<Rightarrow> fault + 'b) \<Rightarrow> fault + 'b" where
  "andThen (Inl f) k = Inl f"
| "andThen (Inr x) k = k x"

section \<open>Strings and arrays\<close>

fun find_sub :: "string \<Rightarrow> string \<Rightarrow> nat option" where
  "find_sub pat [] = (if pat = [] then Some 0 else None)"
| "find_sub pat (c # cs) =
     (if take (length pat) (c # cs) = pat then Some 0 else map_option Suc (find_sub pat cs))"

definition view_find :: "string \<Rightarrow> string \<Rightarrow> nat \<Rightarrow> nat option" where
  "view_find view pat pos =
     (if pos \<le> length view then map_option (\<lambda>i. pos + i) (find_sub pat (drop pos view)) else None)"

definition view_substr :: "string \<Rightarrow> nat \<Rightarrow> size_t \<Rightarrow> fault + string" where
  "view_substr view pos n =
     (if length view < pos then Inl Out_Of_Range else Inr (take (unat n) (drop pos view)))"

definition view_at :: "string \<Rightarrow> nat \<Rightarrow> fault + char" where
  "view_at view i = (if i < length view then Inr (view ! i) else Inl Out_Of_Range)"

definition array_get :: "'a list \<Rightarrow> nat \<Rightarrow> fault + 'a" where
  "array_get xs i = (if i < length xs then Inr (xs ! i) else Inl Out_Of_Bounds)"

definition array_set :: "'a list \<Rightarrow> nat \<Rightarrow> 'a \<Rightarrow> fault + 'a list" where
  "array_set xs i v = (if i < length xs then Inr (xs[i := v]) else Inl Out_Of_Bounds)"

section \<open>Decimal numbers\<close>

definition is_digit :: "char \<Rightarrow> bool" where
  "is_digit c \<longleftrightarrow> 48 \<le> (of_char c :: nat) \<and> (of_char c :: nat) \<le> 57"

definition digit_val :: "char \<Rightarrow> nat" where
  "digit_val c = (of_char c :: nat) - 48"

definition digit_char :: "nat \<Rightarrow> char" where
  "digit_char d = char_of (48 + d)"

fun to_string_nat :: "nat \<Rightarrow> string" where
  "to_string_nat n =
     (if n < 10 then [digit_char n] else to_string_nat (n div 10) @ [digit_char (n mod 10)])"

declare to_string_nat.simps [simp del]

definition to_string_int :: "int \<Rightarrow> string" where
  "to_string_int i = (if i < 0 then CHR ''-'' # to_string_nat (nat (- i)) else to_string_nat (nat i))"

definition digits_value :: "string \<Rightarrow> nat" where
  "digits_value s = foldl (\<lambda>a c. 10 * a + digit_val c) 0 s"

text \<open>\<open>std::from_chars\<close> on an unsigned 64-bit integer: the longest run of digits, \<open>None\<close>
  when there is no digit or the value does not fit.\<close>

definition from_chars :: "string \<Rightarrow> size_t option" where
  "from_chars s =
     (let ds = takeWhile is_digit s
      in if ds = [] then None
         else if digits_value ds < 2 ^ 64 then Some (of_nat (digits_value ds))
         else None)"

section \<open>Algorithms on sequences\<close>

text \<open>\<open>std::partition_point\<close> is a binary search over the range \<open>[first, first + len)\<close>.\<close>

function partition_search :: "('a \<Rightarrow> bool) \<Rightarrow> 'a list \<Rightarrow> nat \<Rightarrow> nat \<Rightarrow> nat" where
  "partition_search pr xs first len =
     (if len = 0 then first
      else let half = len div 2; middle = first + half
           in if pr (xs ! middle) then partition_search pr xs (middle + 1) (len - half - 1)
              else partition_search pr xs first half)"
  by pat_completeness auto
termination
  by (relation "measure (\<lambda>(pr, xs, first, len). len)") (auto simp: Let_def)

declare partition_search.simps [simp del]

definition partition_point :: "('a \<Rightarrow> bool) \<Rightarrow> 'a list \<Rightarrow> nat" where
  "partition_point pr xs = partition_search pr xs 0 (length xs)"

definition partitioned :: "('a \<Rightarrow> bool) \<Rightarrow> 'a list \<Rightarrow> bool" where
  "partitioned pr xs \<longleftrightarrow> list_all (\<lambda>x. \<not> pr x) (dropWhile pr xs)"

definition stable_partition :: "('a \<Rightarrow> bool) \<Rightarrow> 'a list \<Rightarrow> 'a list \<times> nat" where
  "stable_partition pr xs =
     (filter pr xs @ filter (\<lambda>x. \<not> pr x) xs, length (filter pr xs))"

text \<open>\<open>std::rotate(first, middle, last)\<close> on the range \<open>[0, n)\<close> of a list.\<close>

definition rotate_prefix :: "nat \<Rightarrow> nat \<Rightarrow> 'a list \<Rightarrow> 'a list" where
  "rotate_prefix mid n xs = drop mid (take n xs) @ take mid xs @ drop n xs"

section \<open>Lemmas\<close>

lemma andThen_assoc [fault_simps]: "andThen (andThen m f) g = andThen m (\<lambda>x. andThen (f x) g)"
  by (cases m) simp_all

lemma andThen_cong [fundef_cong]:
  "m = m' \<Longrightarrow> (\<And>x. m' = Inr x \<Longrightarrow> k x = k' x) \<Longrightarrow> andThen m k = andThen m' k'"
  by (cases m') simp_all

lemma andThen_Inr_iff: "andThen m k = Inr y \<longleftrightarrow> (\<exists>x. m = Inr x \<and> k x = Inr y)"
  by (cases m) simp_all

lemma andThen_Inl_iff:
  "andThen m k = Inl f \<longleftrightarrow> m = Inl f \<or> (\<exists>x. m = Inr x \<and> k x = Inl f)"
  by (cases m) simp_all

lemma array_get_in [simp]: "i < length xs \<Longrightarrow> array_get xs i = Inr (xs ! i)"
  by (simp add: array_get_def)

lemma array_set_in [simp]: "i < length xs \<Longrightarrow> array_set xs i v = Inr (xs[i := v])"
  by (simp add: array_set_def)

lemma unat_of_nat_size_t [word_conv]: "n < 2 ^ 64 \<Longrightarrow> unat (of_nat n :: size_t) = n"
  by (simp add: unat_of_nat take_bit_nat_eq_self)

lemma of_nat_size_t_eq_iff [word_conv]:
  "m < 2 ^ 64 \<Longrightarrow> n < 2 ^ 64 \<Longrightarrow> (of_nat m :: size_t) = of_nat n \<longleftrightarrow> m = n"
  by (metis unat_of_nat_size_t)

lemma of_nat_size_t_pred [word_conv]:
  "0 < n \<Longrightarrow> (of_nat n :: size_t) - 1 = of_nat (n - 1)"
  by (simp add: of_nat_diff)

lemma unat_of_nat_le [word_conv]: "unat (of_nat n :: size_t) \<le> n"
  by (simp add: unat_of_nat)

lemma unat_le_of_nat_diff:
  fixes w :: size_t
  assumes "c \<le> n" and "w \<le> of_nat n - of_nat c"
  shows "unat w \<le> n - c"
proof -
  have "unat w \<le> unat (of_nat (n - c) :: size_t)"
    using assms by (simp add: of_nat_diff word_le_nat_alt)
  also have "\<dots> \<le> n - c" by (rule unat_of_nat_le)
  finally show ?thesis .
qed

lemma unat_of_nat_diff [word_conv]:
  assumes "c \<le> n" and "n < 2 ^ 64"
  shows "unat (of_nat n - of_nat c :: size_t) = n - c"
proof -
  have "(of_nat n - of_nat c :: size_t) = of_nat (n - c)" using assms by simp
  moreover have "unat (of_nat (n - c) :: size_t) = n - c"
    using assms by (intro unat_of_nat_size_t) simp
  ultimately show ?thesis by metis
qed

lemma unat_add_2 [word_conv]:
  fixes w :: size_t
  assumes "w < npos - 1"
  shows "unat (w + 2) = unat w + 2"
proof -
  have "unat w < 2 ^ 64 - 2" using assms by (simp add: word_less_nat_alt)
  then show ?thesis by (simp add: unat_word_ariths)
qed

lemma unat_npos [word_conv]: "unat npos = 18446744073709551615"
  by (simp add: unsigned_minus_1_eq_mask mask_eq_exp_minus_1)

subsection \<open>Finding a substring\<close>

lemma find_sub_bound: "find_sub pat s = Some i \<Longrightarrow> i + length pat \<le> length s"
proof (induction s arbitrary: i)
  case Nil
  then show ?case by (auto split: if_splits)
next
  case (Cons c cs)
  show ?case
  proof (cases "take (length pat) (c # cs) = pat")
    case True
    then have "length pat \<le> length (c # cs)" by (metis length_take min.cobounded1)
    with True Cons.prems show ?thesis by auto
  next
    case False
    with Cons show ?thesis by fastforce
  qed
qed

lemma find_sub_match: "find_sub pat s = Some i \<Longrightarrow> take (length pat) (drop i s) = pat"
  by (induction s arbitrary: i) (auto split: if_splits)

lemma find_sub_append:
  "find_sub pat s = Some i \<Longrightarrow> find_sub pat (s @ t) = Some i"
proof (induction s arbitrary: i)
  case Nil
  then show ?case by (cases t) (auto split: if_splits)
next
  case (Cons c cs)
  have "length pat \<le> length (c # cs)" using find_sub_bound [OF Cons.prems] by simp
  then have tk: "take (length pat) ((c # cs) @ t) = take (length pat) (c # cs)"
    by (simp del: append_Cons)
  show ?case
  proof (cases "take (length pat) (c # cs) = pat")
    case True
    with tk Cons.prems show ?thesis by auto
  next
    case False
    with Cons.prems obtain j where "find_sub pat cs = Some j" and i: "i = Suc j" by auto
    then have "find_sub pat (cs @ t) = Some j" by (simp add: Cons.IH)
    with tk False i show ?thesis by simp
  qed
qed

lemma view_find_append:
  "view_find v pat pos = Some i \<Longrightarrow> view_find (v @ w) pat pos = Some i"
  by (auto simp: view_find_def find_sub_append split: if_splits)

lemma view_find_bound:
  "view_find v pat pos = Some i \<Longrightarrow> pos \<le> i \<and> i + length pat \<le> length v"
  by (auto simp: view_find_def dest!: find_sub_bound split: if_splits)

lemma view_find_match:
  "view_find v pat pos = Some i \<Longrightarrow> take (length pat) (drop i v) = pat"
  by (auto simp: view_find_def add.commute dest!: find_sub_match split: if_splits)

lemma view_at_append: "view_at v i = Inr c \<Longrightarrow> view_at (v @ w) i = Inr c"
  by (auto simp: view_at_def nth_append split: if_splits)

subsection \<open>Decimal numbers\<close>

lemma digit_char_props:
  assumes "d < 10"
  shows "is_digit (digit_char d)" and "digit_val (digit_char d) = d"
  using assms by (simp_all add: is_digit_def digit_val_def digit_char_def)

lemma to_string_nat_nonempty [simp]: "to_string_nat n \<noteq> []"
  by (subst to_string_nat.simps) simp

lemma to_string_nat_digits: "list_all is_digit (to_string_nat n)"
proof (induction n rule: to_string_nat.induct)
  case (1 n)
  then show ?case
    by (cases "n < 10") (simp_all add: to_string_nat.simps [of n] digit_char_props)
qed

lemma digits_value_snoc: "digits_value (s @ [c]) = 10 * digits_value s + digit_val c"
  by (simp add: digits_value_def)

lemma digits_value_to_string_nat [simp]: "digits_value (to_string_nat n) = n"
proof (induction n rule: to_string_nat.induct)
  case (1 n)
  show ?case
  proof (cases "n < 10")
    case True
    then show ?thesis
      by (simp add: to_string_nat.simps [of n] digits_value_def digit_char_props)
  next
    case False
    with 1 show ?thesis
      by (simp add: to_string_nat.simps [of n] digits_value_snoc digit_char_props)
  qed
qed

lemma takeWhile_to_string_nat:
  "r = [] \<or> \<not> is_digit (hd r) \<Longrightarrow> takeWhile is_digit (to_string_nat n @ r) = to_string_nat n"
  using to_string_nat_digits [of n] by (cases r) (auto simp: takeWhile_append list_all_iff)

lemma from_chars_to_string_nat:
  "n < 2 ^ 64 \<Longrightarrow> r = [] \<or> \<not> is_digit (hd r) \<Longrightarrow>
     from_chars (to_string_nat n @ r) = Some (of_nat n)"
  by (simp add: from_chars_def takeWhile_to_string_nat Let_def)

subsection \<open>Algorithms on sequences\<close>

lemma partitioned_takeWhile:
  "partitioned pr xs \<Longrightarrow> i < length xs \<Longrightarrow> pr (xs ! i) \<longleftrightarrow> i < length (takeWhile pr xs)"
  unfolding partitioned_def list_all_iff
  by (metis dropWhile_eq_drop nth_length_takeWhile nth_mem takeWhile_dropWhile_id
      le_add_diff_inverse length_append length_drop linorder_not_less nth_append nth_drop
      nat_add_left_cancel_less set_takeWhileD takeWhile_nth)

lemma partition_search_correct:
  assumes "partitioned pr xs"
    and "first + len \<le> length xs" and "first \<le> length (takeWhile pr xs)"
    and "length (takeWhile pr xs) \<le> first + len"
  shows "partition_search pr xs first len = length (takeWhile pr xs)"
  using assms
proof (induction pr xs first len rule: partition_search.induct)
  case (1 pr xs first len)
  let ?half = "len div 2" and ?k = "length (takeWhile pr xs)"
  show ?case
  proof (cases "len = 0")
    case True
    with 1 show ?thesis by (subst partition_search.simps) simp
  next
    case False
    then have mid: "first + ?half < length xs" using 1 by linarith
    have split: "pr (xs ! (first + ?half)) \<longleftrightarrow> first + ?half < ?k"
      using "1.prems"(1) mid by (rule partitioned_takeWhile)
    show ?thesis
    proof (cases "pr (xs ! (first + ?half))")
      case True
      with split False 1 show ?thesis
        by (simp add: partition_search.simps [of pr xs first len] Let_def)
    next
      case False
      with split \<open>len \<noteq> 0\<close> 1 show ?thesis
        by (simp add: partition_search.simps [of pr xs first len] Let_def)
    qed
  qed
qed

text \<open>On a partitioned range the binary search finds the end of the first block.\<close>

lemma partition_point_eq: "partitioned pr xs \<Longrightarrow> partition_point pr xs = length (takeWhile pr xs)"
  using length_takeWhile_le [of pr xs] by (simp add: partition_point_def partition_search_correct)

lemma partitioned_append:
  "list_all pr xs \<Longrightarrow> list_all (\<lambda>x. \<not> pr x) ys \<Longrightarrow> partitioned pr (xs @ ys)"
  by (auto simp: partitioned_def list_all_iff dropWhile_append dest: set_dropWhileD)

lemma partitioned_filter: "partitioned pr xs \<Longrightarrow> xs = filter pr xs @ filter (\<lambda>x. \<not> pr x) xs"
proof -
  assume "partitioned pr xs"
  then have "filter pr (dropWhile pr xs) = []" "filter (\<lambda>x. \<not> pr x) (dropWhile pr xs) = dropWhile pr xs"
    by (simp_all add: partitioned_def list_all_iff filter_empty_conv)
  moreover have "filter pr (takeWhile pr xs) = takeWhile pr xs" "filter (\<lambda>x. \<not> pr x) (takeWhile pr xs) = []"
    by (auto simp: filter_empty_conv dest: set_takeWhileD intro: filter_True)
  ultimately show ?thesis
    by (metis filter_append append_Nil append_Nil2 takeWhile_dropWhile_id)
qed

lemma partitioned_iff: "partitioned pr xs \<longleftrightarrow> xs = filter pr xs @ filter (\<lambda>x. \<not> pr x) xs"
  using partitioned_filter partitioned_append [of pr "filter pr xs" "filter (\<lambda>x. \<not> pr x) xs"]
  by (auto simp: list_all_iff)

lemma partitioned_takeWhile_eq: "partitioned pr xs \<Longrightarrow> takeWhile pr xs = filter pr xs"
proof -
  assume "partitioned pr xs"
  then have "takeWhile pr xs = takeWhile pr (filter pr xs @ filter (\<lambda>x. \<not> pr x) xs)"
    by (metis partitioned_filter)
  also have "\<dots> = filter pr xs"
    by (cases "filter (\<lambda>x. \<not> pr x) xs") (auto simp: takeWhile_append filter_eq_Cons_iff)
  finally show ?thesis .
qed

section \<open>Transition systems\<close>

text \<open>Runs of a labelled step relation, and the contract under which they keep an invariant.\<close>

inductive steps :: "('c \<Rightarrow> 'e \<Rightarrow> 'c \<Rightarrow> bool) \<Rightarrow> 'c \<Rightarrow> 'e list \<Rightarrow> 'c \<Rightarrow> bool" for step where
  steps_nil: "steps step c [] c"
| steps_cons: "step c e c' \<Longrightarrow> steps step c' es c'' \<Longrightarrow> steps step c (e # es) c''"

inductive_simps steps_simps: "steps step c [] c'" "steps step c (e # es) c'"

lemma steps_one: "step c e c' \<Longrightarrow> steps step c [e] c'"
  by (auto intro: steps.intros)

lemma steps_append: "steps step c es c' \<Longrightarrow> steps step c' fs c'' \<Longrightarrow> steps step c (es @ fs) c''"
  by (induction rule: steps.induct) (auto intro: steps_cons)

locale step_invariant =
  fixes step :: "'c \<Rightarrow> 'e \<Rightarrow> 'c \<Rightarrow> bool" and inv :: "'c \<Rightarrow> bool"
  assumes step_keeps: "inv c \<Longrightarrow> step c e c' \<Longrightarrow> inv c'"
begin

lemma steps_keep: "steps step c es c' \<Longrightarrow> inv c \<Longrightarrow> inv c'"
  by (induction rule: steps.induct) (auto intro: step_keeps)

end

end
