(* ===== verification/Errors.thy ===== *)
theory Errors
  imports Prelude
begin

text \<open>
  The error codes of the library: \<^verbatim>\<open>include/boost/redis/error.hpp\<close> and
  \<^verbatim>\<open>impl/error.ipp\<close>.  An \<open>error_code\<close> is an integer with its category; code that
  reports an error through a reference parameter \<open>ec\<close> returns an \<open>error_code option\<close>,
  where \<open>None\<close> is the cleared code.
\<close>

datatype error =
    invalid_data_type
  | not_a_number
  | exceeeds_max_nested_depth
  | unexpected_bool_value
  | empty_field
  | expects_resp3_simple_type
  | expects_resp3_aggregate
  | expects_resp3_map
  | expects_resp3_set
  | nested_aggregate_not_supported
  | resp3_simple_error
  | resp3_blob_error
  | incompatible_size
  | not_a_double
  | resp3_null
  | not_connected
  | resolve_timeout
  | connect_timeout
  | pong_timeout
  | ssl_handshake_timeout
  | sync_receive_push_failed
  | incompatible_node_depth
  | resp3_hello

definition all_errors :: "error list" where
  "all_errors =
     [invalid_data_type, not_a_number, exceeeds_max_nested_depth, unexpected_bool_value,
      empty_field, expects_resp3_simple_type, expects_resp3_aggregate, expects_resp3_map,
      expects_resp3_set, nested_aggregate_not_supported, resp3_simple_error, resp3_blob_error,
      incompatible_size, not_a_double, resp3_null, not_connected, resolve_timeout,
      connect_timeout, pong_timeout, ssl_handshake_timeout, sync_receive_push_failed,
      incompatible_node_depth, resp3_hello]"

text \<open>\<open>static_cast\<close> between the enumeration and \<open>int\<close>: the enumerators count from 1.\<close>

fun index_of :: "'a \<Rightarrow> 'a list \<Rightarrow> nat" where
  "index_of x [] = 0"
| "index_of x (y # ys) = (if x = y then 0 else Suc (index_of x ys))"

definition error_to_int :: "error \<Rightarrow> int" where
  "error_to_int e = 1 + int (index_of e all_errors)"

definition error_of_int :: "int \<Rightarrow> error option" where
  "error_of_int i =
     (if 1 \<le> i \<and> i \<le> int (length all_errors) then Some (all_errors ! nat (i - 1)) else None)"

fun error_text :: "error \<Rightarrow> string" where
  "error_text invalid_data_type = ''Invalid resp3 type.''"
| "error_text not_a_number =
     ''Can't convert string to number (maybe forgot to upgrade to RESP3?).''"
| "error_text exceeeds_max_nested_depth = ''Exceeds the maximum number of nested responses.''"
| "error_text unexpected_bool_value = ''Unexpected bool value.''"
| "error_text empty_field = ''Expected field value is empty.''"
| "error_text expects_resp3_simple_type = ''Expects a resp3 simple type.''"
| "error_text expects_resp3_aggregate = ''Expects resp3 aggregate.''"
| "error_text expects_resp3_map = ''Expects resp3 map.''"
| "error_text expects_resp3_set = ''Expects resp3 set.''"
| "error_text nested_aggregate_not_supported = ''Nested aggregate not_supported.''"
| "error_text resp3_simple_error = ''Got RESP3 simple-error.''"
| "error_text resp3_blob_error = ''Got RESP3 blob-error.''"
| "error_text incompatible_size = ''Aggregate container has incompatible size.''"
| "error_text not_a_double = ''Not a double.''"
| "error_text resp3_null = ''Got RESP3 null.''"
| "error_text not_connected = ''Not connected.''"
| "error_text resolve_timeout = ''Resolve timeout.''"
| "error_text connect_timeout = ''Connect timeout.''"
| "error_text pong_timeout = ''Pong timeout.''"
| "error_text ssl_handshake_timeout = ''SSL handshake timeout.''"
| "error_text sync_receive_push_failed =
     ''Can't receive server push synchronously without blocking.''"
| "error_text incompatible_node_depth = ''Incompatible node depth.''"
| "error_text resp3_hello = ''RESP3 handshake error (hello command).''"

definition message :: "int \<Rightarrow> fault + string" where
  "message ev = (case error_of_int ev of Some e \<Rightarrow> Inr (error_text e) | None \<Rightarrow> Inl Assert_Failed)"

datatype category = redis_category | asio_category | system_category

definition category_name :: "category \<Rightarrow> string option" where
  "category_name c = (case c of redis_category \<Rightarrow> Some ''boost.redis'' | _ \<Rightarrow> None)"

datatype error_code = Error_Code int category

definition make_error_code :: "error \<Rightarrow> error_code" where
  "make_error_code e = Error_Code (error_to_int e) redis_category"

text \<open>\<open>asio::error::operation_aborted\<close> is \<open>ECANCELED\<close>, 125 on Linux.\<close>

definition operation_aborted :: error_code where
  "operation_aborted = Error_Code 125 system_category"

section \<open>Lemmas\<close>

lemma error_of_int_to_int [simp]: "error_of_int (error_to_int e) = Some e"
  by (cases e) (simp_all add: error_of_int_def error_to_int_def all_errors_def)

lemma error_to_int_inj [simp]: "error_to_int a = error_to_int b \<longleftrightarrow> a = b"
  by (metis error_of_int_to_int option.inject)

lemma make_error_code_inj [simp]: "make_error_code a = make_error_code b \<longleftrightarrow> a = b"
  by (simp add: make_error_code_def)

lemma make_error_code_not_aborted [simp]:
  "make_error_code e \<noteq> operation_aborted" "operation_aborted \<noteq> make_error_code e"
  by (simp_all add: make_error_code_def operation_aborted_def)

lemma message_make: "message (error_to_int e) = Inr (error_text e)"
  by (simp add: message_def)

end
