(* ===== verification/Resp3_Type.thy ===== *)
theory Resp3_Type
  imports Prelude
begin

text \<open>
  RESP3 data types and response nodes: \<^verbatim>\<open>include/boost/redis/resp3/type.hpp\<close>,
  \<^verbatim>\<open>resp3/impl/type.ipp\<close> and \<^verbatim>\<open>resp3/node.hpp\<close>.  The enumerators carry the
  suffix \<open>_t\<close> because \<open>set\<close> and \<open>map\<close> are constants of HOL.
\<close>

datatype resp3_type =
    array_t
  | push_t
  | set_t
  | map_t
  | attribute_t
  | simple_string_t
  | simple_error_t
  | number_t
  | doublean_t
  | boolean_t
  | big_number_t
  | null_t
  | blob_error_t
  | verbatim_string_t
  | blob_string_t
  | streamed_string_t
  | streamed_string_part_t
  | invalid_t

fun to_string :: "resp3_type \<Rightarrow> string" where
  "to_string array_t = ''array''"
| "to_string push_t = ''push''"
| "to_string set_t = ''set''"
| "to_string map_t = ''map''"
| "to_string attribute_t = ''attribute''"
| "to_string simple_string_t = ''simple_string''"
| "to_string simple_error_t = ''simple_error''"
| "to_string number_t = ''number''"
| "to_string doublean_t = ''doublean''"
| "to_string boolean_t = ''boolean''"
| "to_string big_number_t = ''big_number''"
| "to_string null_t = ''null''"
| "to_string blob_error_t = ''blob_error''"
| "to_string verbatim_string_t = ''verbatim_string''"
| "to_string blob_string_t = ''blob_string''"
| "to_string streamed_string_t = ''streamed_string''"
| "to_string streamed_string_part_t = ''streamed_string_part''"
| "to_string invalid_t = ''invalid''"

fun is_aggregate :: "resp3_type \<Rightarrow> bool" where
  "is_aggregate array_t = True"
| "is_aggregate push_t = True"
| "is_aggregate set_t = True"
| "is_aggregate map_t = True"
| "is_aggregate attribute_t = True"
| "is_aggregate _ = False"

fun element_multiplicity :: "resp3_type \<Rightarrow> size_t" where
  "element_multiplicity map_t = 2"
| "element_multiplicity attribute_t = 2"
| "element_multiplicity _ = 1"

text \<open>The wire code; the types that have none fail the assertion of the source.\<close>

fun to_code :: "resp3_type \<Rightarrow> fault + char" where
  "to_code blob_error_t = Inr CHR ''!''"
| "to_code verbatim_string_t = Inr CHR ''=''"
| "to_code blob_string_t = Inr CHR ''$''"
| "to_code streamed_string_part_t = Inr CHR '';''"
| "to_code simple_error_t = Inr CHR ''-''"
| "to_code number_t = Inr CHR '':''"
| "to_code doublean_t = Inr CHR '',''"
| "to_code boolean_t = Inr CHR ''#''"
| "to_code big_number_t = Inr CHR ''(''"
| "to_code simple_string_t = Inr CHR ''+''"
| "to_code null_t = Inr CHR ''_''"
| "to_code push_t = Inr CHR ''>''"
| "to_code set_t = Inr CHR ''~''"
| "to_code array_t = Inr CHR ''*''"
| "to_code attribute_t = Inr CHR ''|''"
| "to_code map_t = Inr CHR ''%''"
| "to_code streamed_string_t = Inl Assert_Failed"
| "to_code invalid_t = Inl Assert_Failed"

definition to_type :: "char \<Rightarrow> resp3_type" where
  "to_type c =
     (if c = CHR ''!'' then blob_error_t
      else if c = CHR ''='' then verbatim_string_t
      else if c = CHR ''$'' then blob_string_t
      else if c = CHR '';'' then streamed_string_part_t
      else if c = CHR ''-'' then simple_error_t
      else if c = CHR '':'' then number_t
      else if c = CHR '','' then doublean_t
      else if c = CHR ''#'' then boolean_t
      else if c = CHR ''('' then big_number_t
      else if c = CHR ''+'' then simple_string_t
      else if c = CHR ''_'' then null_t
      else if c = CHR ''>'' then push_t
      else if c = CHR ''~'' then set_t
      else if c = CHR ''*'' then array_t
      else if c = CHR ''|'' then attribute_t
      else if c = CHR ''%'' then map_t
      else invalid_t)"

text \<open>A node of the response tree.  \<open>depth\<close> is a \<open>std::size_t\<close> in the source; it is at most
  one more than the parser's nesting limit, so it is a natural number here.\<close>

record node =
  data_type :: resp3_type
  aggregate_size :: size_t
  depth :: nat
  node_value :: string

definition empty_node :: node where
  "empty_node = \<lparr>data_type = invalid_t, aggregate_size = 0, depth = 0, node_value = []\<rparr>"

definition node_eq :: "node \<Rightarrow> node \<Rightarrow> bool" where
  "node_eq a b \<longleftrightarrow> aggregate_size a = aggregate_size b \<and> depth a = depth b
     \<and> data_type a = data_type b \<and> node_value a = node_value b"

section \<open>Lemmas\<close>

lemma to_code_iff: "(\<exists>c. to_code t = Inr c) \<longleftrightarrow> t \<noteq> streamed_string_t \<and> t \<noteq> invalid_t"
  by (cases t) simp_all

lemma to_type_simps [simp]:
  "to_type CHR ''!'' = blob_error_t" "to_type CHR ''='' = verbatim_string_t"
  "to_type CHR ''$'' = blob_string_t" "to_type CHR '';'' = streamed_string_part_t"
  "to_type CHR ''-'' = simple_error_t" "to_type CHR '':'' = number_t"
  "to_type CHR '','' = doublean_t" "to_type CHR ''#'' = boolean_t"
  "to_type CHR ''('' = big_number_t" "to_type CHR ''+'' = simple_string_t"
  "to_type CHR ''_'' = null_t" "to_type CHR ''>'' = push_t" "to_type CHR ''~'' = set_t"
  "to_type CHR ''*'' = array_t" "to_type CHR ''|'' = attribute_t" "to_type CHR ''%'' = map_t"
  by (simp_all add: to_type_def)

lemma to_type_to_code: "to_code t = Inr c \<Longrightarrow> to_type c = t"
  by (cases t) auto

lemma to_code_to_type: "to_type c = invalid_t \<or> to_code (to_type c) = Inr c"
  by (simp add: to_type_def)

lemma to_type_never_streamed: "to_type c \<noteq> streamed_string_t"
  by (simp add: to_type_def)

lemma element_multiplicity_cases: "element_multiplicity t = 1 \<or> element_multiplicity t = 2"
  by (cases t) simp_all

lemma node_eq_iff: "node_eq a b \<longleftrightarrow> a = b"
  by (cases a; cases b) (auto simp: node_eq_def)

text \<open>
  The wire code and the type determine each other: reading back the code of a type gives the
  type, a character that denotes a type is the code of that type, and exactly the two types
  that never start a message have no code.
\<close>

theorem to_type_to_code_inverse:
  "(to_code t = Inr c \<longleftrightarrow> t \<noteq> invalid_t \<and> to_type c = t)
   \<and> (to_code t = Inl Assert_Failed \<longleftrightarrow> t = streamed_string_t \<or> t = invalid_t)"
proof
  show "to_code t = Inr c \<longleftrightarrow> t \<noteq> invalid_t \<and> to_type c = t"
    by (metis to_type_to_code to_code_to_type to_code_iff)
  show "to_code t = Inl Assert_Failed \<longleftrightarrow> t = streamed_string_t \<or> t = invalid_t"
    by (cases t) simp_all
qed

end
