(* ===== verification/Parser.thy ===== *)
theory Parser
  imports Errors Resp3_Type
begin

text \<open>
  The incremental RESP3 parser: \<^verbatim>\<open>include/boost/redis/resp3/parser.hpp\<close> and
  \<^verbatim>\<open>resp3/impl/parser.ipp\<close>.

  \<open>parser\<close> is the class, one field per data member.  \<open>consume\<close> works on the whole receive
  buffer and remembers in \<open>p_consumed\<close> how far it got; its result is \<open>Inl ec\<close> when the code
  sets \<open>ec\<close>, \<open>Inr None\<close> when more data is needed and \<open>Inr (Some nd)\<close> for a node.  Positions
  in the buffer and the nesting depth are natural numbers; the counters that can wrap
  (\<open>p_sizes\<close>, \<open>p_bulk_length\<close>) are 64-bit words.  Decrementing \<open>depth_\<close> at 0 makes the
  next access to \<open>sizes_\<close> out of bounds, which is the fault \<open>commit_loop\<close> returns.
\<close>

section \<open>The parser\<close>

definition max_embedded_depth :: nat where
  "max_embedded_depth = 5"

definition sep :: string where
  "sep = [CHR 0x0D, CHR 0x0A]"

record parser =
  p_depth :: nat
  p_sizes :: "size_t list"
  p_bulk_length :: size_t
  p_bulk :: resp3_type
  p_consumed :: nat

definition to_int :: "size_t \<Rightarrow> string \<Rightarrow> size_t \<times> error_code option" where
  "to_int i sv =
     (case from_chars sv of
        Some v \<Rightarrow> (v, None)
      | None \<Rightarrow> (i, Some (make_error_code not_a_number)))"

definition new_parser :: parser where
  "new_parser =
     \<lparr>p_depth = 0, p_sizes = (1 # replicate max_embedded_depth 0)[0 := 2], p_bulk_length = npos,
      p_bulk = invalid_t, p_consumed = 0\<rparr>"

definition reset :: "parser \<Rightarrow> parser" where
  "reset p =
     p\<lparr>p_depth := 0, p_sizes := (1 # replicate max_embedded_depth 0)[0 := 2],
       p_bulk_length := npos, p_bulk := invalid_t, p_consumed := 0\<rparr>"

definition bulk_expected :: "parser \<Rightarrow> bool" where
  "bulk_expected p \<longleftrightarrow> p_bulk p \<noteq> invalid_t"

definition get_suggested_buffer_growth :: "parser \<Rightarrow> size_t \<Rightarrow> size_t" where
  "get_suggested_buffer_growth p hint =
     (if \<not> bulk_expected p then hint
      else if hint < p_bulk_length p + 2 then p_bulk_length p + 2
      else hint)"

definition get_consumed :: "parser \<Rightarrow> nat" where
  "get_consumed p = p_consumed p"

definition parser_done :: "parser \<Rightarrow> bool" where
  "parser_done p \<longleftrightarrow> p_depth p = 0 \<and> p_bulk p = invalid_t \<and> p_consumed p \<noteq> 0"

fun commit_loop :: "nat \<Rightarrow> size_t list \<Rightarrow> fault + nat \<times> size_t list" where
  "commit_loop 0 sizes =
     andThen (array_get sizes 0) (\<lambda>n. if n = 0 then Inl Out_Of_Bounds else Inr (0, sizes))"
| "commit_loop (Suc d) sizes =
     andThen (array_get sizes (Suc d)) (\<lambda>n.
       if n = 0 then
         andThen (array_get sizes d) (\<lambda>m.
         andThen (array_set sizes d (m - 1)) (commit_loop d))
       else Inr (Suc d, sizes))"

definition commit_elem :: "parser \<Rightarrow> fault + parser" where
  "commit_elem p =
     andThen (array_get (p_sizes p) (p_depth p)) (\<lambda>n.
     andThen (array_set (p_sizes p) (p_depth p) (n - 1)) (\<lambda>sizes.
     andThen (commit_loop (p_depth p) sizes) (\<lambda>(d, sizes').
     Inr (p\<lparr>p_depth := d, p_sizes := sizes'\<rparr>))))"

definition mk_node :: "resp3_type \<Rightarrow> size_t \<Rightarrow> nat \<Rightarrow> string \<Rightarrow> node" where
  "mk_node t n d v = \<lparr>data_type = t, aggregate_size = n, depth = d, node_value = v\<rparr>"

text \<open>The groups of cases of the \<open>switch\<close> in \<open>consume_impl\<close>, in the order of the source.\<close>

definition commit_leaf ::
  "parser \<Rightarrow> resp3_type \<Rightarrow> string \<Rightarrow> fault + parser \<times> (error_code + node)" where
  "commit_leaf p t elem =
     andThen (commit_elem p) (\<lambda>p'. Inr (p', Inr (mk_node t 1 (p_depth p) elem)))"

definition consume_part :: "parser \<Rightarrow> string \<Rightarrow> fault + parser \<times> (error_code + node)" where
  "consume_part p elem =
     (case to_int (p_bulk_length p) elem of
        (_, Some ec) \<Rightarrow> Inr (p, Inl ec)
      | (n, None) \<Rightarrow>
          if n = 0 then
            andThen (array_set (p_sizes p) (p_depth p) 1) (\<lambda>sizes.
            andThen (commit_elem (p\<lparr>p_sizes := sizes, p_bulk_length := n, p_bulk := invalid_t\<rparr>))
              (\<lambda>p'. Inr (p', Inr (mk_node streamed_string_part_t 1 (p_depth p) []))))
          else Inr (p\<lparr>p_bulk_length := n, p_bulk := streamed_string_part_t\<rparr>, Inr empty_node))"

definition consume_blob ::
  "parser \<Rightarrow> resp3_type \<Rightarrow> string \<Rightarrow> fault + parser \<times> (error_code + node)" where
  "consume_blob p t elem =
     andThen (view_at elem 0) (\<lambda>c.
     if c = CHR ''?'' then
       andThen (array_set (p_sizes p) (p_depth p + 1) npos) (\<lambda>sizes.
       Inr (p\<lparr>p_depth := p_depth p + 1, p_sizes := sizes\<rparr>,
            Inr (mk_node streamed_string_t 0 (p_depth p + 1) [])))
     else
       (case to_int (p_bulk_length p) elem of
          (_, Some ec) \<Rightarrow> Inr (p, Inl ec)
        | (n, None) \<Rightarrow> Inr (p\<lparr>p_bulk_length := n, p_bulk := t\<rparr>, Inr empty_node)))"

definition consume_boolean ::
  "parser \<Rightarrow> resp3_type \<Rightarrow> string \<Rightarrow> fault + parser \<times> (error_code + node)" where
  "consume_boolean p t elem =
     (case elem of
        [] \<Rightarrow> Inr (p, Inl (make_error_code empty_field))
      | c # _ \<Rightarrow>
          if c \<noteq> CHR ''f'' \<and> c \<noteq> CHR ''t''
          then Inr (p, Inl (make_error_code unexpected_bool_value))
          else commit_leaf p t elem)"

definition consume_numeric ::
  "parser \<Rightarrow> resp3_type \<Rightarrow> string \<Rightarrow> fault + parser \<times> (error_code + node)" where
  "consume_numeric p t elem =
     (if elem = [] then Inr (p, Inl (make_error_code empty_field)) else commit_leaf p t elem)"

definition consume_aggregate ::
  "parser \<Rightarrow> resp3_type \<Rightarrow> string \<Rightarrow> fault + parser \<times> (error_code + node)" where
  "consume_aggregate p t elem =
     (case to_int npos elem of
        (_, Some ec) \<Rightarrow> Inr (p, Inl ec)
      | (l, None) \<Rightarrow>
          if l = 0 then andThen (commit_elem p) (\<lambda>p'. Inr (p', Inr (mk_node t l (p_depth p) [])))
          else if p_depth p = max_embedded_depth
          then Inr (p, Inl (make_error_code exceeeds_max_nested_depth))
          else
            andThen (array_set (p_sizes p) (p_depth p + 1) (l * element_multiplicity t)) (\<lambda>sizes.
            Inr (p\<lparr>p_depth := p_depth p + 1, p_sizes := sizes\<rparr>,
                 Inr (mk_node t l (p_depth p) []))))"

definition consume_impl ::
  "parser \<Rightarrow> resp3_type \<Rightarrow> string \<Rightarrow> fault + parser \<times> (error_code + node)" where
  "consume_impl p t elem =
     (if bulk_expected p then Inl Assert_Failed
      else
        (case t of
           streamed_string_part_t \<Rightarrow> consume_part p elem
         | blob_error_t \<Rightarrow> consume_blob p t elem
         | verbatim_string_t \<Rightarrow> consume_blob p t elem
         | blob_string_t \<Rightarrow> consume_blob p t elem
         | boolean_t \<Rightarrow> consume_boolean p t elem
         | doublean_t \<Rightarrow> consume_numeric p t elem
         | big_number_t \<Rightarrow> consume_numeric p t elem
         | number_t \<Rightarrow> consume_numeric p t elem
         | simple_error_t \<Rightarrow> commit_leaf p t elem
         | simple_string_t \<Rightarrow> commit_leaf p t elem
         | null_t \<Rightarrow> commit_leaf p t elem
         | push_t \<Rightarrow> consume_aggregate p t elem
         | set_t \<Rightarrow> consume_aggregate p t elem
         | array_t \<Rightarrow> consume_aggregate p t elem
         | attribute_t \<Rightarrow> consume_aggregate p t elem
         | map_t \<Rightarrow> consume_aggregate p t elem
         | streamed_string_t \<Rightarrow> Inr (p, Inl (make_error_code invalid_data_type))
         | invalid_t \<Rightarrow> Inr (p, Inl (make_error_code invalid_data_type))))"

text \<open>The \<open>default\<close> branch of the \<open>switch\<close> of \<open>consume\<close>, which reads a bulk.\<close>

definition consume_bulk ::
  "parser \<Rightarrow> string \<Rightarrow> fault + parser \<times> (error_code + node option)" where
  "consume_bulk p view =
     (let span = p_bulk_length p + 2
      in if of_nat (length view) - of_nat (p_consumed p) < span then Inr (p, Inr None)
         else
           andThen (view_substr view (p_consumed p) (p_bulk_length p)) (\<lambda>bulk_view.
           andThen (commit_elem (p\<lparr>p_bulk := invalid_t\<rparr>)) (\<lambda>p'.
           Inr (p'\<lparr>p_consumed := p_consumed p' + unat span\<rparr>,
                Inr (Some (mk_node (p_bulk p) 1 (p_depth p) bulk_view))))))"

text \<open>What \<open>consume\<close> does with the result of \<open>consume_impl\<close> on a line that ends at \<open>pos\<close>.\<close>

definition after_header ::
  "string \<Rightarrow> nat \<Rightarrow> parser \<times> (error_code + node) \<Rightarrow> fault + parser \<times> (error_code + node option)" where
  "after_header view pos res =
     (case res of
        (p1, Inl ec) \<Rightarrow> Inr (p1, Inl ec)
      | (p1, Inr ret) \<Rightarrow>
          let p2 = p1\<lparr>p_consumed := pos + 2\<rparr>
          in if \<not> bulk_expected p2 then Inr (p2, Inr (Some ret)) else consume_bulk p2 view)"

definition consume ::
  "parser \<Rightarrow> string \<Rightarrow> fault + parser \<times> (error_code + node option)" where
  "consume p view =
     (if p_bulk p = invalid_t then
        (case view_find view sep (p_consumed p) of
           None \<Rightarrow> Inr (p, Inr None)
         | Some pos \<Rightarrow>
             andThen (view_at view (p_consumed p)) (\<lambda>c.
             andThen (view_substr view (p_consumed p + 1)
                        (of_nat pos - 1 - of_nat (p_consumed p))) (\<lambda>content.
             andThen (consume_impl p (to_type c) content) (after_header view pos))))
      else consume_bulk p view)"

section \<open>Lemmas on single operations\<close>

lemma reset_eq: "reset p = new_parser"
  by (simp add: reset_def new_parser_def)

lemma commit_elem_frame:
  "commit_elem p = Inr p' \<Longrightarrow>
     p_consumed p' = p_consumed p \<and> p_bulk p' = p_bulk p \<and> p_bulk_length p' = p_bulk_length p"
  by (auto simp: commit_elem_def andThen_Inr_iff)

lemmas consume_groups =
  consume_part_def consume_blob_def consume_boolean_def consume_numeric_def commit_leaf_def
  consume_aggregate_def

lemma commit_leaf_frame: "commit_leaf p t elem = Inr (p', r) \<Longrightarrow> p_consumed p' = p_consumed p"
  by (auto simp: commit_leaf_def andThen_Inr_iff dest!: commit_elem_frame)

lemma consume_part_frame: "consume_part p elem = Inr (p', r) \<Longrightarrow> p_consumed p' = p_consumed p"
  by (auto simp: consume_part_def andThen_Inr_iff dest!: commit_elem_frame
      split: if_splits prod.splits option.splits)

lemma consume_blob_frame: "consume_blob p t elem = Inr (p', r) \<Longrightarrow> p_consumed p' = p_consumed p"
  by (auto simp: consume_blob_def andThen_Inr_iff split: if_splits prod.splits option.splits)

lemma consume_aggregate_frame:
  "consume_aggregate p t elem = Inr (p', r) \<Longrightarrow> p_consumed p' = p_consumed p"
  by (auto simp: consume_aggregate_def andThen_Inr_iff dest!: commit_elem_frame
      split: if_splits prod.splits option.splits)

lemma consume_impl_frame:
  "consume_impl p t elem = Inr (p', r) \<Longrightarrow> p_consumed p' = p_consumed p"
  by (cases t)
    (auto simp: consume_impl_def consume_boolean_def consume_numeric_def commit_leaf_frame
      consume_part_frame consume_blob_frame consume_aggregate_frame
      split: if_splits list.splits)

lemma consume_bulk_progress:
  assumes "consume_bulk p view = Inr (p', Inr (Some nd))"
  shows "p_bulk p' = invalid_t \<and> p_consumed p' = p_consumed p + unat (p_bulk_length p + 2)
    \<and> p_consumed p' \<le> length view"
proof -
  let ?span = "p_bulk_length p + 2"
  have le: "?span \<le> of_nat (length view) - of_nat (p_consumed p)" and
    c: "p_consumed p \<le> length view"
    and p': "p_bulk p' = invalid_t \<and> p_consumed p' = p_consumed p + unat ?span"
    using assms
    by (auto simp: consume_bulk_def view_substr_def andThen_Inr_iff Let_def not_less
        dest!: commit_elem_frame split: if_splits)
  have "unat ?span \<le> length view - p_consumed p"
    using c le by (rule unat_le_of_nat_diff)
  with c p' show ?thesis by simp
qed

definition parse_measure :: "string \<Rightarrow> parser \<Rightarrow> nat" where
  "parse_measure view p = 2 * (length view - p_consumed p) + (if bulk_expected p then 1 else 0)"

lemma consume_progress:
  assumes "consume p view = Inr (p', Inr (Some nd))"
  shows "parse_measure view p' < parse_measure view p"
proof (cases "p_bulk p = invalid_t")
  case False
  then have "consume_bulk p view = Inr (p', Inr (Some nd))"
    using assms by (simp add: consume_def)
  with False show ?thesis
    using consume_bulk_progress [of p view p' nd]
    by (auto simp: parse_measure_def bulk_expected_def)
next
  case True
  then obtain pos c content p1 res where pos: "view_find view sep (p_consumed p) = Some pos"
    and ah: "after_header view pos (p1, res) = Inr (p', Inr (Some nd))"
    using assms by (auto simp: consume_def andThen_Inr_iff split: option.splits)
  have p2: "(\<not> bulk_expected (p1\<lparr>p_consumed := pos + 2\<rparr>) \<and> p' = p1\<lparr>p_consumed := pos + 2\<rparr>)
      \<or> consume_bulk (p1\<lparr>p_consumed := pos + 2\<rparr>) view = Inr (p', Inr (Some nd))"
    using ah by (auto simp: after_header_def Let_def split: sum.splits if_splits)
  from view_find_bound [OF pos] have b: "p_consumed p \<le> pos" "pos + 2 \<le> length view"
    by (simp_all add: sep_def)
  from p2 show ?thesis
  proof
    assume "\<not> bulk_expected (p1\<lparr>p_consumed := pos + 2\<rparr>) \<and> p' = p1\<lparr>p_consumed := pos + 2\<rparr>"
    with b True show ?thesis by (auto simp: parse_measure_def bulk_expected_def)
  next
    assume "consume_bulk (p1\<lparr>p_consumed := pos + 2\<rparr>) view = Inr (p', Inr (Some nd))"
    from consume_bulk_progress [OF this] b True show ?thesis
      by (auto simp: parse_measure_def bulk_expected_def)
  qed
qed

section \<open>The parse loop\<close>

text \<open>
  An adapter is called with each node; it has a state of its own and may set an error.
  \<open>parse\<close> returns the source's boolean and the final \<open>ec\<close>: \<open>False\<close> when more data is needed.
\<close>

type_synonym 's adapter = "'s \<Rightarrow> node \<Rightarrow> fault + 's \<times> error_code option"

function parse ::
  "'s adapter \<Rightarrow> string \<Rightarrow> parser \<Rightarrow> 's \<Rightarrow> fault + parser \<times> 's \<times> bool \<times> error_code option" where
  "parse A msg p s =
     (if parser_done p then Inr (p, s, True, None)
      else
        (case consume p msg of
           Inl f \<Rightarrow> Inl f
         | Inr (p', Inl ec) \<Rightarrow> Inr (p', s, True, Some ec)
         | Inr (p', Inr None) \<Rightarrow> Inr (p', s, False, None)
         | Inr (p', Inr (Some nd)) \<Rightarrow>
             (case A s nd of
                Inl f \<Rightarrow> Inl f
              | Inr (s', Some ec) \<Rightarrow> Inr (p', s', True, Some ec)
              | Inr (s', None) \<Rightarrow> parse A msg p' s')))"
  by pat_completeness auto
termination
  by (relation "measure (\<lambda>(A, msg, p, s). parse_measure msg p)") (auto dest: consume_progress)

declare parse.simps [simp del]

lemma parse_done: "parser_done p \<Longrightarrow> parse A msg p s = Inr (p, s, True, None)"
  by (simp add: parse.simps [of A msg p s])

lemma parse_error:
  "\<not> parser_done p \<Longrightarrow> consume p msg = Inr (p', Inl ec) \<Longrightarrow>
     parse A msg p s = Inr (p', s, True, Some ec)"
  by (simp add: parse.simps [of A msg p s])

lemma parse_need:
  "\<not> parser_done p \<Longrightarrow> consume p msg = Inr (p', Inr None) \<Longrightarrow> parse A msg p s = Inr (p', s, False, None)"
  by (simp add: parse.simps [of A msg p s])

lemma parse_stop:
  "\<not> parser_done p \<Longrightarrow> consume p msg = Inr (p', Inr (Some nd)) \<Longrightarrow> A s nd = Inr (s', Some ec) \<Longrightarrow>
     parse A msg p s = Inr (p', s', True, Some ec)"
  by (simp add: parse.simps [of A msg p s])

lemma parse_step:
  "\<not> parser_done p \<Longrightarrow> consume p msg = Inr (p', Inr (Some nd)) \<Longrightarrow> A s nd = Inr (s', None) \<Longrightarrow>
     parse A msg p s = parse A msg p' s'"
  by (simp add: parse.simps [of A msg p s])

lemmas parse_steps = parse_done parse_error parse_need parse_stop parse_step

text \<open>Induction over a run of the loop that does not fault: one case for each way the loop ends
  and one for a further iteration.\<close>

lemma parse_induct [consumes 1, case_names Done Error Need Stop Step]:
  assumes run: "parse A msg p s = Inr r"
    and "\<And>p s. parser_done p \<Longrightarrow> P p s (p, s, True, None)"
    and "\<And>p s p' ec. \<not> parser_done p \<Longrightarrow> consume p msg = Inr (p', Inl ec) \<Longrightarrow> P p s (p', s, True, Some ec)"
    and "\<And>p s p'. \<not> parser_done p \<Longrightarrow> consume p msg = Inr (p', Inr None) \<Longrightarrow> P p s (p', s, False, None)"
    and "\<And>p s p' nd s' ec. \<not> parser_done p \<Longrightarrow> consume p msg = Inr (p', Inr (Some nd)) \<Longrightarrow>
      A s nd = Inr (s', Some ec) \<Longrightarrow> P p s (p', s', True, Some ec)"
    and "\<And>p s p' nd s' r. \<not> parser_done p \<Longrightarrow> consume p msg = Inr (p', Inr (Some nd)) \<Longrightarrow>
      A s nd = Inr (s', None) \<Longrightarrow> parse A msg p' s' = Inr r \<Longrightarrow> P p' s' r \<Longrightarrow> P p s r"
  shows "P p s r"
  using run
proof (induction "parse_measure msg p" arbitrary: p s rule: less_induct)
  case less
  from less.prems show ?case
    by (subst (asm) parse.simps)
      (auto intro: assms(2-5) assms(6) less.hyps consume_progress
        split: if_splits sum.splits prod.splits option.splits)
qed

lemma parse_true_done: "parse A v p s = Inr (p', s', True, None) \<Longrightarrow> parser_done p'"
proof -
  have "fst (snd (snd r)) \<Longrightarrow> snd (snd (snd r)) = None \<Longrightarrow> parser_done (fst r)" if "parse A v p s = Inr r" for r
    using that by (induction rule: parse_induct) simp_all
  then show "parse A v p s = Inr (p', s', True, None) \<Longrightarrow> parser_done p'" by fastforce
qed

section \<open>The stack of open aggregates\<close>

text \<open>
  What \<open>depth_\<close> and \<open>sizes_\<close> represent: the stack of the counters of the open aggregates,
  innermost first, with the sentinel at the bottom.  \<open>stack_commit\<close> is the specification of
  \<open>commit_elem\<close> on it: count one element down and close every aggregate that is complete.
\<close>

definition stack :: "parser \<Rightarrow> size_t list" where
  "stack p = rev (take (Suc (p_depth p)) (p_sizes p))"

fun stack_settle :: "size_t list \<Rightarrow> size_t list option" where
  "stack_settle [] = None"
| "stack_settle [n] = (if n = 0 then None else Some [n])"
| "stack_settle (n # m # s) = (if n = 0 then stack_settle ((m - 1) # s) else Some (n # m # s))"

definition stack_commit :: "size_t list \<Rightarrow> size_t list option" where
  "stack_commit s = (case s of [] \<Rightarrow> None | n # r \<Rightarrow> stack_settle ((n - 1) # r))"

definition wf_parser :: "parser \<Rightarrow> bool" where
  "wf_parser p \<longleftrightarrow> length (p_sizes p) = max_embedded_depth + 1 \<and> p_depth p \<le> max_embedded_depth"

lemma commit_loop_refines:
  assumes "d < length sizes"
  shows "case stack_settle (rev (take (Suc d) sizes)) of
      None \<Rightarrow> commit_loop d sizes = Inl Out_Of_Bounds
    | Some st \<Rightarrow> \<exists>d' sizes'. commit_loop d sizes = Inr (d', sizes') \<and> d' \<le> d
        \<and> length sizes' = length sizes \<and> rev (take (Suc d') sizes') = st"
  using assms
proof (induction d arbitrary: sizes)
  case 0
  then show ?case by (cases sizes) auto
next
  case (Suc d)
  have tk: "rev (take (Suc (Suc d)) sizes) = sizes ! Suc d # sizes ! d # rev (take d sizes)"
    using Suc.prems by (simp add: take_Suc_conv_app_nth)
  show ?case
  proof (cases "sizes ! Suc d = 0")
    case False
    with Suc.prems tk show ?thesis by auto
  next
    case True
    let ?sizes = "sizes[d := sizes ! d - 1]"
    have "rev (take (Suc d) ?sizes) = (sizes ! d - 1) # rev (take d sizes)"
      using Suc.prems by (simp add: take_Suc_conv_app_nth)
    moreover have "commit_loop (Suc d) sizes = commit_loop d ?sizes"
      using Suc.prems True by simp
    ultimately show ?thesis
      using Suc.IH [of ?sizes] Suc.prems True tk by (auto split: option.splits)
  qed
qed

lemma length_stack: "wf_parser p \<Longrightarrow> length (stack p) = Suc (p_depth p)"
  by (simp add: stack_def wf_parser_def)

lemma commit_elem_refines:
  assumes "wf_parser p"
  shows "case stack_commit (stack p) of
      None \<Rightarrow> commit_elem p = Inl Out_Of_Bounds
    | Some st \<Rightarrow> \<exists>p'. commit_elem p = Inr p' \<and> wf_parser p' \<and> stack p' = st \<and> p_depth p' \<le> p_depth p"
proof -
  let ?d = "p_depth p" and ?s = "p_sizes p"
  let ?s' = "?s[?d := ?s ! ?d - 1]"
  have d: "?d < length ?s" using assms by (simp add: wf_parser_def)
  have st: "stack p = ?s ! ?d # rev (take ?d ?s)"
    using d by (simp add: stack_def take_Suc_conv_app_nth)
  have st': "rev (take (Suc ?d) ?s') = (?s ! ?d - 1) # rev (take ?d ?s)"
    using d by (simp add: take_Suc_conv_app_nth)
  have eq: "commit_elem p =
    andThen (commit_loop ?d ?s') (\<lambda>(d, sizes'). Inr (p\<lparr>p_depth := d, p_sizes := sizes'\<rparr>))"
    using d by (simp add: commit_elem_def)
  have "?d < length ?s'" using d by simp
  from commit_loop_refines [OF this] show ?thesis
    using assms unfolding eq st st' stack_commit_def
    by (auto simp: wf_parser_def stack_def split: option.splits)
qed

lemma stack_settle_sentinel:
  assumes "last s = 2 \<and> length s \<ge> 2 \<or> s = [1]"
  shows "\<exists>s'. stack_settle s = Some s' \<and> (s' = [1] \<or> last s' = 2 \<and> length s' \<ge> 2)"
  using assms
proof (induction s rule: stack_settle.induct)
  case (3 n m s)
  then show ?case by (cases s) auto
qed auto

text \<open>With the sentinel 2 at the bottom committing an element never runs off the stack.\<close>

lemma stack_commit_sentinel:
  assumes "s \<noteq> []" and "last s = 2"
  shows "\<exists>s'. stack_commit s = Some s' \<and> (s' = [1] \<or> last s' = 2 \<and> length s' \<ge> 2)"
proof -
  obtain n r where s: "s = n # r" using assms by (cases s) auto
  have "last ((n - 1) # r) = 2 \<and> length ((n - 1) # r) \<ge> 2 \<or> (n - 1) # r = [1]"
    using assms s by (cases r) auto
  from stack_settle_sentinel [OF this] show ?thesis by (simp add: stack_commit_def s)
qed

end
