(* ===== verification/Parser_Safety.thy ===== *)
theory Parser_Safety
  imports Parser
begin

text \<open>
  When the parser stays within its array and when it does not.  \<open>open_message\<close> is the state of
  the parser inside a message, \<open>closed_message\<close> the state after the last element of it.
  \<open>line_fault\<close> lists the header lines on which the code breaks a precondition: an empty length
  of a blob, a streamed string at the nesting limit and the end of a streamed string outside
  every aggregate.  The theorems show that there is no other.
\<close>

section \<open>Definitions\<close>

definition open_message :: "parser \<Rightarrow> bool" where
  "open_message p \<longleftrightarrow> wf_parser p \<and> last (stack p) = 2"

definition closed_message :: "parser \<Rightarrow> bool" where
  "closed_message p \<longleftrightarrow> wf_parser p \<and> stack p = [1] \<and> p_bulk p = invalid_t"

definition line_fault :: "parser \<Rightarrow> resp3_type \<Rightarrow> string \<Rightarrow> fault option" where
  "line_fault p t elem =
     (if t \<in> {blob_error_t, verbatim_string_t, blob_string_t} then
        (case elem of
           [] \<Rightarrow> Some Out_Of_Range
         | c # _ \<Rightarrow> if c = CHR ''?'' \<and> p_depth p = max_embedded_depth then Some Out_Of_Bounds else None)
      else if t = streamed_string_part_t \<and> from_chars elem = Some 0 \<and> p_depth p = 0
      then Some Out_Of_Bounds
      else None)"

definition line_content :: "string \<Rightarrow> nat \<Rightarrow> nat \<Rightarrow> string" where
  "line_content view c pos = take (pos - c - 1) (drop (c + 1) view)"

definition bad_line :: "string \<Rightarrow> parser \<Rightarrow> fault \<Rightarrow> bool" where
  "bad_line view p f \<longleftrightarrow>
     p_bulk p = invalid_t
     \<and> (case view_find view sep (p_consumed p) of
          None \<Rightarrow> False
        | Some pos \<Rightarrow>
            line_fault p (to_type (view ! p_consumed p)) (line_content view (p_consumed p) pos) = Some f)"

inductive scan :: "string \<Rightarrow> parser \<Rightarrow> parser \<Rightarrow> bool" for view where
  scan_refl: "scan view p p"
| scan_step: "scan view p p' \<Longrightarrow> \<not> parser_done p' \<Longrightarrow> consume p' view = Inr (p'', Inr (Some nd)) \<Longrightarrow>
    scan view p p''"

section \<open>Committing an element\<close>

lemma stack_frame [simp]:
  "stack (p\<lparr>p_bulk := b\<rparr>) = stack p" "stack (p\<lparr>p_bulk_length := n\<rparr>) = stack p"
  "stack (p\<lparr>p_consumed := c\<rparr>) = stack p"
  by (simp_all add: stack_def)

lemma wf_parser_frame [simp]:
  "wf_parser (p\<lparr>p_bulk := b\<rparr>) = wf_parser p" "wf_parser (p\<lparr>p_bulk_length := n\<rparr>) = wf_parser p"
  "wf_parser (p\<lparr>p_consumed := c\<rparr>) = wf_parser p"
  by (simp_all add: wf_parser_def)

lemma stack_nonempty: "wf_parser p \<Longrightarrow> stack p \<noteq> []"
  using length_stack by fastforce

lemma open_message_new [simp]: "open_message new_parser"
  by (simp add: open_message_def new_parser_def wf_parser_def stack_def max_embedded_depth_def)

lemma commit_elem_open:
  assumes "open_message p"
  shows "\<exists>p'. commit_elem p = Inr p' \<and> wf_parser p' \<and> stack_commit (stack p) = Some (stack p')
    \<and> (stack p' = [1] \<or> last (stack p') = 2)"
proof -
  from assms have wf: "wf_parser p" and l: "last (stack p) = 2" by (simp_all add: open_message_def)
  from stack_commit_sentinel [OF stack_nonempty [OF wf] l] obtain st
    where st: "stack_commit (stack p) = Some st" "st = [1] \<or> last st = 2" by auto
  with commit_elem_refines [OF wf] show ?thesis by auto
qed

lemma commit_elem_result:
  assumes "open_message p" and "p_bulk p = invalid_t" and "commit_elem p = Inr p'"
  shows "open_message p' \<or> closed_message p'"
  using commit_elem_open [OF assms(1)] commit_elem_frame [OF assms(3)] assms
  by (auto simp: open_message_def closed_message_def)

section \<open>Header lines\<close>

lemma array_set_wf:
  "wf_parser p \<Longrightarrow> array_set (p_sizes p) (p_depth p) v = Inr ((p_sizes p)[p_depth p := v])"
  by (simp add: wf_parser_def)

lemma stack_set_top:
  "wf_parser p \<Longrightarrow> stack (p\<lparr>p_sizes := (p_sizes p)[p_depth p := v]\<rparr>) = v # tl (stack p)"
  by (simp add: wf_parser_def stack_def take_Suc_conv_app_nth)

lemma stack_push:
  assumes "wf_parser p" and "p_depth p < max_embedded_depth"
  shows "stack (p\<lparr>p_depth := p_depth p + 1, p_sizes := (p_sizes p)[p_depth p + 1 := v]\<rparr>) = v # stack p"
    and "wf_parser (p\<lparr>p_depth := p_depth p + 1, p_sizes := (p_sizes p)[p_depth p + 1 := v]\<rparr>)"
  using assms by (simp_all add: wf_parser_def stack_def take_Suc_conv_app_nth)

lemma open_push:
  assumes "open_message p" and "p_depth p < max_embedded_depth"
  shows "open_message (p\<lparr>p_depth := p_depth p + 1, p_sizes := (p_sizes p)[p_depth p + 1 := v]\<rparr>)"
  using assms stack_push [of p v] stack_nonempty [of p] by (simp add: open_message_def)

lemma open_set_top:
  assumes "open_message p" and "0 < p_depth p"
  shows "open_message (p\<lparr>p_sizes := (p_sizes p)[p_depth p := v]\<rparr>)"
proof -
  have "wf_parser p" "last (stack p) = 2" "tl (stack p) \<noteq> []"
    using assms length_stack [of p] by (auto simp: open_message_def simp flip: length_0_conv)
  then show ?thesis
    using stack_set_top [of p v] by (simp add: open_message_def wf_parser_def last_tl)
qed

lemma commit_leaf_ok: "open_message p \<Longrightarrow> \<exists>p'. commit_leaf p t elem = Inr p'"
  using commit_elem_open [of p] by (auto simp: commit_leaf_def)

lemma consume_part_fault:
  assumes "open_message p"
  shows "consume_part p elem = Inl f \<longleftrightarrow> f = Out_Of_Bounds \<and> from_chars elem = Some 0 \<and> p_depth p = 0"
proof (cases "from_chars elem = Some 0")
  case False
  then show ?thesis by (auto simp: consume_part_def to_int_def split: option.splits)
next
  case True
  have wf: "wf_parser p" using assms by (simp add: open_message_def)
  let ?q = "p\<lparr>p_sizes := (p_sizes p)[p_depth p := 1]\<rparr>"
  let ?p = "?q\<lparr>p_bulk_length := 0, p_bulk := invalid_t\<rparr>"
  have eq: "consume_part p elem = andThen (commit_elem ?p)
      (\<lambda>p'. Inr (p', Inr (mk_node streamed_string_part_t 1 (p_depth p) [])))"
    using True array_set_wf [OF wf] by (simp add: consume_part_def to_int_def)
  show ?thesis
  proof (cases "p_depth p = 0")
    case False
    then have "open_message ?p" using open_set_top [OF assms] by (simp add: open_message_def)
    from commit_elem_open [OF this] False show ?thesis by (auto simp: eq)
  next
    case root: True
    have "wf_parser ?p" and "stack ?p = [1]"
      using wf root stack_set_top [OF wf, of 1] length_stack [OF wf]
      by (auto simp: wf_parser_def length_Suc_conv)
    with commit_elem_refines [of ?p] True root show ?thesis
      by (auto simp: eq stack_commit_def)
  qed
qed

lemma consume_blob_fault:
  assumes "open_message p"
  shows "consume_blob p t elem = Inl f \<longleftrightarrow>
    (elem = [] \<and> f = Out_Of_Range
     \<or> elem \<noteq> [] \<and> hd elem = CHR ''?'' \<and> p_depth p = max_embedded_depth \<and> f = Out_Of_Bounds)"
  using assms
  by (cases elem)
    (auto simp: consume_blob_def view_at_def to_int_def array_set_def open_message_def wf_parser_def
      split: option.splits)

lemma consume_aggregate_ok: "open_message p \<Longrightarrow> consume_aggregate p t elem \<noteq> Inl f"
  using commit_elem_open [of p]
  by (auto simp: consume_aggregate_def to_int_def array_set_def open_message_def wf_parser_def
      split: option.splits)

lemma consume_impl_fault:
  assumes "open_message p" and "p_bulk p = invalid_t"
  shows "consume_impl p t elem = Inl f \<longleftrightarrow> line_fault p t elem = Some f"
  using assms commit_leaf_ok [OF assms(1), of t elem]
  by (cases t)
    (auto simp: consume_impl_def line_fault_def bulk_expected_def consume_part_fault
      consume_blob_fault consume_aggregate_ok consume_boolean_def consume_numeric_def
      split: list.splits)


lemma commit_leaf_inv:
  "open_message p \<Longrightarrow> p_bulk p = invalid_t \<Longrightarrow> commit_leaf p t elem = Inr (p', r) \<Longrightarrow>
     open_message p' \<or> closed_message p'"
  using commit_elem_result [of p] by (auto simp: commit_leaf_def andThen_Inr_iff)

lemma consume_part_inv:
  assumes "open_message p" and "consume_part p elem = Inr (p', r)"
  shows "open_message p' \<or> closed_message p'"
proof (cases "from_chars elem = Some 0")
  case False
  with assms show ?thesis
    by (auto simp: consume_part_def to_int_def open_message_def split: option.splits)
next
  case True
  let ?p = "p\<lparr>p_sizes := (p_sizes p)[p_depth p := 1], p_bulk_length := 0, p_bulk := invalid_t\<rparr>"
  have wf: "wf_parser p" using assms by (simp add: open_message_def)
  have "0 < p_depth p"
    using consume_part_fault [OF assms(1), of elem Out_Of_Bounds] True assms(2) by auto
  then have "open_message ?p" using open_set_top [OF assms(1)] by (simp add: open_message_def)
  moreover have "commit_elem ?p = Inr p'"
    using True assms(2) array_set_wf [OF wf] by (auto simp: consume_part_def to_int_def andThen_Inr_iff)
  ultimately show ?thesis by (auto dest: commit_elem_result)
qed

lemma consume_blob_inv:
  "open_message p \<Longrightarrow> consume_blob p t elem = Inr (p', r) \<Longrightarrow> open_message p'"
  using open_push [of p npos]
  by (auto simp: consume_blob_def to_int_def andThen_Inr_iff array_set_def open_message_def
      wf_parser_def max_embedded_depth_def split: option.splits if_splits)

lemma consume_aggregate_inv:
  "open_message p \<Longrightarrow> p_bulk p = invalid_t \<Longrightarrow> consume_aggregate p t elem = Inr (p', r) \<Longrightarrow>
     open_message p' \<or> closed_message p'"
  using commit_elem_result [of p] open_push [of p]
  by (auto simp: consume_aggregate_def to_int_def andThen_Inr_iff array_set_def open_message_def
      wf_parser_def max_embedded_depth_def split: option.splits if_splits)

lemma consume_impl_inv:
  assumes "open_message p" and "consume_impl p t elem = Inr (p', r)"
  shows "open_message p' \<or> closed_message p'"
  using assms
  by (cases t)
    (auto simp: consume_impl_def bulk_expected_def consume_boolean_def consume_numeric_def
      dest: commit_leaf_inv consume_part_inv consume_blob_inv consume_aggregate_inv
      split: if_splits list.splits)

section \<open>Whole lines and bulks\<close>

lemma view_substr_line:
  assumes "c < pos" and "pos \<le> length view" and "length view < 2 ^ 64"
  shows "view_substr view (c + 1) (of_nat pos - 1 - of_nat c) = Inr (line_content view c pos)"
proof -
  have "(of_nat pos - 1 - of_nat c :: size_t) = of_nat (pos - 1 - c)"
    using assms by (simp add: of_nat_diff)
  moreover have "unat (of_nat (pos - 1 - c) :: size_t) = pos - 1 - c"
    using assms by (intro unat_of_nat_size_t) simp
  ultimately have "unat (of_nat pos - 1 - of_nat c :: size_t) = pos - 1 - c" by metis
  with assms show ?thesis by (simp add: view_substr_def line_content_def)
qed

lemma sep_simps [simp]: "length sep = 2" "to_type CHR 0x0D = invalid_t"
  by (simp_all add: sep_def to_type_def)

lemma empty_line_type: "view_find view sep c = Some c \<Longrightarrow> to_type (view ! c) = invalid_t"
  using view_find_match [of view sep c c] view_find_bound [of view sep c c]
  by (cases "drop c view") (auto simp: sep_def simp flip: hd_drop_conv_nth)

lemma consume_line:
  assumes "p_bulk p = invalid_t" and "view_find view sep (p_consumed p) = Some pos"
    and "length view < 2 ^ 64"
  shows "consume p view =
    andThen (consume_impl p (to_type (view ! p_consumed p)) (line_content view (p_consumed p) pos))
      (after_header view pos)"
proof -
  let ?c = "p_consumed p"
  from view_find_bound [OF assms(2)] have b: "?c \<le> pos" "pos + 2 \<le> length view" by simp_all
  have at: "view_at view ?c = Inr (view ! ?c)" using b by (simp add: view_at_def)
  show ?thesis
  proof (cases "pos = ?c")
    case False
    then show ?thesis
      using assms b at view_substr_line [of ?c pos view] by (simp add: consume_def)
  next
    case True
    have "to_type (view ! ?c) = invalid_t" using assms(2) True by (simp add: empty_line_type)
    moreover have "\<exists>content. view_substr view (?c + 1) (of_nat pos - 1 - of_nat ?c) = Inr content"
      using b by (simp add: view_substr_def)
    ultimately show ?thesis
      using assms at by (auto simp: consume_def consume_impl_def bulk_expected_def)
  qed
qed

lemma consume_bulk_ok:
  assumes "open_message p" and "p_consumed p \<le> length view"
  shows "consume_bulk p view \<noteq> Inl f"
  using commit_elem_open [of "p\<lparr>p_bulk := invalid_t\<rparr>"] assms
  by (auto simp: consume_bulk_def view_substr_def open_message_def Let_def)

lemma consume_bulk_inv:
  assumes "open_message p" and "consume_bulk p view = Inr (p', r)"
  shows "open_message p' \<or> closed_message p'"
  using commit_elem_result [of "p\<lparr>p_bulk := invalid_t\<rparr>"] assms
  by (fastforce simp: consume_bulk_def andThen_Inr_iff Let_def open_message_def closed_message_def
      split: if_splits)

lemma closed_not_bulk: "closed_message p \<Longrightarrow> \<not> bulk_expected (p\<lparr>p_consumed := c\<rparr>)"
  by (simp add: closed_message_def bulk_expected_def)

lemma after_header_simps [simp]:
  "after_header view pos (p1, Inl ec) = Inr (p1, Inl ec)"
  "after_header view pos (p1, Inr ret) =
     (if bulk_expected p1 then consume_bulk (p1\<lparr>p_consumed := pos + 2\<rparr>) view
      else Inr (p1\<lparr>p_consumed := pos + 2\<rparr>, Inr (Some ret)))"
  by (simp_all add: after_header_def Let_def bulk_expected_def)

lemma after_header_ok:
  assumes "open_message p \<or> closed_message p" and "pos + 2 \<le> length view"
  shows "after_header view pos (p, r) \<noteq> Inl f"
  using assms consume_bulk_ok [of "p\<lparr>p_consumed := pos + 2\<rparr>" view f] closed_not_bulk [of p "pos + 2"]
  by (auto simp: after_header_def Let_def open_message_def split: sum.splits)

text \<open>
  Inside a message the parser faults on exactly the header lines listed by \<open>line_fault\<close>:
  the next line of the buffer is an empty blob length, a streamed string at depth 5, or the end
  of a streamed string at depth 0.  On every other input \<open>consume\<close> stays within its array and
  within the buffer.
\<close>

lemma consume_fault_iff:
  assumes "open_message p" and "p_consumed p \<le> length view" and "length view < 2 ^ 64"
  shows "consume p view = Inl f \<longleftrightarrow> bad_line view p f"
proof (cases "p_bulk p = invalid_t")
  case False
  with consume_bulk_ok [OF assms(1,2)] show ?thesis by (simp add: consume_def bad_line_def)
next
  case True
  show ?thesis
  proof (cases "view_find view sep (p_consumed p)")
    case None
    with True show ?thesis by (simp add: consume_def bad_line_def)
  next
    case (Some pos)
    let ?t = "to_type (view ! p_consumed p)" and ?e = "line_content view (p_consumed p) pos"
    have "after_header view pos x \<noteq> Inl f" if "consume_impl p ?t ?e = Inr x" for x
      using consume_impl_inv [OF assms(1)] that view_find_bound [OF Some] after_header_ok
      by (cases x) auto
    then show ?thesis
      using consume_line [OF True Some assms(3)] consume_impl_fault [OF assms(1) True, of ?t ?e f]
        True Some
      by (auto simp: andThen_Inl_iff bad_line_def)
  qed
qed


section \<open>The parse loop\<close>

definition parser_inv :: "string \<Rightarrow> parser \<Rightarrow> bool" where
  "parser_inv view p \<longleftrightarrow>
     (open_message p \<or> closed_message p \<and> p_consumed p \<noteq> 0)
     \<and> p_consumed p \<le> length view \<and> (bulk_expected p \<longrightarrow> p_consumed p \<noteq> 0)"

lemma parser_inv_new [simp]: "parser_inv view new_parser"
  using open_message_new by (simp add: parser_inv_def bulk_expected_def new_parser_def)

lemma parser_inv_append: "parser_inv v p \<Longrightarrow> parser_inv (v @ w) p"
  by (auto simp: parser_inv_def)

lemma closed_done: "closed_message p \<Longrightarrow> p_consumed p \<noteq> 0 \<Longrightarrow> parser_done p"
  using length_stack [of p] by (simp add: closed_message_def parser_done_def)

lemma inv_not_done_open: "parser_inv view p \<Longrightarrow> \<not> parser_done p \<Longrightarrow> open_message p"
  using closed_done by (auto simp: parser_inv_def)

lemma consume_impl_error: "consume_impl p t elem = Inr (p', Inl ec) \<Longrightarrow> p' = p"
  by (cases t)
    (auto simp: consume_impl_def consume_groups andThen_Inr_iff
      split: if_splits list.splits option.splits prod.splits)

lemma consume_bulk_parser_inv:
  assumes "open_message p" and "p_consumed p \<le> length view" and "p_consumed p \<noteq> 0"
    and "consume_bulk p view = Inr (p', r)"
  shows "parser_inv view p'"
proof (cases r)
  case (Inl ec)
  with assms(4) show ?thesis by (auto simp: consume_bulk_def Let_def andThen_Inr_iff split: if_splits)
next
  case (Inr x)
  note r = this
  show ?thesis
  proof (cases x)
    case None
    with r assms have "p' = p" by (auto simp: consume_bulk_def Let_def andThen_Inr_iff split: if_splits)
    with assms show ?thesis by (simp add: parser_inv_def)
  next
    case (Some nd)
    with r assms(4) have "consume_bulk p view = Inr (p', Inr (Some nd))" by simp
    from consume_bulk_progress [OF this] consume_bulk_inv [OF assms(1,4)] assms(3)
    show ?thesis by (auto simp: parser_inv_def)
  qed
qed

lemma after_header_parser_inv:
  assumes "open_message p1 \<or> closed_message p1" and "pos + 2 \<le> length view"
    and "after_header view pos (p1, Inr ret) = Inr (p', r)"
  shows "parser_inv view p'"
proof (cases "bulk_expected (p1\<lparr>p_consumed := pos + 2\<rparr>)")
  case False
  with assms have "p' = p1\<lparr>p_consumed := pos + 2\<rparr>"
    by (auto simp: after_header_def Let_def)
  with assms show ?thesis
    by (auto simp: parser_inv_def open_message_def closed_message_def)
next
  case True
  with assms have "open_message (p1\<lparr>p_consumed := pos + 2\<rparr>)"
    using closed_not_bulk by (auto simp: open_message_def)
  with assms True show ?thesis
    by (intro consume_bulk_parser_inv [of "p1\<lparr>p_consumed := pos + 2\<rparr>" view p' r])
      (auto simp: after_header_def Let_def)
qed

lemma consume_parser_inv:
  assumes "parser_inv view p" and "\<not> parser_done p" and "length view < 2 ^ 64"
    and "consume p view = Inr (p', r)"
  shows "parser_inv view p'"
proof (cases "p_bulk p = invalid_t")
  case False
  with assms have "consume_bulk p view = Inr (p', r)" by (simp add: consume_def)
  with assms False inv_not_done_open [OF assms(1,2)] show ?thesis
    by (intro consume_bulk_parser_inv) (auto simp: parser_inv_def bulk_expected_def)
next
  case True
  show ?thesis
  proof (cases "view_find view sep (p_consumed p)")
    case None
    with True assms show ?thesis by (simp add: consume_def)
  next
    case (Some pos)
    note opn = inv_not_done_open [OF assms(1,2)]
    from assms(4) consume_line [OF True Some assms(3)] obtain p1 res
      where ci: "consume_impl p (to_type (view ! p_consumed p))
          (line_content view (p_consumed p) pos) = Inr (p1, res)"
        and ah: "after_header view pos (p1, res) = Inr (p', r)"
      by (auto simp: andThen_Inr_iff)
    show ?thesis
    proof (cases res)
      case (Inl ec)
      with ci ah have "p' = p" by (auto simp: after_header_def dest: consume_impl_error)
      with assms show ?thesis by simp
    next
      case (Inr ret)
      with ah consume_impl_inv [OF opn ci] view_find_bound [OF Some] show ?thesis
        by (auto intro: after_header_parser_inv)
    qed
  qed
qed

lemma scan_parser_inv:
  "scan view p p' \<Longrightarrow> parser_inv view p \<Longrightarrow> length view < 2 ^ 64 \<Longrightarrow> parser_inv view p'"
  by (induction rule: scan.induct) (auto intro: consume_parser_inv)

lemma scan_trans: "scan view p q \<Longrightarrow> scan view q r \<Longrightarrow> scan view p r"
  by (rotate_tac, induction rule: scan.induct) (auto intro: scan.intros)

lemma scan_first:
  "\<not> parser_done p \<Longrightarrow> consume p view = Inr (p', Inr (Some nd)) \<Longrightarrow> scan view p' q \<Longrightarrow> scan view p q"
  by (metis scan.scan_refl scan.scan_step scan_trans)

lemma parse_parser_inv:
  assumes "parse A msg p s = Inr (p', s', b, ec)" and "parser_inv msg p" and "length msg < 2 ^ 64"
  shows "parser_inv msg p'"
proof -
  have "parser_inv msg p \<Longrightarrow> parser_inv msg (fst r)" if "parse A msg p s = Inr r" for r
    using that by (induction rule: parse_induct) (auto intro: consume_parser_inv assms(3))
  from this [OF assms(1,2)] show ?thesis by simp
qed

text \<open>
  The contract between the parser and an adapter: in the states described by \<open>I\<close> the adapter
  accepts every node without faulting and stays in such a state.
\<close>

locale adapter_contract =
  fixes A :: "'s adapter" and I :: "'s \<Rightarrow> bool"
  assumes adapter_total: "I s \<Longrightarrow> \<exists>s' e. A s nd = Inr (s', e) \<and> I s'"
begin

lemma adapter_keeps: "I s \<Longrightarrow> A s nd = Inr (s', e) \<Longrightarrow> I s'"
  using adapter_total by (metis Pair_inject sum.inject(2))

lemma parse_keeps: "parse A msg p s = Inr r \<Longrightarrow> I s \<Longrightarrow> I (fst (snd r))"
  by (induction rule: parse_induct) (auto dest: adapter_keeps)

lemma parse_fault_consume:
  assumes "parse A msg p s = Inl f" and "I s"
  shows "\<exists>p'. scan msg p p' \<and> \<not> parser_done p' \<and> consume p' msg = Inl f"
  using assms
proof (induction "parse_measure msg p" arbitrary: p s rule: less_induct)
  case less
  have nd: "\<not> parser_done p" using less.prems(1) by (auto simp: parse.simps [of A msg p s])
  show ?case
  proof (cases "consume p msg")
    case (Inl g)
    with less.prems nd have "g = f" by (simp add: parse.simps [of A msg p s])
    with Inl nd show ?thesis by (auto intro: scan_refl)
  next
    case (Inr x)
    with less.prems nd obtain p1 n where c: "consume p msg = Inr (p1, Inr (Some n))"
      by (auto simp: parse.simps [of A msg p s] split: sum.splits prod.splits option.splits)
    from adapter_total [OF less.prems(2)] obtain s1 e where a: "A s n = Inr (s1, e)" "I s1" by blast
    with less.prems(1) nd c have "parse A msg p1 s1 = Inl f"
      by (auto simp: parse.simps [of A msg p s] split: option.splits)
    from less.hyps [OF consume_progress [OF c] this a(2)] show ?thesis
      using scan_first [OF nd c] by blast
  qed
qed

end

lemma parse_fault_bad_line:
  assumes "adapter_contract A I" and "I s" and "length msg < 2 ^ 64" and "parser_inv msg p"
    and "parse A msg p s = Inl f"
  shows "\<exists>p'. scan msg p p' \<and> bad_line msg p' f"
proof -
  from adapter_contract.parse_fault_consume [OF assms(1,5,2)] obtain p'
    where p': "scan msg p p'" "\<not> parser_done p'" "consume p' msg = Inl f" by blast
  have inv: "parser_inv msg p'" using p'(1) assms(3,4) by (auto intro: scan_parser_inv)
  then have "open_message p'" using p'(2) by (rule inv_not_done_open)
  with inv p' assms(3) consume_fault_iff [of p' msg f] show ?thesis
    by (auto simp: parser_inv_def)
qed

text \<open>
  C14: starting a message, with an adapter that never faults, parsing any buffer either
  terminates normally or has reached one of the header lines of \<open>line_fault\<close>.
\<close>

theorem parse_faults_only_on_bad_line:
  assumes "adapter_contract A I" and "I s" and "length msg < 2 ^ 64"
    and "parse A msg new_parser s = Inl f"
  shows "\<exists>p'. scan msg new_parser p' \<and> bad_line msg p' f"
  using parse_fault_bad_line [OF assms(1-3) parser_inv_new assms(4)] .

lemma bad_header_parse: "parse A (CHR ''$'' # sep) new_parser s = Inl Out_Of_Range"
  by (simp add: parse.simps new_parser_def parser_done_def consume_def view_find_def sep_def view_at_def
      view_substr_def to_type_simps consume_impl_def consume_blob_def bulk_expected_def)

theorem parse_faults_only_on_bad_line_witness:
  "\<exists>p'. scan (CHR ''$'' # sep) new_parser p' \<and> bad_line (CHR ''$'' # sep) p' Out_Of_Range"
proof -
  have "adapter_contract (\<lambda>s nd. Inr (s, None)) (\<lambda>_ :: unit. True)" by unfold_locales simp
  from parse_faults_only_on_bad_line [OF this _ _ bad_header_parse] show ?thesis by (simp add: sep_def)
qed

end
