(* ===== verification/Parser_Incremental.thy ===== *)
theory Parser_Incremental
  imports Parser_Safety
begin

text \<open>
  The parser is restartable: how the bytes of a message are split over socket reads does not
  matter.  The one exception is a bulk length of at least \<open>2^64 - 2\<close>, for which the sum
  \<open>bulk_length_ + 2\<close> of the source wraps around; \<open>lengths_fit\<close> says that no run of digits in
  the buffer reads as such a number.
\<close>

section \<open>Definitions\<close>

definition lengths_fit :: "string \<Rightarrow> bool" where
  "lengths_fit view \<longleftrightarrow>
     list_all (\<lambda>i. case from_chars (drop i view) of None \<Rightarrow> True | Some n \<Rightarrow> n < npos - 1)
       [0..<length view]"

definition bulk_fits :: "parser \<Rightarrow> bool" where
  "bulk_fits p \<longleftrightarrow> (bulk_expected p \<longrightarrow> p_bulk_length p < npos - 1)"

section \<open>More data does not change what was read\<close>

lemma line_content_append: "pos \<le> length v \<Longrightarrow> line_content (v @ w) c pos = line_content v c pos"
  by (cases "c + 1 \<le> length v") (simp_all add: line_content_def)

lemma takeWhile_take:
  "k < length xs \<Longrightarrow> \<not> pr (xs ! k) \<Longrightarrow> takeWhile pr (take k xs) = takeWhile pr xs"
  by (induction xs arbitrary: k) (auto simp: take_Cons' nth_Cons')

lemma from_chars_line:
  assumes "view_find view sep c = Some pos" and "c < pos"
  shows "from_chars (line_content view c pos) = from_chars (drop (c + 1) view)"
proof -
  from view_find_bound [OF assms(1)] have b: "pos + 2 \<le> length view" by simp
  have "take 2 (drop pos view) = sep" using view_find_match [OF assms(1)] by simp
  with b have "view ! pos = CHR 0x0D"
    by (cases "drop pos view") (auto simp: sep_def simp flip: hd_drop_conv_nth)
  with assms b have "\<not> is_digit (drop (c + 1) view ! (pos - c - 1))" by (simp add: is_digit_def)
  then have "takeWhile is_digit (take (pos - c - 1) (drop (c + 1) view)) = takeWhile is_digit (drop (c + 1) view)"
    using assms b by (intro takeWhile_take) simp_all
  then show ?thesis by (simp add: from_chars_def line_content_def)
qed

lemma consume_impl_bulk_length:
  "consume_impl p t elem = Inr (p', Inr r) \<Longrightarrow> bulk_expected p' \<Longrightarrow> from_chars elem = Some (p_bulk_length p')"
  by (cases t)
    (auto simp: consume_impl_def consume_groups bulk_expected_def to_int_def andThen_Inr_iff
      dest!: commit_elem_frame split: if_splits list.splits option.splits)

lemma consume_bulk_append:
  assumes "length (v @ w) < 2 ^ 64" and "p_bulk_length p < npos - 1"
    and "consume_bulk p v = Inr (p', Inr (Some nd))"
  shows "consume_bulk p (v @ w) = Inr (p', Inr (Some nd))"
proof -
  let ?c = "p_consumed p" and ?bl = "p_bulk_length p"
  have c: "?c \<le> length v" and ge: "?bl + 2 \<le> of_nat (length v) - of_nat ?c"
    using assms(3)
    by (auto simp: consume_bulk_def view_substr_def andThen_Inr_iff Let_def not_less split: if_splits)
  then have le: "unat (?bl + 2) \<le> length v - ?c" by (intro unat_le_of_nat_diff)
  have "?bl + 2 \<le> of_nat (length (v @ w)) - of_nat ?c"
    using c le assms(1) unat_of_nat_diff [of ?c "length (v @ w)"] by (simp add: word_le_nat_alt)
  moreover have "view_substr (v @ w) ?c ?bl = view_substr v ?c ?bl"
    using c le unat_add_2 [OF assms(2)] by (simp add: view_substr_def)
  ultimately show ?thesis
    using assms(3) ge unfolding consume_bulk_def Let_def by (simp add: not_less [symmetric])
qed

lemma consume_bulk_need: "consume_bulk p v = Inr (p', Inr None) \<Longrightarrow> p' = p"
  by (auto simp: consume_bulk_def Let_def andThen_Inr_iff split: if_splits)

lemma consume_bulk_no_error: "consume_bulk p v \<noteq> Inr (p', Inl ec)"
  by (auto simp: consume_bulk_def Let_def andThen_Inr_iff split: if_splits)

lemma consume_line_append:
  assumes "p_bulk p = invalid_t" and "view_find v sep (p_consumed p) = Some pos"
    and "length (v @ w) < 2 ^ 64"
  shows "consume p (v @ w) =
    andThen (consume_impl p (to_type (v ! p_consumed p)) (line_content v (p_consumed p) pos))
      (after_header (v @ w) pos)"
proof -
  from view_find_bound [OF assms(2)] have b: "p_consumed p < length v" "pos \<le> length v" by simp_all
  show ?thesis
    using consume_line [OF assms(1) view_find_append [OF assms(2)] assms(3)] b
    by (simp add: nth_append line_content_append)
qed

lemma consume_error_append:
  assumes "consume p v = Inr (p', Inl ec)" and "length (v @ w) < 2 ^ 64"
  shows "consume p (v @ w) = Inr (p', Inl ec)"
proof (cases "p_bulk p = invalid_t")
  case False
  with assms consume_bulk_no_error show ?thesis by (auto simp: consume_def)
next
  case True
  with assms(1) obtain pos where pos: "view_find v sep (p_consumed p) = Some pos"
    by (auto simp: consume_def split: option.splits)
  have lv: "length v < 2 ^ 64" using assms(2) by simp
  from assms(1) consume_line [OF True pos lv] obtain p1 res
    where ci: "consume_impl p (to_type (v ! p_consumed p)) (line_content v (p_consumed p) pos) = Inr (p1, res)"
      and ah: "after_header v pos (p1, res) = Inr (p', Inl ec)"
    by (auto simp: andThen_Inr_iff)
  show ?thesis
  proof (cases res)
    case (Inl e)
    with ci ah consume_line_append [OF True pos assms(2)] show ?thesis by simp
  next
    case (Inr ret)
    with ah consume_bulk_no_error show ?thesis by (auto split: if_splits)
  qed
qed

lemma consume_need_append:
  assumes "consume p v = Inr (p', Inr None)" and "length (v @ w) < 2 ^ 64"
  shows "consume p (v @ w) = consume p' (v @ w)"
proof (cases "p_bulk p = invalid_t")
  case False
  with assms show ?thesis by (auto simp: consume_def dest!: consume_bulk_need)
next
  case True
  show ?thesis
  proof (cases "view_find v sep (p_consumed p)")
    case None
    with True assms show ?thesis by (simp add: consume_def)
  next
    case (Some pos)
    have lv: "length v < 2 ^ 64" using assms(2) by simp
    from assms(1) consume_line [OF True Some lv] obtain p1 res
      where ci: "consume_impl p (to_type (v ! p_consumed p)) (line_content v (p_consumed p) pos) = Inr (p1, res)"
        and ah: "after_header v pos (p1, res) = Inr (p', Inr None)"
      by (auto simp: andThen_Inr_iff)
    then obtain ret where res: "res = Inr ret" and be: "bulk_expected p1"
      and cb: "consume_bulk (p1\<lparr>p_consumed := pos + 2\<rparr>) v = Inr (p', Inr None)"
      by (cases res) (auto split: if_splits)
    from cb have p': "p' = p1\<lparr>p_consumed := pos + 2\<rparr>" by (rule consume_bulk_need)
    with be have "consume p' (v @ w) = consume_bulk p' (v @ w)"
      by (simp add: consume_def bulk_expected_def)
    with ci res be p' consume_line_append [OF True Some assms(2)] show ?thesis by simp
  qed
qed

lemma lengths_fitD:
  "lengths_fit view \<Longrightarrow> i < length view \<Longrightarrow> from_chars (drop i view) = Some n \<Longrightarrow> n < npos - 1"
  by (auto simp: lengths_fit_def list_all_iff split: option.splits)

lemma line_bulk_fits:
  assumes "lengths_fit v" and "view_find v sep (p_consumed p) = Some pos"
    and "consume_impl p (to_type (v ! p_consumed p)) (line_content v (p_consumed p) pos) = Inr (p1, Inr ret)"
    and "bulk_expected p1"
  shows "p_bulk_length p1 < npos - 1"
proof -
  have "to_type (v ! p_consumed p) \<noteq> invalid_t"
    using assms(3) by (auto simp: consume_impl_def split: if_splits)
  then have "p_consumed p < pos"
    using assms(2) empty_line_type view_find_bound [OF assms(2)] by (cases "p_consumed p = pos") auto
  with consume_impl_bulk_length [OF assms(3,4)] from_chars_line [OF assms(2)]
  have "from_chars (drop (p_consumed p + 1) v) = Some (p_bulk_length p1)" by simp
  with assms(1) view_find_bound [OF assms(2)] \<open>p_consumed p < pos\<close> show ?thesis
    by (intro lengths_fitD [of v "p_consumed p + 1"]) simp_all
qed

lemma consume_node_append:
  assumes "consume p v = Inr (p', Inr (Some nd))" and "length (v @ w) < 2 ^ 64"
    and "lengths_fit v" and "bulk_fits p"
  shows "consume p (v @ w) = Inr (p', Inr (Some nd))"
proof (cases "p_bulk p = invalid_t")
  case False
  with assms show ?thesis
    by (simp add: consume_def bulk_fits_def bulk_expected_def consume_bulk_append)
next
  case True
  with assms(1) obtain pos where pos: "view_find v sep (p_consumed p) = Some pos"
    by (auto simp: consume_def split: option.splits)
  have lv: "length v < 2 ^ 64" using assms(2) by simp
  let ?ci = "consume_impl p (to_type (v ! p_consumed p)) (line_content v (p_consumed p) pos)"
  from assms(1) consume_line [OF True pos lv] obtain p1 res where ci': "?ci = Inr (p1, res)"
    and ah': "after_header v pos (p1, res) = Inr (p', Inr (Some nd))"
    by (auto simp: andThen_Inr_iff)
  then obtain ret where ci: "?ci = Inr (p1, Inr ret)"
    and ah: "after_header v pos (p1, Inr ret) = Inr (p', Inr (Some nd))"
    by (cases res) auto
  have "after_header (v @ w) pos (p1, Inr ret) = Inr (p', Inr (Some nd))"
  proof (cases "bulk_expected p1")
    case False
    with ah show ?thesis by simp
  next
    case be: True
    then have "p_bulk_length p1 < npos - 1"
      using line_bulk_fits [OF assms(3) pos ci] by simp
    then have "consume_bulk (p1\<lparr>p_consumed := pos + 2\<rparr>) (v @ w) = Inr (p', Inr (Some nd))"
      using ah be assms(2) by (intro consume_bulk_append) simp_all
    with be show ?thesis by simp
  qed
  with ci consume_line_append [OF True pos assms(2)] show ?thesis by simp
qed

lemma consume_node_not_bulk:
  assumes "consume p v = Inr (p', Inr (Some nd))"
  shows "bulk_fits p'"
proof (cases "p_bulk p = invalid_t")
  case False
  with assms show ?thesis
    by (auto simp: consume_def bulk_fits_def bulk_expected_def dest!: consume_bulk_progress)
next
  case True
  with assms obtain pos p1 res where "after_header v pos (p1, res) = Inr (p', Inr (Some nd))"
    by (auto simp: consume_def andThen_Inr_iff split: option.splits)
  then show ?thesis
    by (cases res)
      (auto simp: bulk_fits_def bulk_expected_def dest!: consume_bulk_progress split: if_splits)
qed

lemma consume_need_not_done:
  assumes "consume p v = Inr (p', Inr None)" and "\<not> parser_done p"
  shows "\<not> parser_done p'"
proof (cases "p_bulk p = invalid_t")
  case False
  with assms show ?thesis by (auto simp: consume_def dest!: consume_bulk_need)
next
  case True
  show ?thesis
  proof (cases "view_find v sep (p_consumed p)")
    case None
    with True assms show ?thesis by (simp add: consume_def)
  next
    case (Some pos)
    with True assms obtain p1 res where "after_header v pos (p1, res) = Inr (p', Inr None)"
      by (auto simp: consume_def andThen_Inr_iff)
    then show ?thesis
      by (cases res)
        (auto simp: parser_done_def bulk_expected_def dest!: consume_bulk_need split: if_splits)
  qed
qed

section \<open>Chunked input\<close>

text \<open>
  If parsing a part \<open>v\<close> of the buffer asks for more data, resuming on the extended buffer gives
  what parsing the extended buffer from the start gives; if it returns, more data does not change
  what it returned.
\<close>

lemma parse_append:
  assumes "parse A v p s = Inr (p', s', b, e)" and "length (v @ w) < 2 ^ 64"
    and "lengths_fit v" and "bulk_fits p"
  shows "parse A (v @ w) p s = (if b then Inr (p', s', b, e) else parse A (v @ w) p' s')"
proof -
  have "bulk_fits p \<Longrightarrow>
    (case r of (p', s', b, e) \<Rightarrow>
       parse A (v @ w) p s = (if b then Inr (p', s', b, e) else parse A (v @ w) p' s'))"
    if "parse A v p s = Inr r" for r
    using that
  proof (induction rule: parse_induct)
    case (Done p s)
    then show ?case by (simp add: parse_done)
  next
    case (Error p s p' ec)
    then show ?case using assms(2) by (simp add: parse_error consume_error_append)
  next
    case (Need p s p')
    then have "\<not> parser_done p'" "consume p (v @ w) = consume p' (v @ w)"
      using assms(2) by (auto intro: consume_need_append dest: consume_need_not_done)
    with Need show ?case by (simp add: parse.simps [of A "v @ w"])
  next
    case (Stop p s p' nd s' ec)
    then show ?case using assms(2,3) by (simp add: parse_stop consume_node_append)
  next
    case (Step p s p' nd s' r)
    then have "parse A (v @ w) p s = parse A (v @ w) p' s'"
      using assms(2,3) by (intro parse_step) (simp_all add: consume_node_append)
    with Step show ?case by (auto dest: consume_node_not_bulk)
  qed
  from this [OF assms(1)] assms(4) show ?thesis by simp
qed

lemma consume_need_fits:
  assumes "consume p v = Inr (p', Inr None)" and "lengths_fit v" and "bulk_fits p" and "length v < 2 ^ 64"
  shows "bulk_fits p'"
proof (cases "p_bulk p = invalid_t")
  case False
  with assms show ?thesis by (auto simp: consume_def dest!: consume_bulk_need)
next
  case True
  show ?thesis
  proof (cases "view_find v sep (p_consumed p)")
    case None
    with True assms show ?thesis by (simp add: consume_def)
  next
    case (Some pos)
    from assms(1) consume_line [OF True Some assms(4)] obtain p1 res
      where ci: "consume_impl p (to_type (v ! p_consumed p)) (line_content v (p_consumed p) pos) = Inr (p1, res)"
        and ah: "after_header v pos (p1, res) = Inr (p', Inr None)"
      by (auto simp: andThen_Inr_iff)
    with assms(2) Some show ?thesis
      by (cases res)
        (auto simp: bulk_fits_def bulk_expected_def dest!: consume_bulk_need
          dest: line_bulk_fits split: if_splits)
  qed
qed

lemma parse_need_fits:
  assumes "parse A v p s = Inr r" and "bulk_fits p" and "lengths_fit v" and "length v < 2 ^ 64"
  shows "fst (snd (snd r)) \<or> bulk_fits (fst r)"
  using assms(1,2)
  by (induction rule: parse_induct)
    (auto intro: consume_need_fits [OF _ assms(3) _ assms(4)] dest: consume_node_not_bulk)

text \<open>The parse loop of a reader that appends one chunk whenever the parser asks for more.\<close>

fun parse_chunks ::
  "'s adapter \<Rightarrow> string \<Rightarrow> parser \<Rightarrow> 's \<Rightarrow> string list \<Rightarrow> fault + parser \<times> 's \<times> bool \<times> error_code option"
where
  "parse_chunks A v p s [] = parse A v p s"
| "parse_chunks A v p s (c # cs) =
     andThen (parse A v p s) (\<lambda>(p', s', b, e).
       if b then Inr (p', s', b, e) else parse_chunks A (v @ c) p' s' cs)"

text \<open>
  C7: the result of parsing does not depend on how the input arrives.  If the chunks are appended
  to the buffer one by one, whenever the parser asks for more data, it delivers the same nodes
  and returns the same result as if the whole input had been in the buffer from the start.
\<close>

theorem parse_incremental:
  assumes "parse_chunks A v p s cs = Inr r" and "length (v @ concat cs) < 2 ^ 64" and "bulk_fits p"
    and "\<forall>k \<le> length cs. lengths_fit (v @ concat (take k cs))"
  shows "parse A (v @ concat cs) p s = Inr r"
  using assms
proof (induction cs arbitrary: v p s)
  case (Cons c cs)
  obtain p' s' b e where one: "parse A v p s = Inr (p', s', b, e)"
    using Cons.prems(1) by (auto simp: andThen_Inr_iff)
  have v: "lengths_fit v" "length v < 2 ^ 64" using Cons.prems(2) Cons.prems(4) [rule_format, of 0] by simp_all
  have app: "parse A (v @ c @ concat cs) p s =
      (if b then Inr (p', s', b, e) else parse A (v @ c @ concat cs) p' s')"
    using Cons.prems(2) by (intro parse_append [OF one _ v(1) Cons.prems(3)]) simp
  show ?case
  proof (cases b)
    case True
    with app one Cons.prems(1) show ?thesis by simp
  next
    case False
    have "bulk_fits p'" using parse_need_fits [OF one Cons.prems(3) v] False by simp
    moreover have "lengths_fit ((v @ c) @ concat (take k cs))" if "k \<le> length cs" for k
      using that Cons.prems(4) [rule_format, of "Suc k"] by simp
    ultimately have "parse A ((v @ c) @ concat cs) p' s' = Inr r"
      using Cons.prems(1,2) one False by (intro Cons.IH) simp_all
    with app False show ?thesis by simp
  qed
qed simp

theorem parse_incremental_witness:
  "\<exists>p nd. parse (\<lambda>ns nd. Inr (ns @ [nd], None)) (''+P'' @ sep) new_parser [] = Inr (p, [nd], True, None)"
proof -
  let ?A = "\<lambda>ns nd. Inr (ns @ [nd], None)" and ?v = "''+P'' @ sep"
  have "case consume new_parser ?v of Inr (p, Inr (Some nd)) \<Rightarrow> parser_done p | _ \<Rightarrow> False" by code_simp
  then obtain p nd where p: "consume new_parser ?v = Inr (p, Inr (Some nd))" "parser_done p"
    by (cases "consume new_parser ?v") (auto split: sum.splits option.splits)
  have start: "\<not> parser_done new_parser" by (simp add: parser_done_def new_parser_def)
  have whole: "parse ?A ?v new_parser [] = Inr (p, [nd], True, None)"
    using parse_step [OF start p(1), of ?A "[]" "[nd]"] parse_done [OF p(2)] by simp
  have "consume new_parser ''+P'' = Inr (new_parser, Inr None)" by code_simp
  from parse_need [OF start this, of ?A "[]"] whole
  have "parse_chunks ?A ''+P'' new_parser [] [sep] = Inr (p, [nd], True, None)" by simp
  moreover have "lengths_fit (''+P'' @ concat (take k [sep]))" if "k \<le> 1" for k
    using that by (cases k) (simp_all add: lengths_fit_def upt_rec from_chars_def is_digit_def sep_def)
  ultimately show ?thesis
    using parse_incremental [of ?A "''+P''" new_parser "[]" "[sep]"]
    by (simp add: bulk_fits_def bulk_expected_def new_parser_def sep_def)
qed

end
