(* ===== verification/Serialization.thy ===== *)
theory Serialization
  imports Parser_Incremental
begin

text \<open>
  Writing RESP3: \<^verbatim>\<open>include/boost/redis/resp3/serialization.hpp\<close> and
  \<^verbatim>\<open>resp3/impl/serialization.ipp\<close>.  The operations append to a payload.  An argument of a
  command is a string, an integer or a value of a user type; for the latter the function
  \<open>ser\<close> stands for the user's conversion, which by its documentation appends the bulk of a
  string.  \<open>to_code\<close> asserts that the type has a wire code, hence the fault type.
\<close>

section \<open>Definitions\<close>

definition boost_redis_to_bulk :: "string \<Rightarrow> string \<Rightarrow> fault + string" where
  "boost_redis_to_bulk payload data =
     andThen (to_code blob_string_t) (\<lambda>c.
     Inr (payload @ [c] @ to_string_nat (length data) @ sep @ data @ sep))"

definition boost_redis_to_bulk_int :: "string \<Rightarrow> int \<Rightarrow> fault + string" where
  "boost_redis_to_bulk_int payload n = boost_redis_to_bulk payload (to_string_int n)"

definition add_header :: "string \<Rightarrow> resp3_type \<Rightarrow> size_t \<Rightarrow> fault + string" where
  "add_header payload t n =
     andThen (to_code t) (\<lambda>c. Inr (payload @ [c] @ to_string_nat (unat n) @ sep))"

definition add_blob :: "string \<Rightarrow> string \<Rightarrow> string" where
  "add_blob payload blob = payload @ blob @ sep"

definition add_separator :: "string \<Rightarrow> string" where
  "add_separator payload = payload @ sep"

datatype 'u arg = A_str string | A_int int | A_user 'u

fun to_bulk_arg :: "('u \<Rightarrow> string) \<Rightarrow> string \<Rightarrow> 'u arg \<Rightarrow> fault + string" where
  "to_bulk_arg ser payload (A_str s) = boost_redis_to_bulk payload s"
| "to_bulk_arg ser payload (A_int n) = boost_redis_to_bulk_int payload n"
| "to_bulk_arg ser payload (A_user u) = boost_redis_to_bulk payload (ser u)"

text \<open>An element of a range: a single value, a \<open>std::pair\<close> or a \<open>std::tuple\<close>.\<close>

datatype 'u item = I_one "'u arg" | I_pair "'u arg" "'u arg" | I_tuple "'u arg list"

fun add_bulk_tuple :: "('u \<Rightarrow> string) \<Rightarrow> string \<Rightarrow> 'u arg list \<Rightarrow> fault + string" where
  "add_bulk_tuple ser payload [] = Inr payload"
| "add_bulk_tuple ser payload (a # as) =
     andThen (to_bulk_arg ser payload a) (\<lambda>payload'. add_bulk_tuple ser payload' as)"

fun add_bulk :: "('u \<Rightarrow> string) \<Rightarrow> string \<Rightarrow> 'u item \<Rightarrow> fault + string" where
  "add_bulk ser payload (I_one a) = to_bulk_arg ser payload a"
| "add_bulk ser payload (I_pair a b) =
     andThen (to_bulk_arg ser payload a) (\<lambda>payload'. to_bulk_arg ser payload' b)"
| "add_bulk ser payload (I_tuple as) = add_bulk_tuple ser payload as"

fun bulk_counter :: "'u item \<Rightarrow> size_t" where
  "bulk_counter (I_pair a b) = 2"
| "bulk_counter _ = 1"

text \<open>\<open>detail::deserialize\<close>: parse one message that is completely in memory.\<close>

function deserialize_loop ::
  "'s adapter \<Rightarrow> string \<Rightarrow> parser \<Rightarrow> 's \<Rightarrow> fault + 's \<times> error_code option" where
  "deserialize_loop A data p s =
     (if parser_done p then
        (if get_consumed p = length data then Inr (s, None) else Inl Assert_Failed)
      else
        (case consume p data of
           Inl f \<Rightarrow> Inl f
         | Inr (p', Inl ec) \<Rightarrow> Inr (s, Some ec)
         | Inr (p', Inr None) \<Rightarrow> Inl Assert_Failed
         | Inr (p', Inr (Some nd)) \<Rightarrow>
             (case A s nd of
                Inl f \<Rightarrow> Inl f
              | Inr (s', Some ec) \<Rightarrow> Inr (s', Some ec)
              | Inr (s', None) \<Rightarrow> deserialize_loop A data p' s')))"
  by pat_completeness auto
termination
  by (relation "measure (\<lambda>(A, data, p, s). parse_measure data p)") (auto dest: consume_progress)

declare deserialize_loop.simps [simp del]

definition deserialize :: "'s adapter \<Rightarrow> string \<Rightarrow> 's \<Rightarrow> fault + 's \<times> error_code option" where
  "deserialize A data s = deserialize_loop A data new_parser s"

text \<open>The throwing overload: \<open>Inl ec\<close> is the \<open>system_error\<close> it throws.\<close>

definition deserialize_or_throw :: "'s adapter \<Rightarrow> string \<Rightarrow> 's \<Rightarrow> fault + (error_code + 's)" where
  "deserialize_or_throw A data s =
     andThen (deserialize A data s) (\<lambda>(s', ec).
     Inr (case ec of None \<Rightarrow> Inr s' | Some e \<Rightarrow> Inl e))"

section \<open>What the operations append\<close>

definition bulk :: "string \<Rightarrow> string" where
  "bulk data = CHR ''$'' # to_string_nat (length data) @ sep @ data @ sep"

fun arg_text :: "('u \<Rightarrow> string) \<Rightarrow> 'u arg \<Rightarrow> string" where
  "arg_text ser (A_str s) = s"
| "arg_text ser (A_int n) = to_string_int n"
| "arg_text ser (A_user u) = ser u"

fun item_args :: "'u item \<Rightarrow> 'u arg list" where
  "item_args (I_one a) = [a]"
| "item_args (I_pair a b) = [a, b]"
| "item_args (I_tuple as) = as"

lemma boost_redis_to_bulk_eq: "boost_redis_to_bulk payload data = Inr (payload @ bulk data)"
  by (simp add: boost_redis_to_bulk_def bulk_def)

lemma to_bulk_arg_eq: "to_bulk_arg ser payload a = Inr (payload @ bulk (arg_text ser a))"
  by (cases a) (simp_all add: boost_redis_to_bulk_int_def boost_redis_to_bulk_eq)

lemma add_bulk_tuple_eq:
  "add_bulk_tuple ser payload as = Inr (payload @ concat (map (\<lambda>a. bulk (arg_text ser a)) as))"
  by (induction as arbitrary: payload) (simp_all add: to_bulk_arg_eq)

lemma add_bulk_eq:
  "add_bulk ser payload i = Inr (payload @ concat (map (\<lambda>a. bulk (arg_text ser a)) (item_args i)))"
  by (cases i) (simp_all add: to_bulk_arg_eq add_bulk_tuple_eq)

lemma add_header_array: "add_header payload array_t n = Inr (payload @ CHR ''*'' # to_string_nat (unat n) @ sep)"
  by (simp add: add_header_def)

text \<open>
  \<open>deserialize\<close> is the parse loop on a fresh parser, with an assertion instead of the
  request for more data and an assertion that the message fills the buffer exactly.
\<close>

theorem deserialize_parse:
  "deserialize A data s =
     andThen (parse A data new_parser s) (\<lambda>(p, s', b, ec).
       case ec of
         Some e \<Rightarrow> Inr (s', Some e)
       | None \<Rightarrow> if b \<and> get_consumed p = length data then Inr (s', None) else Inl Assert_Failed)"
proof -
  have "deserialize_loop A data p s =
     andThen (parse A data p s) (\<lambda>(p, s', b, ec).
       case ec of
         Some e \<Rightarrow> Inr (s', Some e)
       | None \<Rightarrow> if b \<and> get_consumed p = length data then Inr (s', None) else Inl Assert_Failed)" for p
  proof (induction A data p s rule: deserialize_loop.induct)
    case (1 A data p s)
    then show ?case
      by (subst deserialize_loop.simps, subst parse.simps)
        (auto split: sum.splits prod.splits option.splits)
  qed
  then show ?thesis by (simp add: deserialize_def)
qed

end
