(* ===== verification/Resp3_Message.thy ===== *)
theory Resp3_Message
  imports Serialization
begin

text \<open>
  The specification of the wire format: a RESP3 message as a tree, its encoding, and the nodes
  of the tree in pre-order.  The round-trip theorem says that the parser of the library reads
  the encoding of every well-formed tree as exactly these nodes and consumes exactly the bytes
  of the message.
\<close>

section \<open>Messages\<close>

datatype resp =
    Simple resp3_type string
  | Bulk resp3_type string
  | Aggr resp3_type "resp list"
  | Streamed "string list"

definition wire :: "resp3_type \<Rightarrow> char" where
  "wire t = (case to_code t of Inr c \<Rightarrow> c | Inl _ \<Rightarrow> CHR '' '')"

definition multiplicity :: "resp3_type \<Rightarrow> nat" where
  "multiplicity t = (if t = map_t \<or> t = attribute_t then 2 else 1)"

definition header :: "resp3_type \<Rightarrow> nat \<Rightarrow> string" where
  "header t n = wire t # to_string_nat n @ sep"

definition encode_part :: "string \<Rightarrow> string" where
  "encode_part s = header streamed_string_part_t (length s) @ s @ sep"

fun encode :: "resp \<Rightarrow> string" where
  "encode (Simple t s) = wire t # s @ sep"
| "encode (Bulk t s) = header t (length s) @ s @ sep"
| "encode (Aggr t xs) = header t (length xs div multiplicity t) @ concat (map encode xs)"
| "encode (Streamed ps) =
     wire blob_string_t # CHR ''?'' # sep @ concat (map encode_part ps) @ header streamed_string_part_t 0"

fun nodes :: "nat \<Rightarrow> resp \<Rightarrow> node list" where
  "nodes d (Simple t s) = [mk_node t 1 d s]"
| "nodes d (Bulk t s) = [mk_node t 1 d s]"
| "nodes d (Aggr t xs) =
     mk_node t (of_nat (length xs div multiplicity t)) d [] # concat (map (nodes (Suc d)) xs)"
| "nodes d (Streamed ps) =
     mk_node streamed_string_t 0 (Suc d) []
     # map (mk_node streamed_string_part_t 1 (Suc d)) ps
     @ [mk_node streamed_string_part_t 1 (Suc d) []]"

definition simple_ok :: "resp3_type \<Rightarrow> string \<Rightarrow> bool" where
  "simple_ok t s \<longleftrightarrow>
     find_sub sep s = None
     \<and> (t \<in> {simple_error_t, simple_string_t, null_t}
        \<or> t \<in> {doublean_t, big_number_t, number_t} \<and> s \<noteq> []
        \<or> t = boolean_t \<and> s \<noteq> [] \<and> hd s \<in> {CHR ''f'', CHR ''t''})"

text \<open>Well-formed at nesting depth \<open>d\<close>: the parser accepts five levels of nesting.\<close>

fun wf_resp :: "nat \<Rightarrow> resp \<Rightarrow> bool" where
  "wf_resp d (Simple t s) \<longleftrightarrow> simple_ok t s"
| "wf_resp d (Bulk t s) \<longleftrightarrow> t \<in> {blob_error_t, verbatim_string_t, blob_string_t}"
| "wf_resp d (Aggr t xs) \<longleftrightarrow>
     is_aggregate t \<and> multiplicity t dvd length xs \<and> (xs \<noteq> [] \<longrightarrow> d < max_embedded_depth)
     \<and> list_all (wf_resp (Suc d)) xs"
| "wf_resp d (Streamed ps) \<longleftrightarrow> d < max_embedded_depth \<and> list_all (\<lambda>s. s \<noteq> []) ps"

inductive emits :: "string \<Rightarrow> parser \<Rightarrow> node list \<Rightarrow> parser \<Rightarrow> bool" for view where
  emits_nil: "emits view p [] p"
| emits_cons: "\<not> parser_done p \<Longrightarrow> consume p view = Inr (p', Inr (Some nd)) \<Longrightarrow>
    emits view p' ns p'' \<Longrightarrow> emits view p (nd # ns) p''"

inductive_simps emits_simps: "emits view p [] p'" "emits view p (nd # ns) p'"

section \<open>Reading one line\<close>

lemma length_header: "length (header t n) = length (to_string_nat n) + 3"
  by (simp add: header_def sep_def)

lemma emits_append: "emits view p ns q \<Longrightarrow> emits view q ms r \<Longrightarrow> emits view p (ns @ ms) r"
  by (induction rule: emits.induct) (auto intro: emits.intros)

lemma emits_one: "\<not> parser_done p \<Longrightarrow> consume p view = Inr (p', Inr (Some nd)) \<Longrightarrow> emits view p [nd] p'"
  by (auto intro: emits.intros)

lemma find_sub_no_cr: "CHR 0x0D \<notin> set s \<Longrightarrow> find_sub sep s = None"
  by (induction s) (auto simp: sep_def)

lemma find_sub_sep: "find_sub sep s = None \<Longrightarrow> find_sub sep (s @ sep @ r) = Some (length s)"
proof (induction s)
  case Nil
  then show ?case by (simp add: sep_def)
next
  case (Cons c cs)
  then have "find_sub sep cs = None" and ne: "take 2 (c # cs) \<noteq> sep"
    by (auto simp: sep_def split: if_splits)
  then have IH: "find_sub sep (cs @ sep @ r) = Some (length cs)" by (simp add: Cons.IH)
  have "take 2 (c # cs @ sep @ r) \<noteq> sep"
    using ne by (cases cs) (auto simp: sep_def)
  with IH show ?case by (simp add: sep_def)
qed

lemma to_string_nat_no_cr: "find_sub sep (to_string_nat n) = None"
  using to_string_nat_digits [of n]
  by (intro find_sub_no_cr) (auto simp: list_all_iff is_digit_def)

lemma wire_not_cr: "wire t \<noteq> CHR 0x0D"
  by (cases t) (simp_all add: wire_def)

lemma view_find_line:
  assumes "drop c view = wire t # s @ sep @ r" and "find_sub sep s = None"
  shows "view_find view sep c = Some (c + 1 + length s)"
proof -
  have "find_sub sep (wire t # s @ sep @ r) = Some (Suc (length s))"
    using find_sub_sep [OF assms(2), of r] wire_not_cr [of t] by (simp add: sep_def)
  moreover have "c \<le> length view"
    using assms(1) by (metis drop_all list.distinct(1) nat_le_linear)
  ultimately show ?thesis using assms(1) by (simp add: view_find_def)
qed

lemma line_parts:
  assumes "drop c view = wire t # s @ sep @ r"
  shows "view ! c = wire t" and "line_content view c (c + 1 + length s) = s"
    and "drop (c + 1 + length s + 2) view = r" and "c + length s + 3 + length r = length view"
proof -
  have c: "c < length view" using assms by (metis drop_eq_Nil2 linorder_not_less list.distinct(1))
  show "view ! c = wire t" using assms c by (simp flip: hd_drop_conv_nth)
  have d1: "drop (c + 1) view = s @ sep @ r" using assms by (metis add.commute drop_drop drop0 drop_Suc_Cons plus_1_eq_Suc)
  then show "line_content view c (c + 1 + length s) = s" by (simp add: line_content_def)
  have "drop (c + 1 + length s + 2) view = drop (length s + 2) (drop (c + 1) view)"
    by (simp add: ac_simps)
  also have "\<dots> = r" unfolding d1 by (simp add: sep_def)
  finally show "drop (c + 1 + length s + 2) view = r" .
  show "c + length s + 3 + length r = length view"
    using arg_cong [OF assms, of length] c by simp
qed

lemma consume_wire_line:
  assumes "p_bulk p = invalid_t" and "length view < 2 ^ 64"
    and "drop (p_consumed p) view = wire t # s @ sep @ r" and "find_sub sep s = None"
    and "t \<noteq> streamed_string_t" and "t \<noteq> invalid_t"
  shows "consume p view =
    andThen (consume_impl p t s) (after_header view (p_consumed p + 1 + length s))"
proof -
  have "to_type (wire t) = t"
    using assms(5,6) by (cases t) (simp_all add: wire_def)
  then show ?thesis
    using consume_line [OF assms(1) view_find_line [OF assms(3,4)] assms(2)] line_parts [OF assms(3)]
    by simp
qed


section \<open>Reading one element\<close>

definition ready :: "string \<Rightarrow> parser \<Rightarrow> string \<Rightarrow> bool" where
  "ready view p txt \<longleftrightarrow>
     open_message p \<and> p_bulk p = invalid_t \<and> \<not> parser_done p \<and> length view < 2 ^ 64
     \<and> (\<exists>r. drop (p_consumed p) view = txt @ r)"

definition reads :: "string \<Rightarrow> parser \<Rightarrow> node list \<Rightarrow> size_t list option \<Rightarrow> nat \<Rightarrow> bool" where
  "reads view p ns st n \<longleftrightarrow>
     (\<exists>p'. emits view p ns p' \<and> wf_parser p' \<and> st = Some (stack p') \<and> p_bulk p' = invalid_t
       \<and> p_consumed p' = p_consumed p + n)"

lemma reads_line:
  assumes "ready view p (wire t # s @ sep @ r)" and "find_sub sep s = None"
    and "t \<noteq> streamed_string_t" and "t \<noteq> invalid_t"
    and "consume_impl p t s = Inr (p1, Inr nd)" and "p_bulk p1 = invalid_t" and "wf_parser p1"
  shows "reads view p [nd] (Some (stack p1)) (length s + 3)"
proof -
  from assms(1) obtain r' where r: "drop (p_consumed p) view = wire t # s @ sep @ r @ r'"
    by (auto simp: ready_def)
  let ?p = "p1\<lparr>p_consumed := p_consumed p + 1 + length s + 2\<rparr>"
  have "consume p view = Inr (?p, Inr (Some nd))"
    using consume_wire_line [OF _ _ r assms(2-4)] assms by (simp add: ready_def bulk_expected_def)
  then have "emits view p [nd] ?p" using assms(1) by (auto simp: ready_def intro: emits_one)
  with assms show ?thesis by (auto simp: reads_def intro!: exI [of _ ?p])
qed

lemma commit_leaf_reads:
  assumes "ready view p (wire t # s @ sep @ r)" and "find_sub sep s = None"
    and "t \<noteq> streamed_string_t" and "t \<noteq> invalid_t" and "consume_impl p t s = commit_leaf p t s"
  shows "reads view p [mk_node t 1 (p_depth p) s] (stack_commit (stack p)) (length s + 3)"
proof -
  have op: "open_message p" "p_bulk p = invalid_t" using assms(1) by (simp_all add: ready_def)
  from commit_elem_open [OF op(1)] obtain p1 where p1: "commit_elem p = Inr p1" "wf_parser p1"
    "stack_commit (stack p) = Some (stack p1)" by blast
  have "reads view p [mk_node t 1 (p_depth p) s] (Some (stack p1)) (length s + 3)"
    using assms p1 op commit_elem_frame [OF p1(1)]
    by (intro reads_line [OF assms(1-4)]) (simp_all add: commit_leaf_def)
  with p1 show ?thesis by simp
qed

lemma simple_reads:
  assumes "ready view p (encode (Simple t s))" and "simple_ok t s"
  shows "reads view p (nodes (p_depth p) (Simple t s)) (stack_commit (stack p)) (length (encode (Simple t s)))"
proof -
  have "consume_impl p t s = commit_leaf p t s" and "t \<noteq> streamed_string_t" "t \<noteq> invalid_t"
    using assms
    by (auto simp: simple_ok_def ready_def consume_impl_def bulk_expected_def consume_numeric_def
        consume_boolean_def split: list.splits)
  moreover have "ready view p (wire t # s @ sep @ [])" using assms(1) by simp
  moreover have "find_sub sep s = None" using assms(2) by (simp add: simple_ok_def)
  ultimately have "reads view p [mk_node t 1 (p_depth p) s] (stack_commit (stack p)) (length s + 3)"
    by (intro commit_leaf_reads)
  then show ?thesis by (simp add: eval_nat_numeral)
qed

lemma from_chars_length: "n < 2 ^ 64 \<Longrightarrow> from_chars (to_string_nat n) = Some (of_nat n)"
  using from_chars_to_string_nat [of n "[]"] by simp

text \<open>The bulk that a header line has announced.\<close>

lemma consume_bulk_exact:
  assumes "drop (p_consumed p) view = s @ sep @ r" and "length view < 2 ^ 64"
    and "p_bulk_length p = of_nat (length s)" and "open_message p"
  shows "\<exists>p'. consume_bulk p view = Inr (p', Inr (Some (mk_node (p_bulk p) 1 (p_depth p) s)))
    \<and> wf_parser p' \<and> stack_commit (stack p) = Some (stack p') \<and> p_bulk p' = invalid_t
    \<and> p_consumed p' = p_consumed p + length s + 2"
proof -
  let ?c = "p_consumed p"
  have c: "?c \<le> length view" using assms(1) by (cases "?c \<le> length view") (auto simp: sep_def)
  have len: "?c + length s + 2 + length r = length view"
    using arg_cong [OF assms(1), of length] c by simp
  then have ls: "unat (of_nat (length s) :: size_t) = length s" "length s < 2 ^ 64 - 2"
    using assms(2) by (auto intro: unat_of_nat_size_t)
  have span: "unat (of_nat (length s) + 2 :: size_t) = length s + 2"
    using ls by (intro trans [OF unat_add_2]) (simp_all add: word_less_nat_alt)
  have "of_nat (length s) + 2 \<le> (of_nat (length view) - of_nat ?c :: size_t)"
    unfolding word_le_nat_alt span using len assms(2) by (subst unat_of_nat_diff) simp_all
  then have fits: "\<not> of_nat (length view) - of_nat ?c < p_bulk_length p + 2"
    by (simp add: not_less assms(3))
  have sub: "view_substr view ?c (p_bulk_length p) = Inr s"
    using len assms(1,3) ls by (simp add: view_substr_def)
  have "open_message (p\<lparr>p_bulk := invalid_t\<rparr>)" using assms(4) by (simp add: open_message_def)
  from commit_elem_open [OF this] obtain p' where p': "commit_elem (p\<lparr>p_bulk := invalid_t\<rparr>) = Inr p'"
    "wf_parser p'" "stack_commit (stack p) = Some (stack p')" by auto
  with fits sub span commit_elem_frame [OF p'(1)] show ?thesis
    by (simp add: consume_bulk_def Let_def assms(3))
qed

text \<open>A header line that announces a bulk, and the bulk.\<close>

lemma bulk_reads:
  assumes rdy: "ready view p (header t (length s) @ s @ sep)"
    and "t \<noteq> streamed_string_t" and "t \<noteq> invalid_t"
    and impl: "consume_impl p t (to_string_nat (length s)) =
      Inr (p\<lparr>p_bulk_length := of_nat (length s), p_bulk := t\<rparr>, Inr nd)"
  shows "reads view p [mk_node t 1 (p_depth p) s] (stack_commit (stack p))
    (length (header t (length s) @ s @ sep))"
proof -
  let ?ds = "to_string_nat (length s)"
  let ?pos = "p_consumed p + 1 + length ?ds"
  let ?p2 = "p\<lparr>p_bulk_length := of_nat (length s), p_bulk := t, p_consumed := ?pos + 2\<rparr>"
  from rdy obtain r where r: "drop (p_consumed p) view = wire t # ?ds @ sep @ s @ sep @ r"
    and op: "open_message p" "p_bulk p = invalid_t" "\<not> parser_done p" and lv: "length view < 2 ^ 64"
    by (auto simp: ready_def header_def)
  have "drop (p_consumed ?p2) view = s @ sep @ r" and "open_message ?p2"
    using line_parts(3) [OF r] op by (simp_all add: open_message_def)
  from consume_bulk_exact [OF this(1) lv _ this(2)] obtain p3
    where p3: "consume_bulk ?p2 view = Inr (p3, Inr (Some (mk_node t 1 (p_depth p) s)))"
      "wf_parser p3" "stack_commit (stack p) = Some (stack p3)" "p_bulk p3 = invalid_t"
      "p_consumed p3 = ?pos + 2 + length s + 2" by auto
  have "consume p view = consume_bulk ?p2 view"
    using consume_wire_line [OF op(2) lv r to_string_nat_no_cr assms(2,3)] impl assms(3)
    by (simp add: bulk_expected_def)
  with p3 op(3) have "emits view p [mk_node t 1 (p_depth p) s] p3" by (auto intro: emits_one)
  with p3 show ?thesis by (auto simp: reads_def header_def)
qed

lemma ready_length: "ready view p txt \<Longrightarrow> length txt \<le> length view \<and> length txt < 2 ^ 64"
  by (auto simp: ready_def dest!: arg_cong [where f = length])

lemma blob_reads:
  assumes "ready view p (encode (Bulk t s))" and "t \<in> {blob_error_t, verbatim_string_t, blob_string_t}"
  shows "reads view p (nodes (p_depth p) (Bulk t s)) (stack_commit (stack p)) (length (encode (Bulk t s)))"
proof -
  let ?ds = "to_string_nat (length s)"
  have n: "length s < 2 ^ 64" using ready_length [OF assms(1)] by simp
  have "?ds \<noteq> []" "is_digit (hd ?ds)"
    using to_string_nat_digits [of "length s"] by (auto simp: list_all_iff)
  then have at: "view_at ?ds 0 = Inr (hd ?ds)" "hd ?ds \<noteq> CHR ''?''"
    by (auto simp: view_at_def hd_conv_nth is_digit_def)
  have "consume_impl p t ?ds =
      Inr (p\<lparr>p_bulk_length := of_nat (length s), p_bulk := t\<rparr>, Inr empty_node)"
    using assms at from_chars_length [OF n]
    by (auto simp: consume_impl_def ready_def bulk_expected_def consume_blob_def to_int_def)
  from bulk_reads [OF _ _ _ this] assms show ?thesis by auto
qed

lemma part_reads:
  assumes "ready view p (encode_part s)" and "s \<noteq> []"
  shows "reads view p [mk_node streamed_string_part_t 1 (p_depth p) s] (stack_commit (stack p))
    (length (encode_part s))"
proof -
  have n: "length s < 2 ^ 64" using ready_length [OF assms(1)] by (simp add: encode_part_def)
  then have "(of_nat (length s) :: size_t) \<noteq> 0"
    using assms(2) of_nat_size_t_eq_iff [of "length s" 0] by simp
  then have "consume_impl p streamed_string_part_t (to_string_nat (length s)) =
      Inr (p\<lparr>p_bulk_length := of_nat (length s), p_bulk := streamed_string_part_t\<rparr>, Inr empty_node)"
    using assms from_chars_length [OF n]
    by (simp add: consume_impl_def ready_def bulk_expected_def consume_part_def to_int_def)
  with assms show ?thesis unfolding encode_part_def by (intro bulk_reads) simp_all
qed

section \<open>Sequences of elements\<close>

lemma reads_append:
  assumes "emits view p ns q" and "p_consumed q = p_consumed p + m" and "reads view q ms st n"
  shows "reads view p (ns @ ms) st (m + n)"
  using assms by (auto simp: reads_def intro: emits_append)

text \<open>The parser after an element that leaves its aggregate open.\<close>

lemma reads_next:
  assumes "reads view p ns (Some (n # st)) k" and "st \<noteq> []" and "last st = 2"
    and "length view < 2 ^ 64" and "\<exists>r. drop (p_consumed p + k) view = txt @ r"
  shows "\<exists>q. emits view p ns q \<and> p_consumed q = p_consumed p + k \<and> stack q = n # st
    \<and> ready view q txt \<and> p_depth q = length st"
proof -
  from assms(1) obtain q where q: "emits view p ns q" "wf_parser q" "stack q = n # st"
    "p_bulk q = invalid_t" "p_consumed q = p_consumed p + k" by (auto simp: reads_def)
  have d: "p_depth q = length st" using length_stack [OF q(2)] q(3) by simp
  then have "\<not> parser_done q" using assms(2) by (simp add: parser_done_def)
  with q assms have "ready view q txt" by (auto simp: ready_def open_message_def)
  with q d show ?thesis by blast
qed

lemma stack_commit_open:
  "n - 1 \<noteq> 0 \<Longrightarrow> st \<noteq> [] \<Longrightarrow> stack_commit (n # st) = Some ((n - 1) # st)"
  by (cases st) (simp_all add: stack_commit_def)

lemma stack_commit_last: "st \<noteq> [] \<Longrightarrow> stack_commit (1 # st) = stack_commit st"
  by (cases st) (simp_all add: stack_commit_def)


lemma ready_prefix: "ready view p (a @ b) \<Longrightarrow> ready view p a"
  by (auto simp: ready_def)

lemma ready_rest:
  "ready view p (a @ b) \<Longrightarrow> \<exists>r. drop (p_consumed p + length a) view = b @ r"
  by (auto simp: ready_def) (metis add.commute append.assoc append_eq_conv_conj drop_drop)

lemma ready_stack: "ready view p txt \<Longrightarrow> wf_parser p \<and> last (stack p) = 2 \<and> length view < 2 ^ 64"
  by (simp add: ready_def open_message_def)

lemma encode_nonempty: "encode x \<noteq> []"
  by (cases x) (simp_all add: header_def)

lemma length_concat_encode: "length xs \<le> length (concat (map encode xs))"
  by (induction xs) (simp_all add: Suc_le_eq add_strict_increasing encode_nonempty)

lemma elements_read:
  assumes "\<And>x p. x \<in> set xs \<Longrightarrow> wf_resp (Suc d) x \<Longrightarrow> ready view p (encode x) \<Longrightarrow> p_depth p = Suc d \<Longrightarrow>
      reads view p (nodes (Suc d) x) (stack_commit (stack p)) (length (encode x))"
    and "xs \<noteq> []" and "list_all (wf_resp (Suc d)) xs" and "ready view p (concat (map encode xs))"
    and "stack p = of_nat (length xs) # st" and "p_depth p = Suc d"
  shows "reads view p (concat (map (nodes (Suc d)) xs)) (stack_commit st) (length (concat (map encode xs)))"
  using assms
proof (induction xs arbitrary: p)
  case Nil
  then show ?case by simp
next
  case (Cons x xs)
  note rs = ready_stack [OF Cons.prems(4)]
  have st: "st \<noteq> []" "length st = Suc d"
    using length_stack [of p] rs Cons.prems(5,6) by auto
  have x: "reads view p (nodes (Suc d) x) (stack_commit (stack p)) (length (encode x))"
    using Cons.prems(1) [of x p] Cons.prems(3,4,6) ready_prefix [of view p "encode x"] by simp
  show ?case
  proof (cases xs)
    case Nil
    with x st Cons.prems(5) show ?thesis by (simp add: stack_commit_last)
  next
    case xs: (Cons y ys)
    have "length xs < 2 ^ 64"
      using ready_length [OF Cons.prems(4)] length_concat_encode [of "x # xs"] by simp
    then have nz: "(of_nat (length xs) :: size_t) \<noteq> 0"
      using of_nat_size_t_eq_iff [of "length xs" 0] xs by simp
    then have "stack_commit (stack p) = Some (of_nat (length xs) # st)"
      using Cons.prems(5) st(1) stack_commit_open [of "of_nat (length (x # xs))" st] by simp
    with x have x': "reads view p (nodes (Suc d) x) (Some (of_nat (length xs) # st)) (length (encode x))"
      by simp
    have r: "\<exists>r. drop (p_consumed p + length (encode x)) view = concat (map encode xs) @ r"
      using ready_rest [of view p "encode x" "concat (map encode xs)"] Cons.prems(4) by simp
    have "last st = 2" using rs st(1) Cons.prems(5) by simp
    from reads_next [OF x' st(1) this _ r] rs st(2)
    obtain q where q: "emits view p (nodes (Suc d) x) q"
      "p_consumed q = p_consumed p + length (encode x)" "stack q = of_nat (length xs) # st"
      "ready view q (concat (map encode xs))" "p_depth q = Suc d" by auto
    then have "reads view q (concat (map (nodes (Suc d)) xs)) (stack_commit st) (length (concat (map encode xs)))"
      using Cons.prems xs by (intro Cons.IH) auto
    from reads_append [OF q(1,2) this] show ?thesis by simp
  qed
qed


section \<open>Aggregates and streamed strings\<close>

lemma multiplicity_word: "element_multiplicity t = of_nat (multiplicity t)"
  by (cases t) (simp_all add: multiplicity_def)

lemma aggregate_impl:
  assumes "is_aggregate t" and "p_bulk p = invalid_t" and "k < 2 ^ 64"
  shows "consume_impl p t (to_string_nat k) =
    (if k = 0 then andThen (commit_elem p) (\<lambda>p'. Inr (p', Inr (mk_node t 0 (p_depth p) [])))
     else if p_depth p = max_embedded_depth
     then Inr (p, Inl (make_error_code exceeeds_max_nested_depth))
     else andThen (array_set (p_sizes p) (p_depth p + 1) (of_nat (k * multiplicity t))) (\<lambda>sizes.
       Inr (p\<lparr>p_depth := p_depth p + 1, p_sizes := sizes\<rparr>, Inr (mk_node t (of_nat k) (p_depth p) []))))"
proof -
  have "consume_impl p t (to_string_nat k) = consume_aggregate p t (to_string_nat k)"
    using assms(1,2) by (cases t) (simp_all add: consume_impl_def bulk_expected_def)
  moreover have "(of_nat k :: size_t) = 0 \<longleftrightarrow> k = 0"
    using assms(3) of_nat_size_t_eq_iff [of k 0] by simp
  ultimately show ?thesis
    using from_chars_length [OF assms(3)]
    by (simp add: consume_aggregate_def to_int_def multiplicity_word)
qed

lemma empty_aggregate_reads:
  assumes "ready view p (header t 0)" and "is_aggregate t"
  shows "reads view p [mk_node t 0 (p_depth p) []] (stack_commit (stack p)) (length (header t 0))"
proof -
  have op: "open_message p" "p_bulk p = invalid_t" using assms(1) by (simp_all add: ready_def)
  from commit_elem_open [OF op(1)] obtain p1 where p1: "commit_elem p = Inr p1" "wf_parser p1"
    "stack_commit (stack p) = Some (stack p1)" by blast
  have "reads view p [mk_node t 0 (p_depth p) []] (Some (stack p1)) (length (to_string_nat 0) + 3)"
    using assms p1 op commit_elem_frame [OF p1(1)] aggregate_impl [OF assms(2) op(2), of 0]
    by (intro reads_line [of _ _ t _ "[]"]) (auto simp: header_def to_string_nat_no_cr)
  with p1 show ?thesis by (simp only: length_header)
qed

lemma aggregate_reads:
  assumes "\<And>x p. x \<in> set xs \<Longrightarrow> wf_resp (Suc (p_depth p0)) x \<Longrightarrow> ready view p (encode x) \<Longrightarrow>
      p_depth p = Suc (p_depth p0) \<Longrightarrow>
      reads view p (nodes (Suc (p_depth p0)) x) (stack_commit (stack p)) (length (encode x))"
    and "ready view p0 (encode (Aggr t xs))" and "wf_resp (p_depth p0) (Aggr t xs)"
  shows "reads view p0 (nodes (p_depth p0) (Aggr t xs)) (stack_commit (stack p0)) (length (encode (Aggr t xs)))"
proof (cases "xs = []")
  case True
  with assms empty_aggregate_reads [of view p0 t] show ?thesis by simp
next
  case False
  let ?k = "length xs div multiplicity t" and ?d = "p_depth p0"
  let ?p1 = "p0\<lparr>p_depth := ?d + 1, p_sizes := (p_sizes p0)[?d + 1 := of_nat (length xs)]\<rparr>"
  let ?nd = "mk_node t (of_nat ?k) ?d []"
  note rs = ready_stack [OF assms(2)]
  have k: "?k * multiplicity t = length xs" and d: "?d < max_embedded_depth" and t: "is_aggregate t"
    using assms(3) False by (auto simp: dvd_div_mult_self)
  have "length xs < 2 ^ 64"
    using ready_length [OF assms(2)] length_concat_encode [of xs] by simp
  then have kb: "?k < 2 ^ 64" by (rule le_less_trans [OF div_le_dividend])
  have k0: "?k \<noteq> 0" using k False by (metis length_0_conv mult_0)
  have impl: "consume_impl p0 t (to_string_nat ?k) = Inr (?p1, Inr ?nd)"
    using aggregate_impl [OF t _ kb] k0 d k rs assms(2) by (simp add: wf_parser_def ready_def)
  have rdy: "ready view p0 (wire t # to_string_nat ?k @ sep @ concat (map encode xs))"
    using assms(2) by (simp add: header_def)
  have ts: "t \<noteq> streamed_string_t" "t \<noteq> invalid_t" using t by auto
  note st1 = stack_push [OF _ d, of "of_nat (length xs)"]
  have "p_bulk ?p1 = invalid_t" "wf_parser ?p1" using st1 rs assms(2) by (simp_all add: ready_def)
  from reads_line [OF rdy to_string_nat_no_cr ts impl this]
  have h: "reads view p0 [?nd] (Some (of_nat (length xs) # stack p0)) (length (header t ?k))"
    using st1 rs by (simp only: length_header)
  have r: "\<exists>r. drop (p_consumed p0 + length (header t ?k)) view = concat (map encode xs) @ r"
    using ready_rest [of view p0 "header t ?k" "concat (map encode xs)"] assms(2) by simp
  from reads_next [OF h stack_nonempty _ _ r] rs length_stack [of p0]
  obtain q where q: "emits view p0 [?nd] q" "p_consumed q = p_consumed p0 + length (header t ?k)"
    "stack q = of_nat (length xs) # stack p0" "ready view q (concat (map encode xs))" "p_depth q = Suc ?d"
    by auto
  have "reads view q (concat (map (nodes (Suc ?d)) xs)) (stack_commit (stack p0)) (length (concat (map encode xs)))"
    using assms(1,3) False q by (intro elements_read) auto
  from reads_append [OF q(1,2) this] show ?thesis by simp
qed

lemma parts_read:
  assumes "ready view p (concat (map encode_part ps) @ txt)" and "list_all (\<lambda>s. s \<noteq> []) ps"
    and "stack p = n # st" and "st \<noteq> []" and "length ps < unat n - 1"
  shows "\<exists>q m. emits view p (map (mk_node streamed_string_part_t 1 (p_depth p)) ps) q
    \<and> p_consumed q = p_consumed p + length (concat (map encode_part ps))
    \<and> stack q = m # st \<and> ready view q txt \<and> p_depth q = p_depth p"
  using assms
proof (induction ps arbitrary: p n)
  case Nil
  then show ?case by (auto intro: emits_nil)
next
  case (Cons s ps)
  let ?txt = "concat (map encode_part ps) @ txt"
  note rs = ready_stack [OF Cons.prems(1)]
  have n: "unat (n - 1) = unat n - 1"
    using Cons.prems(5) by (intro unat_minus_one) auto
  then have "n - 1 \<noteq> 0" using Cons.prems(5) by (metis Suc_lessE diff_0_eq_0 length_Cons less_nat_zero_code unat_0)
  have rdy: "ready view p (encode_part s @ ?txt)" using Cons.prems(1) by simp
  have "reads view p [mk_node streamed_string_part_t 1 (p_depth p) s] (stack_commit (stack p)) (length (encode_part s))"
    using Cons.prems(2) by (intro part_reads ready_prefix [OF rdy]) simp
  then have h: "reads view p [mk_node streamed_string_part_t 1 (p_depth p) s] (Some ((n - 1) # st)) (length (encode_part s))"
    using Cons.prems(3,4) \<open>n - 1 \<noteq> 0\<close> stack_commit_open by simp
  have "last st = 2" "length st = p_depth p"
    using rs Cons.prems(3,4) length_stack [of p] by auto
  with reads_next [OF h Cons.prems(4) _ _ ready_rest [OF rdy]] rs obtain q
    where q: "emits view p [mk_node streamed_string_part_t 1 (p_depth p) s] q"
    "p_consumed q = p_consumed p + length (encode_part s)" "stack q = (n - 1) # st"
    "ready view q ?txt" "p_depth q = p_depth p" by auto
  from Cons.IH [OF q(4) _ q(3) Cons.prems(4)] Cons.prems(2,5) n q emits_append [OF q(1)]
  show ?case by fastforce
qed


lemma part_end_reads:
  assumes "ready view p (header streamed_string_part_t 0)" and "stack p = n # st" and "st \<noteq> []"
  shows "reads view p [mk_node streamed_string_part_t 1 (p_depth p) []] (stack_commit st)
    (length (header streamed_string_part_t 0))"
proof -
  let ?p1 = "p\<lparr>p_sizes := (p_sizes p)[p_depth p := 1], p_bulk_length := 0, p_bulk := invalid_t\<rparr>"
  have op: "open_message p" "p_bulk p = invalid_t" "wf_parser p"
    using assms(1) by (simp_all add: ready_def open_message_def)
  have d: "0 < p_depth p" using length_stack [OF op(3)] assms(2,3) by (cases st) auto
  have o1: "open_message ?p1" using open_set_top [OF op(1) d] by (simp add: open_message_def)
  have s1: "stack ?p1 = 1 # st" using stack_set_top [OF op(3)] assms(2) by simp
  from commit_elem_open [OF o1] obtain p2 where p2: "commit_elem ?p1 = Inr p2" "wf_parser p2"
    "stack_commit (stack ?p1) = Some (stack p2)" by blast
  have "from_chars (to_string_nat 0) = Some 0" using from_chars_length [of 0] by simp
  then have "consume_impl p streamed_string_part_t (to_string_nat 0) =
      Inr (p2, Inr (mk_node streamed_string_part_t 1 (p_depth p) []))"
    using op p2(1) array_set_wf [OF op(3)]
    by (simp add: consume_impl_def bulk_expected_def consume_part_def to_int_def)
  then have "reads view p [mk_node streamed_string_part_t 1 (p_depth p) []] (Some (stack p2))
      (length (to_string_nat 0) + 3)"
    using assms(1) p2 commit_elem_frame [OF p2(1)]
    by (intro reads_line [of _ _ _ _ "[]"]) (auto simp: header_def to_string_nat_no_cr)
  with p2(3) s1 stack_commit_last [OF assms(3)] show ?thesis
    by (simp only: length_header)
qed

lemma encode_part_nonempty: "length ps \<le> length (concat (map encode_part ps))"
  by (induction ps) (simp_all add: encode_part_def header_def)

lemma streamed_reads:
  assumes "ready view p (encode (Streamed ps))" and "wf_resp (p_depth p) (Streamed ps)"
  shows "reads view p (nodes (p_depth p) (Streamed ps)) (stack_commit (stack p)) (length (encode (Streamed ps)))"
proof -
  let ?d = "p_depth p" and ?last = "header streamed_string_part_t 0"
  let ?txt = "concat (map encode_part ps) @ ?last"
  let ?p1 = "p\<lparr>p_depth := ?d + 1, p_sizes := (p_sizes p)[?d + 1 := npos]\<rparr>"
  let ?nd = "mk_node streamed_string_t 0 (Suc ?d) []"
  have op: "open_message p" "p_bulk p = invalid_t" "wf_parser p" "length view < 2 ^ 64"
    using assms(1) by (simp_all add: ready_def open_message_def)
  have d: "?d < max_embedded_depth" and ps: "list_all (\<lambda>s. s \<noteq> []) ps" using assms(2) by simp_all
  have "consume_impl p blob_string_t ''?'' = Inr (?p1, Inr ?nd)"
    using op d by (simp add: consume_impl_def bulk_expected_def consume_blob_def view_at_def wf_parser_def)
  moreover have "ready view p (wire blob_string_t # ''?'' @ sep @ ?txt)" using assms(1) by simp
  moreover have "find_sub sep ''?'' = None" by (simp add: sep_def)
  ultimately have h: "reads view p [?nd] (Some (npos # stack p)) 4"
    using reads_line [of view p blob_string_t "''?''" ?txt ?p1 ?nd] op d stack_push [of p npos] by simp
  have r: "\<exists>r. drop (p_consumed p + 4) view = ?txt @ r"
    using ready_rest [of view p "wire blob_string_t # CHR ''?'' # sep" ?txt] assms(1)
    by (simp add: sep_def eval_nat_numeral)
  from reads_next [OF h stack_nonempty _ _ r] op length_stack [of p]
  obtain q where q: "emits view p [?nd] q" "p_consumed q = p_consumed p + 4"
    "stack q = npos # stack p" "ready view q ?txt" "p_depth q = Suc ?d"
    by (auto simp: open_message_def)
  have "length ps < unat npos - 1"
    using ready_length [OF assms(1)] encode_part_nonempty [of ps]
    by (simp add: length_header unat_npos)
  from parts_read [OF q(4) ps q(3) stack_nonempty [OF op(3)] this] obtain q2 m
    where q2: "emits view q (map (mk_node streamed_string_part_t 1 (Suc ?d)) ps) q2"
      "p_consumed q2 = p_consumed q + length (concat (map encode_part ps))"
      "stack q2 = m # stack p" "ready view q2 ?last" "p_depth q2 = Suc ?d"
    using q(5) by auto
  from part_end_reads [OF q2(4,3) stack_nonempty [OF op(3)]] q2(5)
  have "reads view q2 [mk_node streamed_string_part_t 1 (Suc ?d) []] (stack_commit (stack p)) (length ?last)"
    by simp
  from reads_append [OF q(1,2) reads_append [OF q2(1,2) this]] show ?thesis
    by (simp add: eval_nat_numeral)
qed

lemma encode_reads:
  assumes "wf_resp (p_depth p) t" and "ready view p (encode t)"
  shows "reads view p (nodes (p_depth p) t) (stack_commit (stack p)) (length (encode t))"
  using assms
proof (induction t arbitrary: p)
  case (Simple t s)
  then show ?case by (intro simple_reads) simp_all
next
  case (Bulk t s)
  then show ?case by (intro blob_reads) simp_all
next
  case (Aggr t xs)
  show ?case
  proof (rule aggregate_reads [OF _ Aggr.prems(2,1)])
    fix x q assume "x \<in> set xs" "wf_resp (Suc (p_depth p)) x" "ready view q (encode x)"
      and q: "p_depth q = Suc (p_depth p)"
    with Aggr.IH [of x q] show
      "reads view q (nodes (Suc (p_depth p)) x) (stack_commit (stack q)) (length (encode x))"
      by simp
  qed
next
  case (Streamed ps)
  then show ?case by (intro streamed_reads)
qed

section \<open>Round trip\<close>

fun feed_nodes :: "'s adapter \<Rightarrow> 's \<Rightarrow> node list \<Rightarrow> fault + 's \<times> error_code option" where
  "feed_nodes A s [] = Inr (s, None)"
| "feed_nodes A s (nd # ns) =
     (case A s nd of
        Inl f \<Rightarrow> Inl f
      | Inr (s', Some ec) \<Rightarrow> Inr (s', Some ec)
      | Inr (s', None) \<Rightarrow> feed_nodes A s' ns)"

lemma emits_parse:
  assumes "emits view p ns p'" and "feed_nodes A s ns = Inr (s', None)"
  shows "parse A view p s = parse A view p' s'"
  using assms
proof (induction arbitrary: s rule: emits.induct)
  case (emits_nil p)
  then show ?case by simp
next
  case (emits_cons p p' nd ns p'')
  then obtain s1 where "A s nd = Inr (s1, None)" "feed_nodes A s1 ns = Inr (s', None)"
    by (auto split: sum.splits prod.splits option.splits)
  with emits_cons parse_step [of p view p' nd A s s1] show ?case by simp
qed

text \<open>The reading of one whole message by a fresh parser, whatever the adapter.\<close>

lemma encode_emits:
  assumes "wf_resp 0 t" and "length (encode t @ rest) < 2 ^ 64"
  obtains p where "emits (encode t @ rest) new_parser (nodes 0 t) p" and "parser_done p"
    and "get_consumed p = length (encode t)"
proof -
  let ?v = "encode t @ rest"
  have "ready ?v new_parser (encode t)"
    using assms(2) open_message_new by (auto simp: ready_def new_parser_def parser_done_def)
  moreover have "p_depth new_parser = 0" "p_consumed new_parser = 0"
    by (simp_all add: new_parser_def)
  ultimately have "reads ?v new_parser (nodes 0 t) (stack_commit (stack new_parser)) (length (encode t))"
    using encode_reads [of new_parser t ?v] assms(1) by simp
  then obtain p where p: "emits ?v new_parser (nodes 0 t) p" "wf_parser p"
    "stack_commit (stack new_parser) = Some (stack p)" "p_bulk p = invalid_t"
    "p_consumed p = length (encode t)"
    by (auto simp: reads_def new_parser_def)
  have "stack new_parser = [2]" by (simp add: new_parser_def stack_def)
  with p(3) have "stack p = [1]" by (simp add: stack_commit_def)
  then have "parser_done p"
    using p encode_nonempty [of t] length_stack [OF p(2)] by (simp add: parser_done_def)
  with p show thesis by (auto simp: get_consumed_def intro: that)
qed

text \<open>
  C4: the parser reads every well-formed message.  If the buffer starts with the encoding of
  a tree, then a fresh parser hands the adapter exactly the nodes of the tree in pre-order and
  stops after exactly the bytes of the message, whatever follows them in the buffer.
\<close>

theorem parse_encode:
  assumes "wf_resp 0 t" and "length (encode t @ rest) < 2 ^ 64"
    and "feed_nodes A s (nodes 0 t) = Inr (s', None)"
  shows "\<exists>p. parse A (encode t @ rest) new_parser s = Inr (p, s', True, None)
    \<and> get_consumed p = length (encode t)"
  using encode_emits [OF assms(1,2)] emits_parse [OF _ assms(3)] parse_done by metis

theorem parse_encode_witness:
  "\<exists>p. parse (\<lambda>n nd. Inr (n + 1, None)) (encode (Aggr map_t [Bulk blob_string_t ''k'', Simple number_t ''1'']))
      new_parser (0 :: nat) = Inr (p, 3, True, None)
    \<and> get_consumed p = length (encode (Aggr map_t [Bulk blob_string_t ''k'', Simple number_t ''1'']))"
proof -
  let ?t = "Aggr map_t [Bulk blob_string_t ''k'', Simple number_t ''1'']"
  have "wf_resp 0 ?t" by (simp add: max_embedded_depth_def multiplicity_def simple_ok_def sep_def)
  moreover have "length (encode ?t @ []) < 2 ^ 64"
    by (simp add: header_def sep_def multiplicity_def to_string_nat.simps wire_def)
  ultimately show ?thesis
    using parse_encode [of ?t "[]" "\<lambda>n nd. Inr (n + 1, None)" "0 :: nat" 3] by (simp add: numeral_3_eq_3)
qed

end
