(* ===== verification/Request.thy ===== *)
theory Request
  imports Resp3_Message
begin

text \<open>
  Requests: \<^verbatim>\<open>include/boost/redis/request.hpp\<close> and \<^verbatim>\<open>impl/request.ipp\<close>.  A request is
  the text of a pipeline of commands with its counters.  \<open>represents\<close> is its specification: the
  list of commands it stands for.  A range of the source is the list of its elements, all of
  the same form since they have one C++ type.
\<close>

section \<open>Definitions\<close>

record request_config =
  cancel_on_connection_lost :: bool
  cancel_if_not_connected :: bool
  cancel_if_unresponded :: bool
  hello_with_priority :: bool

record request =
  r_cfg :: request_config
  r_payload :: string
  r_commands :: size_t
  r_expected_responses :: size_t
  r_has_hello_priority :: bool

definition default_request_config :: request_config where
  "default_request_config =
     \<lparr>cancel_on_connection_lost = True, cancel_if_not_connected = False,
      cancel_if_unresponded = True, hello_with_priority = True\<rparr>"

definition new_request :: "request_config \<Rightarrow> request" where
  "new_request cfg =
     \<lparr>r_cfg = cfg, r_payload = [], r_commands = 0, r_expected_responses = 0,
      r_has_hello_priority = False\<rparr>"

definition has_response :: "string \<Rightarrow> bool" where
  "has_response cmd =
     (if cmd = ''SUBSCRIBE'' then True
      else if cmd = ''PSUBSCRIBE'' then True
      else if cmd = ''UNSUBSCRIBE'' then True
      else False)"

definition request_clear :: "request \<Rightarrow> request" where
  "request_clear req =
     req\<lparr>r_payload := [], r_commands := 0, r_expected_responses := 0, r_has_hello_priority := False\<rparr>"

definition check_cmd :: "request \<Rightarrow> string \<Rightarrow> request" where
  "check_cmd req cmd =
     (let req = req\<lparr>r_commands := r_commands req + 1\<rparr>;
          req = (if \<not> has_response cmd
                 then req\<lparr>r_expected_responses := r_expected_responses req + 1\<rparr> else req)
      in if cmd = ''HELLO''
         then req\<lparr>r_has_hello_priority := hello_with_priority (r_cfg req)\<rparr> else req)"

definition push :: "('u \<Rightarrow> string) \<Rightarrow> request \<Rightarrow> string \<Rightarrow> 'u arg list \<Rightarrow> fault + request" where
  "push ser req cmd args =
     andThen (add_header (r_payload req) array_t (1 + of_nat (length args))) (\<lambda>p1.
     andThen (add_bulk ser p1 (I_one (A_str cmd))) (\<lambda>p2.
     andThen (add_bulk ser p2 (I_tuple args)) (\<lambda>p3.
     Inr (check_cmd (req\<lparr>r_payload := p3\<rparr>) cmd))))"

fun add_bulks :: "('u \<Rightarrow> string) \<Rightarrow> string \<Rightarrow> 'u item list \<Rightarrow> fault + string" where
  "add_bulks ser payload [] = Inr payload"
| "add_bulks ser payload (i # is) =
     andThen (add_bulk ser payload i) (\<lambda>payload'. add_bulks ser payload' is)"

definition push_range_key ::
  "('u \<Rightarrow> string) \<Rightarrow> request \<Rightarrow> string \<Rightarrow> string \<Rightarrow> 'u item list \<Rightarrow> fault + request" where
  "push_range_key ser req cmd key rng =
     (case rng of
        [] \<Rightarrow> Inr req
      | i # _ \<Rightarrow>
          andThen (add_header (r_payload req) array_t (2 + bulk_counter i * of_nat (length rng))) (\<lambda>p1.
          andThen (add_bulk ser p1 (I_one (A_str cmd))) (\<lambda>p2.
          andThen (add_bulk ser p2 (I_one (A_str key))) (\<lambda>p3.
          andThen (add_bulks ser p3 rng) (\<lambda>p4.
          Inr (check_cmd (req\<lparr>r_payload := p4\<rparr>) cmd))))))"

definition push_range ::
  "('u \<Rightarrow> string) \<Rightarrow> request \<Rightarrow> string \<Rightarrow> 'u item list \<Rightarrow> fault + request" where
  "push_range ser req cmd rng =
     (case rng of
        [] \<Rightarrow> Inr req
      | i # _ \<Rightarrow>
          andThen (add_header (r_payload req) array_t (1 + bulk_counter i * of_nat (length rng))) (\<lambda>p1.
          andThen (add_bulk ser p1 (I_one (A_str cmd))) (\<lambda>p2.
          andThen (add_bulks ser p2 rng) (\<lambda>p3.
          Inr (check_cmd (req\<lparr>r_payload := p3\<rparr>) cmd)))))"

definition push_range_key_container ::
  "('u \<Rightarrow> string) \<Rightarrow> request \<Rightarrow> string \<Rightarrow> string \<Rightarrow> 'u item list \<Rightarrow> fault + request" where
  "push_range_key_container ser req cmd key rng = push_range_key ser req cmd key rng"

definition push_range_container ::
  "('u \<Rightarrow> string) \<Rightarrow> request \<Rightarrow> string \<Rightarrow> 'u item list \<Rightarrow> fault + request" where
  "push_range_container ser req cmd rng = push_range ser req cmd rng"

section \<open>Specification\<close>

text \<open>A command is its name and its arguments; on the wire it is an array of blob strings.\<close>

type_synonym command = "string \<times> string list"

definition command_message :: "command \<Rightarrow> resp" where
  "command_message c = Aggr array_t (map (Bulk blob_string_t) (fst c # snd c))"

definition command_text :: "command \<Rightarrow> string" where
  "command_text c = encode (command_message c)"

definition expects_response :: "command \<Rightarrow> bool" where
  "expects_response c \<longleftrightarrow> fst c \<notin> {''SUBSCRIBE'', ''PSUBSCRIBE'', ''UNSUBSCRIBE''}"

definition represents :: "request \<Rightarrow> command list \<Rightarrow> bool" where
  "represents req cmds \<longleftrightarrow>
     r_payload req = concat (map command_text cmds)
     \<and> r_commands req = of_nat (length cmds)
     \<and> r_expected_responses req = of_nat (length (filter expects_response cmds))
     \<and> r_has_hello_priority req =
         (hello_with_priority (r_cfg req) \<and> list_ex (\<lambda>c. fst c = ''HELLO'') cmds)"

definition same_shape :: "'u item list \<Rightarrow> bool" where
  "same_shape rng \<longleftrightarrow>
     list_all (\<lambda>i. case i of I_one _ \<Rightarrow> True | _ \<Rightarrow> False) rng
     \<or> list_all (\<lambda>i. case i of I_pair _ _ \<Rightarrow> True | _ \<Rightarrow> False) rng"

definition range_args :: "('u \<Rightarrow> string) \<Rightarrow> 'u item list \<Rightarrow> string list" where
  "range_args ser rng = map (arg_text ser) (concat (map item_args rng))"

section \<open>Lemmas\<close>

lemma has_response_iff: "has_response (fst c) \<longleftrightarrow> \<not> expects_response c"
  by (simp add: has_response_def expects_response_def)

lemma bulk_encode: "bulk s = encode (Bulk blob_string_t s)"
  by (simp add: bulk_def header_def wire_def)

lemma command_text_eq:
  "command_text (cmd, args) =
     CHR ''*'' # to_string_nat (Suc (length args)) @ sep @ bulk cmd @ concat (map bulk args)"
  by (simp add: command_text_def command_message_def header_def wire_def multiplicity_def
      bulk_def [abs_def] comp_def)

lemma add_bulks_eq:
  "add_bulks ser payload rng = Inr (payload @ concat (map bulk (range_args ser rng)))"
  by (induction rng arbitrary: payload) (simp_all add: add_bulk_eq range_args_def comp_def)

lemma represents_new: "represents (new_request cfg) []"
  by (simp add: represents_def new_request_def)

lemma represents_clear: "represents (request_clear req) []"
  by (simp add: represents_def request_clear_def)

lemma check_cmd_represents:
  assumes "represents req cmds" and "fst c = cmd"
    and "req' = check_cmd (req\<lparr>r_payload := r_payload req @ command_text c\<rparr>) cmd"
  shows "represents req' (cmds @ [c])"
  using assms has_response_iff [of c]
  by (auto simp: represents_def check_cmd_def Let_def has_response_def expects_response_def)

lemma push_eq:
  assumes "length args < 2 ^ 64 - 1"
  shows "push ser req cmd args =
    Inr (check_cmd (req\<lparr>r_payload := r_payload req @ command_text (cmd, map (arg_text ser) args)\<rparr>) cmd)"
proof -
  have "unat (1 + of_nat (length args) :: size_t) = Suc (length args)"
    using unat_of_nat_size_t [of "Suc (length args)"] assms by simp
  then show ?thesis
    by (simp add: push_def add_header_array add_bulk_eq command_text_eq to_bulk_arg_eq
        add_bulk_tuple_eq comp_def)
qed

lemma bulk_counter_total:
  assumes "same_shape rng" and "rng = i # rest"
  shows "bulk_counter i * of_nat (length rng) = of_nat (length (range_args ser rng))"
proof -
  have one: "length (range_args ser xs) = length xs"
    if "list_all (\<lambda>i. case i of I_one _ \<Rightarrow> True | _ \<Rightarrow> False) xs" for xs
    using that by (induction xs) (auto simp: range_args_def split: item.splits)
  have two: "length (range_args ser xs) = 2 * length xs"
    if "list_all (\<lambda>i. case i of I_pair _ _ \<Rightarrow> True | _ \<Rightarrow> False) xs" for xs
    using that by (induction xs) (auto simp: range_args_def split: item.splits)
  from assms show ?thesis
    using one [of rng] two [of rng] by (cases i) (auto simp: same_shape_def)
qed

lemma push_range_eq:
  assumes "same_shape rng" and "rng \<noteq> []" and "length (range_args ser rng) < 2 ^ 64 - 2"
  shows "push_range ser req cmd rng =
      Inr (check_cmd (req\<lparr>r_payload := r_payload req @ command_text (cmd, range_args ser rng)\<rparr>) cmd)"
    and "push_range_key ser req cmd key rng =
      Inr (check_cmd (req\<lparr>r_payload := r_payload req @ command_text (cmd, key # range_args ser rng)\<rparr>) cmd)"
proof -
  obtain i rest where rng: "rng = i # rest" using assms(2) by (cases rng) auto
  have one: "1 + bulk_counter i * of_nat (length rng) = of_nat (Suc (length (range_args ser rng)))"
    and two: "2 + bulk_counter i * of_nat (length rng) = of_nat (Suc (Suc (length (range_args ser rng))))"
    unfolding bulk_counter_total [OF assms(1) rng, of ser] by simp_all
  note len = unat_of_nat_size_t [of "Suc (length (range_args ser rng))"]
    unat_of_nat_size_t [of "Suc (Suc (length (range_args ser rng)))"]
  show "push_range ser req cmd rng =
      Inr (check_cmd (req\<lparr>r_payload := r_payload req @ command_text (cmd, range_args ser rng)\<rparr>) cmd)"
    using one len assms(3) by (simp add: push_range_def rng add_header_array add_bulk_eq add_bulks_eq
        command_text_eq del: of_nat_Suc)
  show "push_range_key ser req cmd key rng =
      Inr (check_cmd (req\<lparr>r_payload := r_payload req @ command_text (cmd, key # range_args ser rng)\<rparr>) cmd)"
    using two len assms(3) by (simp add: push_range_key_def rng add_header_array add_bulk_eq add_bulks_eq
        command_text_eq del: of_nat_Suc)
qed

lemma wf_command: "wf_resp 0 (command_message c)"
  by (simp add: command_message_def multiplicity_def list_all_iff max_embedded_depth_def)

text \<open>The adapter that keeps every node, to state what a reader of a request sees.\<close>

definition collect :: "node list adapter" where
  "collect ns nd = Inr (ns @ [nd], None)"

lemma feed_collect: "feed_nodes collect s ns = Inr (s @ ns, None)"
  by (induction ns arbitrary: s) (simp_all add: collect_def)

section \<open>Properties\<close>

text \<open>
  C15: \<^verbatim>\<open>request::push\<close> appends exactly one command.  A request that stands for the commands
  \<open>cmds\<close> stands afterwards for \<open>cmds\<close> followed by the pushed command with its serialised
  arguments: the payload grows by its array of blob strings, the command counter by one, the
  number of expected responses by one unless the command is a subscription, and the hello
  priority is set exactly when a HELLO is among the commands and the configuration asks for it.
\<close>

theorem push_represents:
  assumes "represents req cmds" and "length args < 2 ^ 64 - 1"
  shows "\<exists>req'. push ser req cmd args = Inr req' \<and> r_cfg req' = r_cfg req
    \<and> represents req' (cmds @ [(cmd, map (arg_text ser) args)])"
  using assms check_cmd_represents [OF assms(1), of "(cmd, map (arg_text ser) args)" cmd]
  by (simp add: push_eq check_cmd_def Let_def)

theorem push_represents_witness:
  "\<exists>req'. push (\<lambda>_::unit. []) (new_request default_request_config) ''SET'' [A_str ''k'', A_int 5] = Inr req'
    \<and> r_cfg req' = r_cfg (new_request default_request_config)
    \<and> represents req' [(''SET'', [''k'', to_string_int 5])]"
  using push_represents [OF represents_new, of "[A_str ''k'', A_int 5]" "\<lambda>_::unit. []" _ "''SET''"] by simp

text \<open>
  \<^verbatim>\<open>request::push_range\<close>, with and without a key, appends one command whose arguments are
  the elements of the range (both components of a pair); an empty range appends nothing.
\<close>

theorem push_range_represents:
  assumes "represents req cmds" and "same_shape rng" and "length (range_args ser rng) < 2 ^ 64 - 2"
  shows "\<exists>req' reqk. push_range ser req cmd rng = Inr req' \<and> push_range_key ser req cmd key rng = Inr reqk
    \<and> (if rng = [] then req' = req \<and> reqk = req
       else represents req' (cmds @ [(cmd, range_args ser rng)])
          \<and> represents reqk (cmds @ [(cmd, key # range_args ser rng)]))"
proof (cases "rng = []")
  case True
  then show ?thesis by (simp add: push_range_def push_range_key_def)
next
  case False
  then show ?thesis
    using check_cmd_represents [OF assms(1), of "(cmd, range_args ser rng)" cmd]
      check_cmd_represents [OF assms(1), of "(cmd, key # range_args ser rng)" cmd]
    by (simp add: push_range_eq [OF assms(2) False assms(3)])
qed

theorem push_range_represents_witness:
  "\<exists>req' reqk. push_range (\<lambda>_::unit. []) (new_request default_request_config) ''DEL''
        [I_one (A_str ''a''), I_one (A_str ''b'')] = Inr req'
    \<and> push_range_key (\<lambda>_::unit. []) (new_request default_request_config) ''DEL'' ''k''
        [I_one (A_str ''a''), I_one (A_str ''b'')] = Inr reqk
    \<and> represents req' [(''DEL'', [''a'', ''b''])] \<and> represents reqk [(''DEL'', [''k'', ''a'', ''b''])]"
  using push_range_represents [OF represents_new,
      of "[I_one (A_str ''a''), I_one (A_str ''b'')]" "\<lambda>_::unit. []" _ "''DEL''" "''k''"]
  by (simp add: same_shape_def range_args_def)


lemma ping_get_length: "length (command_text (''PING'', [])) + length (command_text (''GET'', [''k''])) < 2 ^ 64"
  by (simp add: command_text_eq bulk_def sep_def to_string_nat.simps)


text \<open>
  C32: a range of tuples is announced with the wrong size: the header of the array counts one
  element per tuple while every component is written as a blob string of its own.
\<close>

theorem push_range_tuple_header:
  assumes "rng \<noteq> []" and "list_all (\<lambda>i. \<exists>as. i = I_tuple as \<and> length as = k) rng"
    and "length rng < 2 ^ 64 - 1"
  shows "\<exists>req' body. push_range ser req cmd rng = Inr req'
    \<and> r_payload req' = r_payload req @ CHR ''*'' # to_string_nat (1 + length rng) @ sep @ body
    \<and> body = concat (map bulk (cmd # range_args ser rng))
    \<and> length (cmd # range_args ser rng) = 1 + k * length rng"
proof -
  obtain as rest where rng: "rng = I_tuple as # rest" using assms(1,2) by (cases rng) auto
  have "length (range_args ser rng) = k * length rng"
    using assms(2) by (induction rng) (auto simp: range_args_def)
  moreover have "unat (1 + of_nat (length rng) :: size_t) = Suc (length rng)"
    using unat_of_nat_size_t [of "Suc (length rng)"] assms(3) by simp
  ultimately show ?thesis
    by (simp add: push_range_def rng add_header_array add_bulk_eq add_bulks_eq check_cmd_def Let_def)
qed

theorem push_range_tuple_header_witness:
  "\<exists>req' body. push_range (\<lambda>_::unit. []) (new_request default_request_config) ''HSET''
        [I_tuple [A_str ''a'', A_str ''b'']] = Inr req'
    \<and> r_payload req' = CHR ''*'' # to_string_nat (Suc 1) @ sep @ body
    \<and> body = concat (map bulk [''HSET'', ''a'', ''b''])"
  using push_range_tuple_header [of "[I_tuple [A_str ''a'', A_str ''b'']]" 2 "\<lambda>_::unit. []"
      "new_request default_request_config" "''HSET''"]
  by (simp add: new_request_def range_args_def)

end
