(* ===== verification/Adapters.thy ===== *)
theory Adapters
  imports Request
begin

text \<open>
  The adapters that turn RESP3 nodes into C++ objects: \<^verbatim>\<open>adapter/detail/adapters.hpp\<close>,
  \<^verbatim>\<open>adapter/detail/result_traits.hpp\<close>, \<^verbatim>\<open>adapter/detail/response_traits.hpp\<close>,
  \<^verbatim>\<open>adapter/any_adapter.hpp\<close>, \<^verbatim>\<open>adapter/ignore.hpp\<close>, \<^verbatim>\<open>adapter/result.hpp\<close> and \<^verbatim>\<open>impl/response.ipp\<close>.

  An adapter is a function on the state it keeps and the object it writes to.  A class template
  over the type of the object is a function of the conversion \<open>conv\<close> of one node to that type.
  Reading a floating point number is an argument, and so is the largest size of a vector.
\<close>

section \<open>Definitions\<close>

subsection \<open>Results\<close>

record resp3_error =
  err_data_type :: resp3_type
  err_diagnostic :: string

type_synonym 'a result = "resp3_error + 'a"

definition resp3_error_of :: "node \<Rightarrow> resp3_error" where
  "resp3_error_of nd = \<lparr>err_data_type = data_type nd, err_diagnostic = node_value nd\<rparr>"

definition throw_exception_from_error :: "resp3_error \<Rightarrow> fault + error_code \<times> string" where
  "throw_exception_from_error e =
     (case err_data_type e of
        simple_error_t \<Rightarrow> Inr (make_error_code resp3_simple_error, err_diagnostic e)
      | blob_error_t \<Rightarrow> Inr (make_error_code resp3_blob_error, err_diagnostic e)
      | null_t \<Rightarrow> Inr (make_error_code resp3_null, err_diagnostic e)
      | _ \<Rightarrow> Inl Assert_Failed)"

subsection \<open>Conversion of one node\<close>

type_synonym 'a from_bulk = "'a \<Rightarrow> node \<Rightarrow> fault + 'a \<times> error_code option"

text \<open>\<open>std::from_chars\<close> for a signed or unsigned integer of \<open>w\<close> bits.\<close>

definition from_chars_int :: "bool \<Rightarrow> nat \<Rightarrow> string \<Rightarrow> int option" where
  "from_chars_int is_signed w s =
     (let neg = is_signed \<and> s \<noteq> [] \<and> hd s = CHR ''-'';
          ds = takeWhile is_digit (if neg then tl s else s);
          v = (if neg then - int (digits_value ds) else int (digits_value ds))
      in if ds = [] then None
         else if is_signed \<and> - (2 ^ (w - 1)) \<le> v \<and> v < 2 ^ (w - 1) \<or> \<not> is_signed \<and> v < 2 ^ w then Some v
         else None)"

definition convert_integral :: "bool \<Rightarrow> nat \<Rightarrow> int from_bulk" where
  "convert_integral is_signed w i nd =
     (case from_chars_int is_signed w (node_value nd) of
        None \<Rightarrow> Inr (i, Some (make_error_code not_a_number))
      | Some v \<Rightarrow> Inr (v, None))"

definition convert_bool :: "bool from_bulk" where
  "convert_bool b nd =
     (case node_value nd of [] \<Rightarrow> Inl Out_Of_Bounds | c # _ \<Rightarrow> Inr (c = CHR ''t'', None))"

definition convert_double :: "(string \<Rightarrow> 'd option) \<Rightarrow> 'd from_bulk" where
  "convert_double from_chars_double d nd =
     (case from_chars_double (node_value nd) of
        None \<Rightarrow> Inr (d, Some (make_error_code not_a_double))
      | Some v \<Rightarrow> Inr (v, None))"

definition convert_string :: "string from_bulk" where
  "convert_string s nd = Inr (s @ node_value nd, None)"

definition from_bulk_optional :: "'a \<Rightarrow> 'a from_bulk \<Rightarrow> 'a option from_bulk" where
  "from_bulk_optional init conv op nd =
     (if data_type nd \<noteq> null_t
      then andThen (conv init nd) (\<lambda>(v, ec). Inr (Some v, ec))
      else Inr (op, None))"

subsection \<open>Adapters of generic responses\<close>

definition ignore :: "'s adapter" where
  "ignore s nd =
     Inr (s, case data_type nd of
        simple_error_t \<Rightarrow> Some (make_error_code resp3_simple_error)
      | blob_error_t \<Rightarrow> Some (make_error_code resp3_blob_error)
      | null_t \<Rightarrow> Some (make_error_code resp3_null)
      | _ \<Rightarrow> None)"

definition general_aggregate :: "node list result adapter" where
  "general_aggregate r nd =
     (if data_type nd \<in> {blob_error_t, simple_error_t} then Inr (Inl (resp3_error_of nd), None)
      else (case r of
              Inl _ \<Rightarrow> Inl Bad_Value_Access
            | Inr ns \<Rightarrow> Inr (Inr (ns @ [nd]), None)))"

definition general_simple :: "node result adapter" where
  "general_simple r nd =
     (if data_type nd \<in> {blob_error_t, simple_error_t} then Inr (Inl (resp3_error_of nd), None)
      else (case r of
              Inl _ \<Rightarrow> Inl Bad_Value_Access
            | Inr old \<Rightarrow> Inr (Inr (old\<lparr>data_type := data_type nd, aggregate_size := aggregate_size nd,
                depth := depth nd, node_value := node_value nd\<rparr>), None)))"

subsection \<open>Adapters of values and containers\<close>

definition simple_impl :: "'a from_bulk \<Rightarrow> 'a adapter" where
  "simple_impl conv r nd =
     (if is_aggregate (data_type nd) then Inr (r, Some (make_error_code expects_resp3_simple_type))
      else conv r nd)"

text \<open>
  The containers of \<open>set_impl\<close> differ in how they insert: \<open>ins\<close> is \<open>insert\<close> for sets and
  \<open>add_mset\<close> for multisets; the hint only speeds it up.  \<open>obj\<close> is the value of the local object.
\<close>

definition set_impl :: "('a \<Rightarrow> 'r \<Rightarrow> 'r) \<Rightarrow> 'a \<Rightarrow> 'a from_bulk \<Rightarrow> 'r adapter" where
  "set_impl ins obj conv r nd =
     (if is_aggregate (data_type nd) then
        Inr (r, if data_type nd \<noteq> set_t then Some (make_error_code expects_resp3_set) else None)
      else if aggregate_size nd \<noteq> 1 then Inl Assert_Failed
      else if depth nd < 1 then Inr (r, Some (make_error_code expects_resp3_set))
      else andThen (conv obj nd) (\<lambda>(v, ec). Inr (ins v r, ec)))"

text \<open>
  For maps with unique keys the iterator \<open>current_\<close> is the key it points to, if not the end;
  \<open>insert\<close> with a hint leaves a value that is already there.
\<close>

record ('k, 'v) map_state =
  current :: "'k option"
  on_key :: bool
  contents :: "'k \<rightharpoonup> 'v"

definition map_impl :: "'k \<Rightarrow> 'v \<Rightarrow> 'k from_bulk \<Rightarrow> 'v from_bulk \<Rightarrow> ('k, 'v) map_state adapter" where
  "map_impl k0 v0 conv_k conv_v st nd =
     (if is_aggregate (data_type nd) then
        Inr (st, if element_multiplicity (data_type nd) \<noteq> 2
                 then Some (make_error_code expects_resp3_map) else None)
      else if aggregate_size nd \<noteq> 1 then Inl Assert_Failed
      else if depth nd < 1 then Inr (st, Some (make_error_code expects_resp3_map))
      else if on_key st then
        andThen (conv_k k0 nd) (\<lambda>(k, ec).
          Inr (st\<lparr>current := Some k, on_key := False,
                  contents := (if contents st k = None then (contents st)(k \<mapsto> v0) else contents st)\<rparr>, ec))
      else
        (case current st of
           None \<Rightarrow> Inl Out_Of_Bounds
         | Some k \<Rightarrow>
             andThen (conv_v v0 nd) (\<lambda>(v, ec).
               Inr (st\<lparr>on_key := True, contents := (contents st)(k \<mapsto> v)\<rparr>, ec))))"

text \<open>
  A multimap keeps every pair it is given: \<open>insert\<close> with a hint always adds one, and \<open>current_\<close>
  points to it.  The pairs are in the order of their insertion and \<open>current_\<close> is a position.
\<close>

record ('k, 'v) multimap_state =
  mm_current :: "nat option"
  mm_on_key :: bool
  mm_contents :: "('k \<times> 'v) list"

definition multimap_impl :: "'k \<Rightarrow> 'v \<Rightarrow> 'k from_bulk \<Rightarrow> 'v from_bulk \<Rightarrow> ('k, 'v) multimap_state adapter" where
  "multimap_impl k0 v0 conv_k conv_v st nd =
     (if is_aggregate (data_type nd) then
        Inr (st, if element_multiplicity (data_type nd) \<noteq> 2
                 then Some (make_error_code expects_resp3_map) else None)
      else if aggregate_size nd \<noteq> 1 then Inl Assert_Failed
      else if depth nd < 1 then Inr (st, Some (make_error_code expects_resp3_map))
      else if mm_on_key st then
        andThen (conv_k k0 nd) (\<lambda>(k, ec).
          Inr (st\<lparr>mm_current := Some (length (mm_contents st)), mm_on_key := False,
                  mm_contents := mm_contents st @ [(k, v0)]\<rparr>, ec))
      else
        (case mm_current st of
           None \<Rightarrow> Inl Out_Of_Bounds
         | Some i \<Rightarrow>
             andThen (conv_v v0 nd) (\<lambda>(v, ec).
               Inr (st\<lparr>mm_on_key := True, mm_contents := (mm_contents st)[i := (fst (mm_contents st ! i), v)]\<rparr>, ec))))"

definition vector_impl :: "size_t \<Rightarrow> 'a \<Rightarrow> 'a from_bulk \<Rightarrow> 'a list adapter" where
  "vector_impl max_size init conv r nd =
     (if is_aggregate (data_type nd) then
        (if of_nat (length r) + element_multiplicity (data_type nd) * aggregate_size nd > max_size
         then Inl Length_Error else Inr (r, None))
      else andThen (conv init nd) (\<lambda>(v, ec). Inr (r @ [v], ec)))"

definition array_impl :: "'a from_bulk \<Rightarrow> (int \<times> 'a list) adapter" where
  "array_impl conv st nd =
     (case st of (i, r) \<Rightarrow>
        if is_aggregate (data_type nd) then
          (if i \<noteq> -1 then Inr (st, Some (make_error_code nested_aggregate_not_supported))
           else if of_nat (length r) \<noteq> aggregate_size nd * element_multiplicity (data_type nd)
           then Inr (st, Some (make_error_code incompatible_size))
           else Inr ((i + 1, r), None))
        else
          (if i = -1 then Inr (st, Some (make_error_code expects_resp3_aggregate))
           else if aggregate_size nd \<noteq> 1 then Inl Assert_Failed
           else if i < 0 \<or> nat i \<ge> length r then Inl Out_Of_Range
           else andThen (conv (r ! nat i) nd) (\<lambda>(v, ec). Inr ((i + 1, r[nat i := v]), ec))))"

definition list_impl :: "'a \<Rightarrow> 'a from_bulk \<Rightarrow> 'a list adapter" where
  "list_impl init conv r nd =
     (if \<not> is_aggregate (data_type nd) then
        (if aggregate_size nd \<noteq> 1 then Inl Assert_Failed
         else if depth nd < 1 then Inr (r, Some (make_error_code expects_resp3_aggregate))
         else andThen (conv init nd) (\<lambda>(v, ec). Inr (r @ [v], ec)))
      else Inr (r, None))"

subsection \<open>Wrappers\<close>

text \<open>
  The state of \<^verbatim>\<open>wrapper<result<T>>\<close>: the object it writes to, \<open>called_once_\<close> and the state of the
  implementation, which holds the value; \<open>v0\<close> is that state for the value \<open>T{}\<close>.
\<close>

record 'v wrapper =
  w_result :: "'v result"
  w_called_once :: bool

definition new_wrapper :: "'v \<Rightarrow> 'v wrapper" where
  "new_wrapper v0 = \<lparr>w_result = Inr v0, w_called_once = False\<rparr>"

text \<open>
  The constructors.  The first one calls \<open>value()\<close> on the object it is given, which may hold the
  error of an earlier reply; the one for \<^verbatim>\<open>std::optional\<close> leaves the object alone.
\<close>

definition wrapper_construct :: "'v \<Rightarrow> 'v result \<Rightarrow> fault + 'v wrapper" where
  "wrapper_construct v0 r =
     (case r of Inl _ \<Rightarrow> Inl Bad_Value_Access | Inr _ \<Rightarrow> Inr (new_wrapper v0))"

definition wrapper_optional_construct :: "'v option result \<Rightarrow> 'v option wrapper" where
  "wrapper_optional_construct r = \<lparr>w_result = r, w_called_once = False\<rparr>"

definition wrapper_call :: "'v adapter \<Rightarrow> 'v wrapper adapter" where
  "wrapper_call impl w nd =
     (case w_result w of
        Inl _ \<Rightarrow> Inr (w, None)
      | Inr v \<Rightarrow>
          if \<not> w_called_once w \<and> data_type nd \<in> {null_t, simple_error_t, blob_error_t}
          then Inr (w\<lparr>w_result := Inl (resp3_error_of nd), w_called_once := True\<rparr>, None)
          else andThen (impl v nd) (\<lambda>(v', ec). Inr (w\<lparr>w_result := Inr v', w_called_once := True\<rparr>, ec)))"

definition wrapper_optional_call :: "'v \<Rightarrow> 'v adapter \<Rightarrow> 'v option wrapper adapter" where
  "wrapper_optional_call v0 impl w nd =
     (case w_result w of
        Inl _ \<Rightarrow> Inr (w, None)
      | Inr op \<Rightarrow>
          if data_type nd \<in> {blob_error_t, simple_error_t}
          then Inr (w\<lparr>w_result := Inl (resp3_error_of nd)\<rparr>, None)
          else if \<not> w_called_once w \<and> data_type nd = null_t then Inr (w\<lparr>w_called_once := True\<rparr>, None)
          else andThen (impl (case op of None \<Rightarrow> v0 | Some v \<Rightarrow> v) nd)
                 (\<lambda>(v', ec). Inr (w\<lparr>w_result := Inr (Some v'), w_called_once := True\<rparr>, ec)))"

subsection \<open>Adapters of tuples\<close>

record 's static_aggregate =
  sa_i :: size_t
  sa_aggregate_size :: size_t
  sa_elements :: 's

definition static_aggregate_count :: "'s static_aggregate \<Rightarrow> node \<Rightarrow> 's static_aggregate" where
  "static_aggregate_count a nd =
     (let n = (if depth nd = 1 \<and> is_aggregate (data_type nd)
               then element_multiplicity (data_type nd) * aggregate_size nd else sa_aggregate_size a)
      in if n = 0 then a\<lparr>sa_i := sa_i a + 1, sa_aggregate_size := n\<rparr>
         else a\<lparr>sa_aggregate_size := n - 1\<rparr>)"

definition static_aggregate_adapter :: "'s adapter list \<Rightarrow> 's static_aggregate adapter" where
  "static_aggregate_adapter adapters a nd =
     (if depth nd = 0 then
        Inr (a, if aggregate_size nd * element_multiplicity (data_type nd) \<noteq> of_nat (length adapters)
                then Some (make_error_code incompatible_size) else None)
      else if unat (sa_i a) \<ge> length adapters then Inl Out_Of_Bounds
      else andThen ((adapters ! unat (sa_i a)) (sa_elements a) nd) (\<lambda>(s, ec).
             Inr (static_aggregate_count (a\<lparr>sa_elements := s\<rparr>) nd, ec)))"

subsection \<open>Adapters of requests\<close>

definition ignore_adapter :: "size_t \<Rightarrow> 's adapter" where
  "ignore_adapter i = ignore"

definition static_adapter :: "'s adapter list \<Rightarrow> size_t \<Rightarrow> 's adapter" where
  "static_adapter adapters i s nd =
     (if unat i \<ge> length adapters then Inl Assert_Failed else (adapters ! unat i) s nd)"

definition vector_adapter :: "size_t \<Rightarrow> node list result adapter" where
  "vector_adapter i = general_aggregate"

definition adapter_wrapper :: "(size_t \<Rightarrow> 's adapter) \<Rightarrow> 's adapter" where
  "adapter_wrapper A = A 0"

record 's any_adapter =
  adapt_fn :: "size_t \<Rightarrow> 's adapter"
  supported_response_size :: size_t

definition any_ignore :: "'s any_adapter" where
  "any_ignore = \<lparr>adapt_fn = ignore_adapter, supported_response_size = -1\<rparr>"

definition any_static :: "'s adapter list \<Rightarrow> 's any_adapter" where
  "any_static adapters =
     \<lparr>adapt_fn = static_adapter adapters, supported_response_size = of_nat (length adapters)\<rparr>"

definition any_vector :: "node list result any_adapter" where
  "any_vector = \<lparr>adapt_fn = vector_adapter, supported_response_size = -1\<rparr>"

subsection \<open>Consuming a response\<close>

definition consume_one :: "node list result \<Rightarrow> node list result \<times> error_code option" where
  "consume_one r =
     (case r of
        Inl _ \<Rightarrow> (r, None)
      | Inr [] \<Rightarrow> (r, None)
      | Inr (nd # ns) \<Rightarrow>
          if depth nd \<noteq> 0 then (r, Some (make_error_code incompatible_node_depth))
          else (Inr (dropWhile (\<lambda>e. depth e \<noteq> depth nd) ns), None))"

definition consume_one_or_throw :: "node list result \<Rightarrow> error_code + node list result" where
  "consume_one_or_throw r = (case consume_one r of (r', None) \<Rightarrow> Inr r' | (_, Some ec) \<Rightarrow> Inl ec)"

end
