(* ===== verification/Multiplexer.thy ===== *)
theory Multiplexer
  imports Adapters
begin

text \<open>
  The multiplexer: \<^verbatim>\<open>include/boost/redis/detail/multiplexer.hpp\<close>, \<^verbatim>\<open>impl/multiplexer.ipp\<close> and
  \<^verbatim>\<open>usage.hpp\<close>.  It owns the read and the write buffer, the parser and the queue of requests.

  The queue holds shared pointers to \<open>elem\<close> objects which the operation that waits for the
  request also holds.  A pointer is a number, \<open>m_heap\<close> is what it points to and \<open>m_brk\<close> is the
  next free one; there is no null pointer, so the assertions on null pointers have no
  counterpart.  \<open>'s\<close> is the state of the response objects the adapters write to.  The callback
  \<open>done_\<close> belongs to the client; \<open>e_done\<close> counts its calls.  A request is read through a pointer
  to \<open>const\<close> and stands for its value.
\<close>

section \<open>State\<close>

datatype status = waiting | staged | written

record usage =
  commands_sent :: size_t
  bytes_sent :: size_t
  responses_received :: size_t
  pushes_received :: size_t
  response_bytes_received :: size_t
  push_bytes_received :: size_t

type_synonym ptr = nat

record 's elem =
  e_req :: request
  e_adapter :: "size_t \<Rightarrow> 's adapter"
  e_remaining_responses :: size_t
  e_status :: status
  e_ec :: "error_code option"
  e_read_size :: size_t
  e_done :: nat

record 's multiplexer =
  m_read_buffer :: string
  m_write_buffer :: string
  m_reqs :: "ptr list"
  m_parser :: parser
  m_on_push :: bool
  m_cancel_run_called :: bool
  m_usage :: usage
  m_receive_adapter :: "'s adapter"
  m_heap :: "ptr \<Rightarrow> 's elem"
  m_brk :: ptr

section \<open>Requests in the queue\<close>

definition new_elem :: "request \<Rightarrow> (size_t \<Rightarrow> 's adapter) \<Rightarrow> 's elem" where
  "new_elem req adapter =
     \<lparr>e_req = req, e_adapter = adapter, e_remaining_responses = r_expected_responses req,
      e_status = waiting, e_ec = None, e_read_size = 0, e_done = 0\<rparr>"

text \<open>The closure the constructor of \<open>elem\<close> stores: the adapter gets the index of the response.\<close>

definition elem_adapter :: "'s elem \<Rightarrow> 's adapter" where
  "elem_adapter e = e_adapter e (r_expected_responses (e_req e) - e_remaining_responses e)"

definition notify_done :: "'s elem \<Rightarrow> 's elem" where
  "notify_done e = e\<lparr>e_done := e_done e + 1\<rparr>"

definition notify_error :: "error_code \<Rightarrow> 's elem \<Rightarrow> 's elem" where
  "notify_error ec e =
     notify_done (if e_ec e = None then e\<lparr>e_ec := Some ec\<rparr> else e)"

definition commit_response :: "size_t \<Rightarrow> 's elem \<Rightarrow> 's elem" where
  "commit_response read_size e =
     e\<lparr>e_remaining_responses := e_remaining_responses e - 1, e_read_size := e_read_size e + read_size\<rparr>"

definition is_waiting :: "'s elem \<Rightarrow> bool" where
  "is_waiting e \<longleftrightarrow> e_status e = waiting"

definition is_staged :: "'s elem \<Rightarrow> bool" where
  "is_staged e \<longleftrightarrow> e_status e = staged"

definition is_written :: "'s elem \<Rightarrow> bool" where
  "is_written e \<longleftrightarrow> e_status e = written"

definition mark :: "status \<Rightarrow> 's elem \<Rightarrow> 's elem" where
  "mark st e = e\<lparr>e_status := st\<rparr>"

text \<open>\<open>std::for_each\<close> over a part of the queue, with a function on the elements pointed to.\<close>

fun for_each :: "('s elem \<Rightarrow> 's elem) \<Rightarrow> ptr list \<Rightarrow> (ptr \<Rightarrow> 's elem) \<Rightarrow> ptr \<Rightarrow> 's elem" where
  "for_each f [] h = h"
| "for_each f (p # ps) h = for_each f ps (h(p := f (h p)))"

section \<open>Operations\<close>

definition new_usage :: usage where
  "new_usage = \<lparr>commands_sent = 0, bytes_sent = 0, responses_received = 0, pushes_received = 0,
     response_bytes_received = 0, push_bytes_received = 0\<rparr>"

definition new_multiplexer :: "'s adapter \<Rightarrow> (ptr \<Rightarrow> 's elem) \<Rightarrow> 's multiplexer" where
  "new_multiplexer receive h =
     \<lparr>m_read_buffer = [], m_write_buffer = [], m_reqs = [], m_parser = new_parser, m_on_push = False,
      m_cancel_run_called = False, m_usage = new_usage, m_receive_adapter = receive,
      m_heap = h, m_brk = 0\<rparr>"

definition make_elem ::
  "'s multiplexer \<Rightarrow> request \<Rightarrow> (size_t \<Rightarrow> 's adapter) \<Rightarrow> ptr \<times> 's multiplexer" where
  "make_elem m req adapter =
     (m_brk m, m\<lparr>m_heap := (m_heap m)(m_brk m := new_elem req adapter), m_brk := m_brk m + 1\<rparr>)"

text \<open>
  \<open>std::remove\<close> moves the other pointers to the front and \<open>erase\<close> removes the one element after
  them: erasing the end of the queue is undefined, and a pointer queued more than once leaves
  moved-from, null pointers behind, against the assertions of the other operations.
\<close>

definition remove_elem :: "'s multiplexer \<Rightarrow> ptr \<Rightarrow> fault + 's multiplexer \<times> bool" where
  "remove_elem m p =
     (if is_waiting (m_heap m p) then
        (let kept = filter (\<lambda>q. q \<noteq> p) (m_reqs m)
         in if length kept = length (m_reqs m) then Inl Out_Of_Bounds
            else if length kept + 1 < length (m_reqs m) then Inl Assert_Failed
            else Inr (m\<lparr>m_reqs := kept\<rparr>, True))
      else Inr (m, False))"

definition release_push_requests :: "'s multiplexer \<Rightarrow> 's multiplexer \<times> nat" where
  "release_push_requests m =
     (let (qs, point) = stable_partition (\<lambda>p. \<not> (is_written (m_heap m p)
            \<and> r_expected_responses (e_req (m_heap m p)) = 0)) (m_reqs m)
      in (m\<lparr>m_reqs := take point qs, m_heap := for_each notify_done (drop point qs) (m_heap m)\<rparr>,
          length qs - point))"

definition commit_write :: "'s multiplexer \<Rightarrow> 's multiplexer \<times> nat" where
  "commit_write m =
     release_push_requests
       (m\<lparr>m_write_buffer := [],
          m_heap := for_each (\<lambda>e. if is_staged e then mark written e else e) (m_reqs m) (m_heap m)\<rparr>)"

definition add :: "'s multiplexer \<Rightarrow> ptr \<Rightarrow> 's multiplexer" where
  "add m p =
     (let qs = m_reqs m @ [p]
      in if r_has_hello_priority (e_req (m_heap m p)) then
           (let n = partition_point (\<lambda>q. is_waiting (m_heap m q)) (rev qs)
            in m\<lparr>m_reqs := rev (rotate_prefix 1 n (rev qs))\<rparr>)
         else m\<lparr>m_reqs := qs\<rparr>)"

definition is_data_needed :: "'s multiplexer \<Rightarrow> bool" where
  "is_data_needed m \<longleftrightarrow> m_read_buffer m = []"

definition set_receive_response :: "'s multiplexer \<Rightarrow> (size_t \<Rightarrow> 's adapter) \<Rightarrow> 's multiplexer" where
  "set_receive_response m response = m\<lparr>m_receive_adapter := adapter_wrapper response\<rparr>"

definition is_next_push :: "'s multiplexer \<Rightarrow> fault + bool" where
  "is_next_push m =
     (case m_read_buffer m of
        [] \<Rightarrow> Inl Assert_Failed
      | c # _ \<Rightarrow>
          if to_type c = push_t then Inr True
          else (case m_reqs m of
                  [] \<Rightarrow> Inr True
                | p # _ \<Rightarrow>
                    if e_remaining_responses (m_heap m p) = 0 then Inr True
                    else Inr (is_waiting (m_heap m p))))"

definition is_waiting_response :: "'s multiplexer \<Rightarrow> bool" where
  "is_waiting_response m =
     (case m_reqs m of [] \<Rightarrow> False | p # _ \<Rightarrow> \<not> is_waiting (m_heap m p))"

definition is_writing :: "'s multiplexer \<Rightarrow> bool" where
  "is_writing m \<longleftrightarrow> m_write_buffer m \<noteq> []"

definition on_finish_parsing :: "'s multiplexer \<Rightarrow> bool \<Rightarrow> 's multiplexer \<times> nat" where
  "on_finish_parsing m is_push =
     (let consumed = get_consumed (m_parser m);
          u = m_usage m;
          u' = (if is_push
                then u\<lparr>pushes_received := pushes_received u + 1,
                       push_bytes_received := push_bytes_received u + of_nat consumed\<rparr>
                else u\<lparr>responses_received := responses_received u + 1,
                       response_bytes_received := response_bytes_received u + of_nat consumed\<rparr>)
      in (m\<lparr>m_read_buffer := drop consumed (m_read_buffer m), m_parser := reset (m_parser m),
           m_on_push := False, m_usage := u'\<rparr>, consumed))"

text \<open>
  The result of \<open>commit_read\<close>: the multiplexer, the response objects, the error the source
  returns through its reference argument, whether the message was a push (\<open>None\<close>: more data is
  needed) and its size.
\<close>

type_synonym 's read_result =
  "'s multiplexer \<times> 's \<times> error_code option \<times> bool option \<times> nat"

definition commit_read_push :: "'s multiplexer \<Rightarrow> 's \<Rightarrow> fault + 's read_result" where
  "commit_read_push m s =
     andThen (parse (m_receive_adapter m) (m_read_buffer m) (m_parser m) s) (\<lambda>(p, s', b, ec).
       let m = m\<lparr>m_parser := p\<rparr>
       in if \<not> b then Inr (m, s', ec, None, 0)
          else if ec \<noteq> None then Inr (m, s', ec, Some True, 0)
          else (let (m', n) = on_finish_parsing m True in Inr (m', s', None, Some True, n)))"

definition commit_read_response :: "'s multiplexer \<Rightarrow> 's \<Rightarrow> fault + 's read_result" where
  "commit_read_response m s =
     (case m_reqs m of
        [] \<Rightarrow> Inl Assert_Failed
      | q # qs \<Rightarrow>
          if \<not> is_waiting_response m \<or> e_remaining_responses (m_heap m q) = 0 then Inl Assert_Failed
          else
            andThen (parse (elem_adapter (m_heap m q)) (m_read_buffer m) (m_parser m) s) (\<lambda>(p, s', b, ec).
              let m = m\<lparr>m_parser := p\<rparr>
              in if \<not> b then Inr (m, s', ec, None, 0)
                 else (case ec of
                   Some err \<Rightarrow>
                     Inr (m\<lparr>m_heap := (m_heap m)(q := notify_error err (m_heap m q))\<rparr>, s', ec, Some False, 0)
                 | None \<Rightarrow>
                     let e = commit_response (of_nat (get_consumed p)) (m_heap m q);
                         m = (if e_remaining_responses e = 0
                              then m\<lparr>m_reqs := qs, m_heap := (m_heap m)(q := notify_done e)\<rparr>
                              else m\<lparr>m_heap := (m_heap m)(q := e)\<rparr>);
                         (m', n) = on_finish_parsing m False
                     in Inr (m', s', None, Some False, n))))"

definition commit_read :: "'s multiplexer \<Rightarrow> 's \<Rightarrow> fault + 's read_result" where
  "commit_read m s =
     andThen (if m_on_push m then Inr True else is_next_push m) (\<lambda>on_push.
       let m = m\<lparr>m_on_push := on_push\<rparr>
       in if on_push then commit_read_push m s else commit_read_response m s)"

definition mpx_reset :: "'s multiplexer \<Rightarrow> 's multiplexer" where
  "mpx_reset m =
     m\<lparr>m_read_buffer := [], m_write_buffer := [], m_parser := reset (m_parser m), m_on_push := False,
       m_cancel_run_called := False\<rparr>"

fun stage :: "ptr list \<Rightarrow> 's multiplexer \<Rightarrow> 's multiplexer" where
  "stage [] m = m"
| "stage (p # ps) m =
     (let e = m_heap m p
      in stage ps (m\<lparr>m_write_buffer := m_write_buffer m @ r_payload (e_req e),
           m_usage := (m_usage m)\<lparr>commands_sent := commands_sent (m_usage m) + r_commands (e_req e)\<rparr>,
           m_heap := (m_heap m)(p := mark staged e)\<rparr>))"

definition prepare_write :: "'s multiplexer \<Rightarrow> 's multiplexer \<times> nat" where
  "prepare_write m =
     (let point = partition_point (\<lambda>p. \<not> is_waiting (m_heap m p)) (m_reqs m);
          m' = stage (drop point (m_reqs m)) m
      in (m'\<lparr>m_usage := (m_usage m')\<lparr>bytes_sent :=
               bytes_sent (m_usage m') + of_nat (length (m_write_buffer m'))\<rparr>\<rparr>,
          length (m_reqs m) - point))"

text \<open>The common part of the two cancellations: notify and erase what does not satisfy \<open>keep\<close>.\<close>

definition cancel_unless :: "('s elem \<Rightarrow> bool) \<Rightarrow> 's multiplexer \<Rightarrow> 's multiplexer \<times> nat" where
  "cancel_unless keep m =
     (let (qs, point) = stable_partition (\<lambda>p. keep (m_heap m p)) (m_reqs m)
      in (m\<lparr>m_reqs := take point qs,
           m_heap := for_each (notify_error operation_aborted) (drop point qs) (m_heap m)\<rparr>,
          length qs - point))"

definition cancel_waiting :: "'s multiplexer \<Rightarrow> 's multiplexer \<times> nat" where
  "cancel_waiting m = cancel_unless (\<lambda>e. \<not> is_waiting e) m"

definition keep_on_conn_lost :: "'s elem \<Rightarrow> bool" where
  "keep_on_conn_lost e =
     (if is_waiting e then \<not> cancel_on_connection_lost (r_cfg (e_req e))
      else \<not> cancel_if_unresponded (r_cfg (e_req e)))"

definition cancel_on_conn_lost :: "'s multiplexer \<Rightarrow> 's multiplexer \<times> nat" where
  "cancel_on_conn_lost m =
     (if m_cancel_run_called m then (m, 0)
      else
        (let (m', n) = cancel_unless keep_on_conn_lost (m\<lparr>m_cancel_run_called := True\<rparr>)
         in (m'\<lparr>m_heap := for_each (mark waiting) (m_reqs m') (m_heap m')\<rparr>, n)))"

end
