(* ===== verification/Multiplexer_Queue.thy ===== *)
theory Multiplexer_Queue
  imports Multiplexer
begin

text \<open>
  The queue of the multiplexer.  \<open>queue_ok\<close> is its invariant: no request is queued twice, the
  requests are ordered written, staged, waiting, a request without outstanding responses is in
  the queue only until it is written.  Every operation keeps it, so the binary searches of
  \<open>prepare_write\<close> and \<open>add\<close> are searches in partitioned ranges.
\<close>

section \<open>The order of the states of a request\<close>

instantiation status :: linorder
begin

fun rank :: "status \<Rightarrow> nat" where
  "rank written = 0"
| "rank staged = 1"
| "rank waiting = 2"

definition less_eq_status :: "status \<Rightarrow> status \<Rightarrow> bool" where
  "less_eq_status a b \<longleftrightarrow> rank a \<le> rank b"

definition less_status :: "status \<Rightarrow> status \<Rightarrow> bool" where
  "less_status a b \<longleftrightarrow> rank a < rank b"

instance
proof
  fix a b :: status
  show "a \<le> b \<Longrightarrow> b \<le> a \<Longrightarrow> a = b"
    by (cases a; cases b; simp add: less_eq_status_def)
qed (auto simp: less_eq_status_def less_status_def)

end

lemma status_le_waiting [simp]: "st \<le> waiting"
  by (cases st) (simp_all add: less_eq_status_def)

lemma waiting_le [simp]: "waiting \<le> st \<longleftrightarrow> st = waiting"
  by (cases st) (simp_all add: less_eq_status_def)

lemma written_le [simp]: "written \<le> st"
  by (cases st) (simp_all add: less_eq_status_def)

lemma staged_le [simp]: "staged \<le> st \<longleftrightarrow> st \<noteq> written"
  by (cases st) (simp_all add: less_eq_status_def)

section \<open>Definitions\<close>

abbreviation st_of :: "'s multiplexer \<Rightarrow> ptr \<Rightarrow> status" where
  "st_of m p \<equiv> e_status (m_heap m p)"

abbreviation expected_of :: "'s multiplexer \<Rightarrow> ptr \<Rightarrow> size_t" where
  "expected_of m p \<equiv> r_expected_responses (e_req (m_heap m p))"

definition elem_ok :: "'s elem \<Rightarrow> bool" where
  "elem_ok e \<longleftrightarrow>
     e_remaining_responses e \<le> r_expected_responses (e_req e)
     \<and> (e_remaining_responses e = 0 \<longleftrightarrow> r_expected_responses (e_req e) = 0)
     \<and> (e_status e = written \<longrightarrow> r_expected_responses (e_req e) \<noteq> 0)"

definition queue_ok :: "'s multiplexer \<Rightarrow> bool" where
  "queue_ok m \<longleftrightarrow>
     distinct (m_reqs m)
     \<and> list_all (\<lambda>p. p < m_brk m) (m_reqs m)
     \<and> sorted (map (st_of m) (m_reqs m))
     \<and> list_all (\<lambda>p. elem_ok (m_heap m p)) (m_reqs m)"

section \<open>Lemmas\<close>

lemma for_each_apply:
  "distinct ps \<Longrightarrow> for_each f ps h p = (if p \<in> set ps then f (h p) else h p)"
  by (induction ps arbitrary: h) auto

lemmas elem_simps = new_elem_def notify_done_def notify_error_def commit_response_def mark_def
  is_waiting_def is_staged_def is_written_def

lemma elem_ok_notify [simp]: "elem_ok (notify_done e) = elem_ok e" "elem_ok (notify_error ec e) = elem_ok e"
  by (simp_all add: elem_ok_def elem_simps)

lemma status_notify [simp]:
  "e_status (notify_done e) = e_status e" "e_status (notify_error ec e) = e_status e"
  by (simp_all add: elem_simps)

lemma stable_partition_split:
  "stable_partition pr xs = (qs, n) \<Longrightarrow>
     take n qs = filter pr xs \<and> drop n qs = filter (\<lambda>x. \<not> pr x) xs
     \<and> length qs - n = length (filter (\<lambda>x. \<not> pr x) xs)"
  by (auto simp: stable_partition_def)

text \<open>
  A queue from which elements are dropped and whose states change by a monotone function: what
  every operation but \<open>add\<close> does to it.
\<close>

lemma queue_ok_update:
  assumes "queue_ok m" and "m_reqs m' = filter pr (m_reqs m)" and "m_brk m \<le> m_brk m'"
    and "mono f" and "\<And>p. p \<in> set (m_reqs m') \<Longrightarrow> st_of m' p = f (st_of m p) \<and> elem_ok (m_heap m' p)"
  shows "queue_ok m'"
proof -
  have "map (st_of m') (m_reqs m') = map f (map (st_of m) (filter pr (m_reqs m)))"
    using assms(2,5) by simp
  moreover have "sorted (map (st_of m) (filter pr (m_reqs m)))"
    using assms(1) by (simp add: queue_ok_def sorted_filter)
  ultimately have "sorted (map (st_of m') (m_reqs m'))"
    using assms(4) by (simp add: sorted_wrt_map sorted_wrt_mono_rel [rotated] monoD)
  with assms show ?thesis
    by (fastforce simp: queue_ok_def list_all_iff)
qed

lemma queue_ok_filter:
  assumes "queue_ok m" and "m_reqs m' = filter pr (m_reqs m)" and "m_brk m \<le> m_brk m'"
    and "\<And>p. p \<in> set (m_reqs m') \<Longrightarrow> st_of m' p = st_of m p \<and> elem_ok (m_heap m' p)"
  shows "queue_ok m'"
  using assms by (intro queue_ok_update [OF assms(1), where f = id]) (auto simp: mono_def)

lemma queue_ok_same:
  assumes "queue_ok m" and "m_reqs m' = m_reqs m" and "m_brk m \<le> m_brk m'"
    and "\<And>p. p \<in> set (m_reqs m') \<Longrightarrow> st_of m' p = st_of m p \<and> elem_ok (m_heap m' p)"
  shows "queue_ok m'"
  using assms by (intro queue_ok_filter [OF assms(1), where pr = "\<lambda>_. True"]) auto

lemma queue_okD:
  assumes "queue_ok m" and "p \<in> set (m_reqs m)"
  shows "p < m_brk m" and "elem_ok (m_heap m p)"
  using assms by (simp_all add: queue_ok_def list_all_iff)

lemma partitioned_Cons:
  "partitioned pr [] \<longleftrightarrow> True"
  "partitioned pr (x # xs) \<longleftrightarrow> (if pr x then partitioned pr xs else list_all (\<lambda>x. \<not> pr x) xs)"
  by (simp_all add: partitioned_def)

lemma queue_ok_partitioned:
  assumes "queue_ok m"
  shows "partitioned (\<lambda>p. \<not> is_waiting (m_heap m p)) (m_reqs m)"
    and "partitioned (\<lambda>p. is_waiting (m_heap m p)) (rev (m_reqs m))"
proof -
  have "sorted (map (st_of m) xs) \<Longrightarrow> partitioned (\<lambda>p. \<not> is_waiting (m_heap m p)) xs" for xs
    by (induction xs) (auto simp: partitioned_Cons is_waiting_def list_all_iff)
  then show p: "partitioned (\<lambda>p. \<not> is_waiting (m_heap m p)) (m_reqs m)"
    using assms by (simp add: queue_ok_def)
  from arg_cong [OF partitioned_filter [OF this], of rev]
  show "partitioned (\<lambda>p. is_waiting (m_heap m p)) (rev (m_reqs m))"
    by (simp only: partitioned_iff rev_append rev_filter not_not)
qed

lemma queue_ok_new: "queue_ok (new_multiplexer receive h)"
  by (simp add: queue_ok_def new_multiplexer_def)

lemma new_elem_ok: "elem_ok (new_elem req ad)" "e_status (new_elem req ad) = waiting"
  by (simp_all add: elem_ok_def new_elem_def)

lemma make_elem_fresh:
  assumes "queue_ok m" and "make_elem m req ad = (p, m')"
  shows "queue_ok m'" and "p \<notin> set (m_reqs m')" and "m_reqs m' = m_reqs m"
    and "m_heap m' p = new_elem req ad" and "p < m_brk m'"
proof -
  have fresh: "m_brk m \<notin> set (m_reqs m)" using queue_okD [OF assms(1)] by blast
  with assms show "queue_ok m'"
    by (intro queue_ok_same [OF assms(1)]) (auto simp: make_elem_def queue_okD)
  from assms fresh show "p \<notin> set (m_reqs m')" "m_reqs m' = m_reqs m" "m_heap m' p = new_elem req ad"
    "p < m_brk m'"
    by (auto simp: make_elem_def)
qed

text \<open>Where \<open>add\<close> puts a request.\<close>

lemma add_reqs:
  assumes "queue_ok m" and "is_waiting (m_heap m p)"
  shows "m_reqs (add m p) =
    (if r_has_hello_priority (e_req (m_heap m p))
     then filter (\<lambda>q. \<not> is_waiting (m_heap m q)) (m_reqs m) @ p # filter (\<lambda>q. is_waiting (m_heap m q)) (m_reqs m)
     else m_reqs m @ [p])"
proof -
  let ?w = "\<lambda>q. is_waiting (m_heap m q)" and ?qs = "m_reqs m"
  have pw: "partitioned ?w (rev ?qs)" by (rule queue_ok_partitioned [OF assms(1)])
  then have "partitioned ?w (p # rev ?qs)" using assms(2) by (simp add: partitioned_def)
  then have n: "partition_point ?w (rev (?qs @ [p])) = Suc (length (filter ?w ?qs))"
    using assms(2) partitioned_takeWhile_eq [OF pw] by (simp add: partition_point_eq rev_filter [symmetric])
  have "rev (filter ?w ?qs) @ rev (filter (\<lambda>q. \<not> ?w q) ?qs) = rev ?qs"
    using partitioned_filter [OF pw] by (simp only: rev_filter)
  then have "take (length (filter ?w ?qs)) (rev ?qs) = rev (filter ?w ?qs)"
    and "drop (length (filter ?w ?qs)) (rev ?qs) = rev (filter (\<lambda>q. \<not> ?w q) ?qs)"
    by (simp_all add: append_eq_conv_conj)
  with n show ?thesis by (simp add: add_def rotate_prefix_def)
qed

lemma sorted_insert_waiting:
  assumes "queue_ok m" and "is_waiting (m_heap m p)"
  shows "sorted (map (st_of m) (filter (\<lambda>q. \<not> is_waiting (m_heap m q)) (m_reqs m)
    @ p # filter (\<lambda>q. is_waiting (m_heap m q)) (m_reqs m)))"
    and "sorted (map (st_of m) (m_reqs m @ [p]))"
  using assms by (auto simp: queue_ok_def sorted_append sorted_filter is_waiting_def)

lemma add_frame: "m_heap (add m p) = m_heap m" "m_brk (add m p) = m_brk m"
  by (simp_all add: add_def Let_def)

lemma queue_ok_add:
  assumes "queue_ok m" and "is_waiting (m_heap m p)" and "p \<notin> set (m_reqs m)" and "p < m_brk m"
    and "elem_ok (m_heap m p)"
  shows "queue_ok (add m p)"
  using assms sorted_insert_waiting [OF assms(1,2)]
  by (auto simp: queue_ok_def add_reqs add_frame list_all_iff)

lemma remove_elem_ok:
  assumes "queue_ok m" and "p \<in> set (m_reqs m)"
  shows "remove_elem m p =
    (if is_waiting (m_heap m p) then Inr (m\<lparr>m_reqs := filter (\<lambda>q. q \<noteq> p) (m_reqs m)\<rparr>, True) else Inr (m, False))"
proof -
  have "distinct (m_reqs m)" using assms(1) by (simp add: queue_ok_def)
  then have "length (filter (\<lambda>q. q \<noteq> p) (m_reqs m)) + 1 = length (m_reqs m)"
    using assms(2) distinct_remove1_removeAll [of "m_reqs m" p] length_remove1 [of p "m_reqs m"]
      length_pos_if_in_set [OF assms(2)]
    by (simp add: removeAll_filter_not_eq neq_commute [of p])
  then show ?thesis by (simp add: remove_elem_def Let_def)
qed

lemma queue_ok_remove:
  assumes "queue_ok m" and "remove_elem m p = Inr (m', b)"
  shows "queue_ok m'"
  using assms
  by (auto simp: remove_elem_def Let_def queue_okD split: if_splits
      intro!: queue_ok_filter [OF assms(1), where pr = "\<lambda>q. q \<noteq> p"])

section \<open>Writing\<close>

lemma e_req_mark [simp]:
  "e_req (mark st e) = e_req e" "e_req (if q = p then mark st (h p) else h q) = e_req (h q)"
  by (simp_all add: mark_def)

lemma stage_eq:
  assumes "distinct ps"
  shows "stage ps m = m\<lparr>
      m_write_buffer := m_write_buffer m @ concat (map (\<lambda>p. r_payload (e_req (m_heap m p))) ps),
      m_usage := (m_usage m)\<lparr>commands_sent :=
        commands_sent (m_usage m) + sum_list (map (\<lambda>p. r_commands (e_req (m_heap m p))) ps)\<rparr>,
      m_heap := for_each (mark staged) ps (m_heap m)\<rparr>"
  using assms
proof (induction ps arbitrary: m)
  case (Cons p ps)
  then show ?case by (simp add: Let_def add.assoc)
qed simp

lemma prepare_write_eq:
  assumes "queue_ok m"
  shows "prepare_write m = (let ws = filter (\<lambda>p. is_waiting (m_heap m p)) (m_reqs m); m' = stage ws m
     in (m'\<lparr>m_usage := (m_usage m')\<lparr>bytes_sent :=
               bytes_sent (m_usage m') + of_nat (length (m_write_buffer m'))\<rparr>\<rparr>, length ws))"
proof -
  let ?nw = "\<lambda>p. \<not> is_waiting (m_heap m p)" and ?w = "\<lambda>p. is_waiting (m_heap m p)"
  have part: "partitioned ?nw (m_reqs m)" by (rule queue_ok_partitioned [OF assms])
  have "partition_point ?nw (m_reqs m) = length (filter ?nw (m_reqs m))"
    using part by (simp add: partition_point_eq partitioned_takeWhile_eq)
  moreover have "filter ?nw (m_reqs m) @ filter ?w (m_reqs m) = m_reqs m"
    using partitioned_filter [OF part] by (simp only: not_not)
  then have "drop (length (filter ?nw (m_reqs m))) (m_reqs m) = filter ?w (m_reqs m)"
    by (simp add: append_eq_conv_conj)
  moreover from this have "length (m_reqs m) - length (filter ?nw (m_reqs m)) = length (filter ?w (m_reqs m))"
    by (metis length_drop)
  ultimately show ?thesis by (simp add: prepare_write_def Let_def)
qed

lemma staged_mono: "mono (\<lambda>st. if st = waiting then staged else st)"
  by (auto intro!: monoI) (metis status.exhaust staged_le waiting_le written_le)

lemma written_mono: "mono (\<lambda>st. if st = staged then written else st)"
  by (auto intro!: monoI) (metis status.exhaust staged_le waiting_le written_le)

lemma elem_ok_mark: "elem_ok (mark st e) \<longleftrightarrow> e_remaining_responses e \<le> r_expected_responses (e_req e)
     \<and> (e_remaining_responses e = 0 \<longleftrightarrow> r_expected_responses (e_req e) = 0)
     \<and> (st = written \<longrightarrow> r_expected_responses (e_req e) \<noteq> 0)"
  by (simp add: elem_ok_def mark_def)

lemma queue_ok_distinct: "queue_ok m \<Longrightarrow> distinct (m_reqs m)"
  by (simp add: queue_ok_def)

text \<open>The effect of \<open>prepare_write\<close> on the components of the state.\<close>

lemma prepare_write_parts:
  assumes "queue_ok m" and "prepare_write m = (m', n)"
  defines "ws \<equiv> filter (\<lambda>p. is_waiting (m_heap m p)) (m_reqs m)"
  shows "m_reqs m' = m_reqs m" and "n = length ws" and "m_brk m' = m_brk m"
    and "m_write_buffer m' = m_write_buffer m @ concat (map (\<lambda>p. r_payload (e_req (m_heap m p))) ws)"
    and "m_heap m' p = (if p \<in> set ws then mark staged (m_heap m p) else m_heap m p)"
    and "m_usage m' = (m_usage m)\<lparr>
      commands_sent := commands_sent (m_usage m) + sum_list (map (\<lambda>p. r_commands (e_req (m_heap m p))) ws),
      bytes_sent := bytes_sent (m_usage m) + of_nat (length (m_write_buffer m'))\<rparr>"
    and "m_read_buffer m' = m_read_buffer m" and "m_parser m' = m_parser m"
    and "m_on_push m' = m_on_push m" and "m_cancel_run_called m' = m_cancel_run_called m"
    and "m_receive_adapter m' = m_receive_adapter m"
proof -
  have d: "distinct ws" using queue_ok_distinct [OF assms(1)] by (simp add: ws_def)
  have "(m', n) = (let m' = stage ws m
     in (m'\<lparr>m_usage := (m_usage m')\<lparr>bytes_sent :=
               bytes_sent (m_usage m') + of_nat (length (m_write_buffer m'))\<rparr>\<rparr>, length ws))"
    using prepare_write_eq [OF assms(1)] assms(2) by (simp add: ws_def Let_def)
  note eq = this [unfolded Let_def stage_eq [OF d], simplified]
  show "m_reqs m' = m_reqs m" "n = length ws" "m_brk m' = m_brk m"
    "m_write_buffer m' = m_write_buffer m @ concat (map (\<lambda>p. r_payload (e_req (m_heap m p))) ws)"
    "m_heap m' p = (if p \<in> set ws then mark staged (m_heap m p) else m_heap m p)"
    "m_read_buffer m' = m_read_buffer m" "m_parser m' = m_parser m"
    "m_on_push m' = m_on_push m" "m_cancel_run_called m' = m_cancel_run_called m"
    "m_receive_adapter m' = m_receive_adapter m"
    using eq by (simp_all add: for_each_apply [OF d])
  show "m_usage m' = (m_usage m)\<lparr>
      commands_sent := commands_sent (m_usage m) + sum_list (map (\<lambda>p. r_commands (e_req (m_heap m p))) ws),
      bytes_sent := bytes_sent (m_usage m) + of_nat (length (m_write_buffer m'))\<rparr>"
    using eq by simp
qed

lemma queue_ok_prepare_write:
  assumes "queue_ok m" and "prepare_write m = (m', n)"
  shows "queue_ok m'"
  using prepare_write_parts [OF assms] queue_okD [OF assms(1)]
  by (intro queue_ok_update [OF assms(1) _ _ staged_mono, where pr = "\<lambda>_. True"])
    (auto simp: is_waiting_def elem_ok_mark, simp_all add: elem_ok_def mark_def)

lemma release_push_requests_eq:
  "release_push_requests m =
    (let rel = \<lambda>p. is_written (m_heap m p) \<and> expected_of m p = 0
     in (m\<lparr>m_reqs := filter (\<lambda>p. \<not> rel p) (m_reqs m),
           m_heap := for_each notify_done (filter rel (m_reqs m)) (m_heap m)\<rparr>,
         length (filter rel (m_reqs m))))"
  by (simp add: release_push_requests_def stable_partition_def Let_def)

lemma commit_write_parts:
  assumes "queue_ok m" and "commit_write m = (m', n)"
  defines "rel \<equiv> \<lambda>p. is_staged (m_heap m p) \<and> expected_of m p = 0"
  shows "m_reqs m' = filter (\<lambda>p. \<not> rel p) (m_reqs m)" and "n = length (filter rel (m_reqs m))"
    and "m_write_buffer m' = []" and "m_brk m' = m_brk m"
    and "m_heap m' p = (if p \<notin> set (m_reqs m) then m_heap m p
      else if rel p then notify_done (mark written (m_heap m p))
      else if is_staged (m_heap m p) then mark written (m_heap m p) else m_heap m p)"
    and "m_usage m' = m_usage m" and "m_read_buffer m' = m_read_buffer m" and "m_parser m' = m_parser m"
    and "m_on_push m' = m_on_push m" and "m_cancel_run_called m' = m_cancel_run_called m"
    and "m_receive_adapter m' = m_receive_adapter m"
proof -
  let ?h = "for_each (\<lambda>e. if is_staged e then mark written e else e) (m_reqs m) (m_heap m)"
  let ?rel = "\<lambda>p. is_written (?h p) \<and> r_expected_responses (e_req (?h p)) = 0"
  note d = queue_ok_distinct [OF assms(1)]
  have h: "?h p = (if p \<in> set (m_reqs m) \<and> is_staged (m_heap m p) then mark written (m_heap m p) else m_heap m p)" for p
    by (simp add: for_each_apply [OF d])
  have rel: "?rel p \<longleftrightarrow> rel p" if "p \<in> set (m_reqs m)" for p
    using that queue_okD(2) [OF assms(1) that] unfolding h
    by (auto simp: rel_def mark_def is_written_def elem_ok_def is_staged_def)
  have fr: "filter ?rel (m_reqs m) = filter rel (m_reqs m)"
    "filter (\<lambda>p. \<not> ?rel p) (m_reqs m) = filter (\<lambda>p. \<not> rel p) (m_reqs m)"
    using rel by (auto intro: filter_cong)
  have eq: "(m', n) = (m\<lparr>m_write_buffer := [], m_reqs := filter (\<lambda>p. \<not> rel p) (m_reqs m),
      m_heap := for_each notify_done (filter rel (m_reqs m)) ?h\<rparr>, length (filter rel (m_reqs m)))"
    using assms(2) fr by (auto simp: commit_write_def release_push_requests_eq Let_def)
  show "m_reqs m' = filter (\<lambda>p. \<not> rel p) (m_reqs m)" "n = length (filter rel (m_reqs m))"
    "m_write_buffer m' = []" "m_brk m' = m_brk m"
    "m_usage m' = m_usage m" "m_read_buffer m' = m_read_buffer m" "m_parser m' = m_parser m"
    "m_on_push m' = m_on_push m" "m_cancel_run_called m' = m_cancel_run_called m"
    "m_receive_adapter m' = m_receive_adapter m"
    using eq by simp_all
  show "m_heap m' p = (if p \<notin> set (m_reqs m) then m_heap m p
      else if rel p then notify_done (mark written (m_heap m p))
      else if is_staged (m_heap m p) then mark written (m_heap m p) else m_heap m p)"
    using eq d by (simp add: for_each_apply h) (auto simp: rel_def)
qed

lemma queue_ok_commit_write:
  assumes "queue_ok m" and "commit_write m = (m', n)"
  shows "queue_ok m'"
  using commit_write_parts [OF assms] queue_okD [OF assms(1)]
  by (intro queue_ok_update [OF assms(1) _ _ written_mono])
    (auto simp: is_staged_def elem_ok_mark, simp_all add: elem_ok_def mark_def)

section \<open>Cancelling\<close>

lemma cancel_unless_parts:
  assumes "queue_ok m" and "cancel_unless keep m = (m', n)"
  shows "m_reqs m' = filter (\<lambda>p. keep (m_heap m p)) (m_reqs m)"
    and "n = length (filter (\<lambda>p. \<not> keep (m_heap m p)) (m_reqs m))"
    and "m_heap m' p = (if p \<in> set (m_reqs m) \<and> \<not> keep (m_heap m p)
      then notify_error operation_aborted (m_heap m p) else m_heap m p)"
    and "m' = m\<lparr>m_reqs := m_reqs m', m_heap := m_heap m'\<rparr>"
  using assms(2) queue_ok_distinct [OF assms(1)]
  by (auto simp: cancel_unless_def stable_partition_def for_each_apply)

lemma queue_ok_cancel_unless:
  assumes "queue_ok m" and "cancel_unless keep m = (m', n)"
  shows "queue_ok m'"
proof (rule queue_ok_filter [OF assms(1) cancel_unless_parts(1) [OF assms]])
  show "m_brk m \<le> m_brk m'" by (subst cancel_unless_parts(4) [OF assms]) simp
  show "st_of m' p = st_of m p \<and> elem_ok (m_heap m' p)" if "p \<in> set (m_reqs m')" for p
    using that cancel_unless_parts(1,3) [OF assms] queue_okD [OF assms(1)] by auto
qed

lemma queue_ok_cancel_waiting: "queue_ok m \<Longrightarrow> cancel_waiting m = (m', n) \<Longrightarrow> queue_ok m'"
  unfolding cancel_waiting_def by (rule queue_ok_cancel_unless)

lemma cancel_on_conn_lost_parts:
  assumes "queue_ok m" and "\<not> m_cancel_run_called m" and "cancel_on_conn_lost m = (m', n)"
  defines "keep \<equiv> \<lambda>p. keep_on_conn_lost (m_heap m p)"
  shows "m_reqs m' = filter keep (m_reqs m)" and "n = length (filter (\<lambda>p. \<not> keep p) (m_reqs m))"
    and "m_heap m' p = (if p \<notin> set (m_reqs m) then m_heap m p
      else if keep p then mark waiting (m_heap m p) else notify_error operation_aborted (m_heap m p))"
    and "m' = m\<lparr>m_reqs := m_reqs m', m_cancel_run_called := True, m_heap := m_heap m'\<rparr>"
proof -
  let ?m = "m\<lparr>m_cancel_run_called := True\<rparr>"
  have ok: "queue_ok ?m" by (rule queue_ok_same [OF assms(1)]) (use queue_okD [OF assms(1)] in auto)
  obtain m1 where c: "cancel_unless keep_on_conn_lost ?m = (m1, n)"
    and m': "m' = m1\<lparr>m_heap := for_each (mark waiting) (m_reqs m1) (m_heap m1)\<rparr>"
    using assms(2,3) by (auto simp: cancel_on_conn_lost_def split: prod.splits)
  note parts = cancel_unless_parts [OF ok c]
  note d = queue_ok_distinct [OF assms(1)]
  from parts(1,2) m' show "m_reqs m' = filter keep (m_reqs m)"
    "n = length (filter (\<lambda>p. \<not> keep p) (m_reqs m))"
    by (simp_all add: keep_def)
  from parts(1) parts(3) [of p] m' show "m_heap m' p = (if p \<notin> set (m_reqs m) then m_heap m p
      else if keep p then mark waiting (m_heap m p) else notify_error operation_aborted (m_heap m p))"
    by (simp add: keep_def for_each_apply d)
  show "m' = m\<lparr>m_reqs := m_reqs m', m_cancel_run_called := True, m_heap := m_heap m'\<rparr>"
    unfolding m' by (subst (1 3) parts(4)) simp
qed

lemma queue_ok_cancel_on_conn_lost:
  assumes "queue_ok m" and "cancel_on_conn_lost m = (m', n)"
  shows "queue_ok m'"
proof (cases "m_cancel_run_called m")
  case True
  with assms show ?thesis by (simp add: cancel_on_conn_lost_def)
next
  case False
  note parts = cancel_on_conn_lost_parts [OF assms(1) False assms(2)]
  show ?thesis
  proof (rule queue_ok_update [OF assms(1) parts(1), where f = "\<lambda>_. waiting"])
    show "m_brk m \<le> m_brk m'" by (subst parts(4)) simp
    show "st_of m' p = waiting \<and> elem_ok (m_heap m' p)" if "p \<in> set (m_reqs m')" for p
      using that parts(1,3) queue_okD(2) [OF assms(1)] by (auto simp: elem_ok_mark elem_ok_def mark_def)
  qed (simp add: mono_def)
qed

section \<open>Reading\<close>

lemma on_finish_parsing_queue:
  assumes "on_finish_parsing m b = (m', n)"
  shows "m_reqs m' = m_reqs m" "m_heap m' = m_heap m" "m_brk m' = m_brk m"
  using assms by (auto simp: on_finish_parsing_def Let_def)

lemma queue_ok_heap_brk:
  assumes "queue_ok m" and "m_reqs m' = m_reqs m" and "m_heap m' = m_heap m" and "m_brk m' = m_brk m"
  shows "queue_ok m'"
  using assms by (simp add: queue_ok_def)

lemma commit_response_ok:
  assumes "elem_ok e" and "e_remaining_responses e \<noteq> 0" and "e_remaining_responses (commit_response n e) \<noteq> 0"
  shows "elem_ok (commit_response n e)"
proof -
  have "e_remaining_responses e - 1 \<le> e_remaining_responses e"
    using assms(2) by (simp add: word_le_nat_alt unat_minus_one)
  with assms show ?thesis by (auto simp: elem_ok_def commit_response_def)
qed

end
