(* ===== verification/Multiplexer_Read.thy ===== *)
theory Multiplexer_Read
  imports Multiplexer_Queue
begin

text \<open>
  Reading: what one call of \<open>commit_read\<close> does, that every operation of the multiplexer keeps
  its invariant \<open>mpx_inv\<close>, and that messages are delivered to the requests in order.
\<close>

section \<open>One call of commit\_read\<close>

text \<open>The state after a complete message: counters, buffer and parser.\<close>

definition finish :: "'s multiplexer \<Rightarrow> bool \<Rightarrow> nat \<Rightarrow> 's multiplexer" where
  "finish m psh n =
     m\<lparr>m_read_buffer := drop n (m_read_buffer m), m_parser := new_parser, m_on_push := False,
       m_usage := (if psh
         then (m_usage m)\<lparr>pushes_received := pushes_received (m_usage m) + 1,
                push_bytes_received := push_bytes_received (m_usage m) + of_nat n\<rparr>
         else (m_usage m)\<lparr>responses_received := responses_received (m_usage m) + 1,
                response_bytes_received := response_bytes_received (m_usage m) + of_nat n\<rparr>)\<rparr>"

lemma on_finish_parsing_eq:
  "on_finish_parsing m psh = (finish m psh (get_consumed (m_parser m)), get_consumed (m_parser m))"
  by (simp add: on_finish_parsing_def finish_def reset_eq Let_def)

text \<open>The request at the front takes one response of \<open>n\<close> bytes.\<close>

definition take_response :: "'s multiplexer \<Rightarrow> nat \<Rightarrow> 's multiplexer" where
  "take_response m n =
     (let q = hd (m_reqs m); e = commit_response (of_nat n) (m_heap m q)
      in if e_remaining_responses e = 0
         then m\<lparr>m_reqs := tl (m_reqs m), m_heap := (m_heap m)(q := notify_done e)\<rparr>
         else m\<lparr>m_heap := (m_heap m)(q := e)\<rparr>)"

definition front_ready :: "'s multiplexer \<Rightarrow> bool" where
  "front_ready m \<longleftrightarrow> m_reqs m \<noteq> [] \<and> \<not> is_waiting (m_heap m (hd (m_reqs m)))
     \<and> e_remaining_responses (m_heap m (hd (m_reqs m))) \<noteq> 0"

lemma is_next_push_eq:
  "m_read_buffer m \<noteq> [] \<Longrightarrow>
     is_next_push m = Inr (to_type (hd (m_read_buffer m)) = push_t \<or> \<not> front_ready m)"
  by (auto simp: is_next_push_def front_ready_def split: list.splits)

text \<open>Who reads the next message: \<open>None\<close> is the receive adapter, otherwise the request at the front.\<close>

definition reads_push :: "'s multiplexer \<Rightarrow> bool" where
  "reads_push m \<longleftrightarrow> m_on_push m \<or> to_type (hd (m_read_buffer m)) = push_t \<or> \<not> front_ready m"

definition reader :: "'s multiplexer \<Rightarrow> 's adapter" where
  "reader m = (if reads_push m then m_receive_adapter m else elem_adapter (m_heap m (hd (m_reqs m))))"

definition read_outcome ::
  "'s multiplexer \<Rightarrow> parser \<times> 's \<times> bool \<times> error_code option \<Rightarrow> 's read_result" where
  "read_outcome m r =
     (case r of (p, s', b, ec) \<Rightarrow>
        let m1 = m\<lparr>m_on_push := reads_push m, m_parser := p\<rparr>; q = hd (m_reqs m)
        in if \<not> b then (m1, s', ec, None, 0)
           else (case ec of
             Some err \<Rightarrow>
               (if reads_push m then m1
                else m1\<lparr>m_heap := (m_heap m)(q := notify_error err (m_heap m q))\<rparr>,
                s', ec, Some (reads_push m), 0)
           | None \<Rightarrow>
               (finish (if reads_push m then m1 else take_response m1 (get_consumed p))
                  (reads_push m) (get_consumed p), s', None, Some (reads_push m), get_consumed p)))"

lemma take_response_frame [simp]:
  "m_parser (take_response m n) = m_parser m" "m_read_buffer (take_response m n) = m_read_buffer m"
  "m_usage (take_response m n) = m_usage m" "m_on_push (take_response m n) = m_on_push m"
  "m_receive_adapter (take_response m n) = m_receive_adapter m" "m_brk (take_response m n) = m_brk m"
  "m_cancel_run_called (take_response m n) = m_cancel_run_called m"
  "m_write_buffer (take_response m n) = m_write_buffer m"
  by (simp_all add: take_response_def Let_def)

lemma finish_frame [simp]:
  "m_reqs (finish m b n) = m_reqs m" "m_heap (finish m b n) = m_heap m" "m_brk (finish m b n) = m_brk m"
  "m_receive_adapter (finish m b n) = m_receive_adapter m" "m_parser (finish m b n) = new_parser"
  "m_read_buffer (finish m b n) = drop n (m_read_buffer m)" "m_on_push (finish m b n) = False"
  "m_cancel_run_called (finish m b n) = m_cancel_run_called m"
  "m_write_buffer (finish m b n) = m_write_buffer m"
  by (simp_all add: finish_def)

lemma commit_read_push_eq:
  assumes "reads_push m"
  shows "commit_read_push (m\<lparr>m_on_push := True\<rparr>) s =
    andThen (parse (reader m) (m_read_buffer m) (m_parser m) s) (\<lambda>r. Inr (read_outcome m r))"
  using assms
  by (cases "parse (reader m) (m_read_buffer m) (m_parser m) s")
    (auto simp: commit_read_push_def reader_def read_outcome_def on_finish_parsing_eq Let_def
      split: option.splits)

lemma commit_read_response_eq:
  assumes "\<not> reads_push m"
  shows "commit_read_response (m\<lparr>m_on_push := False\<rparr>) s =
    andThen (parse (reader m) (m_read_buffer m) (m_parser m) s) (\<lambda>r. Inr (read_outcome m r))"
proof -
  from assms obtain q qs where q: "m_reqs m = q # qs" "\<not> is_waiting (m_heap m q)"
    "e_remaining_responses (m_heap m q) \<noteq> 0" "reader m = elem_adapter (m_heap m q)"
    by (cases "m_reqs m") (auto simp: reads_push_def front_ready_def reader_def)
  have r: "reads_push m = False" using assms by simp
  show ?thesis
    using q(2,3)
    by (cases "parse (elem_adapter (m_heap m q)) (m_read_buffer m) (m_parser m) s")
      (auto simp: commit_read_response_def is_waiting_response_def q(1,4) read_outcome_def r
        on_finish_parsing_eq take_response_def Let_def split: option.splits)
qed

text \<open>The two branches of \<open>commit_read\<close> in one equation; its assertions hold.\<close>

lemma commit_read_eq:
  assumes "m_read_buffer m \<noteq> []"
  shows "commit_read m s =
    andThen (parse (reader m) (m_read_buffer m) (m_parser m) s) (\<lambda>r. Inr (read_outcome m r))"
proof (cases "reads_push m")
  case True
  then have "commit_read m s = commit_read_push (m\<lparr>m_on_push := True\<rparr>) s"
    by (auto simp: commit_read_def Let_def is_next_push_eq [OF assms] reads_push_def)
  with commit_read_push_eq [OF True] show ?thesis by simp
next
  case False
  then have "commit_read m s = commit_read_response (m\<lparr>m_on_push := False\<rparr>) s"
    by (auto simp: commit_read_def Let_def is_next_push_eq [OF assms] reads_push_def)
  with commit_read_response_eq [OF False] show ?thesis by simp
qed

lemma commit_read_cases:
  assumes "commit_read m s = Inr r"
  obtains pr where "m_read_buffer m \<noteq> [] \<or> m_on_push m"
    and "parse (reader m) (m_read_buffer m) (m_parser m) s = Inr pr" and "r = read_outcome m pr"
proof (cases "m_on_push m")
  case True
  then have "reads_push m" by (simp add: reads_push_def)
  with True assms commit_read_push_eq [of m s] that show thesis
    by (auto simp: commit_read_def Let_def andThen_Inr_iff)
next
  case False
  then have "m_read_buffer m \<noteq> []"
    using assms by (auto simp: commit_read_def is_next_push_def)
  with assms that show thesis by (auto simp: commit_read_eq andThen_Inr_iff)
qed

section \<open>The invariant\<close>

lemma queue_ok_take_response:
  assumes "queue_ok m" and "front_ready m"
  shows "queue_ok (take_response m n)"
proof -
  obtain q qs where q: "m_reqs m = q # qs" using assms(2) by (cases "m_reqs m") (auto simp: front_ready_def)
  let ?e = "commit_response (of_nat n) (m_heap m q)"
  have d: "q \<notin> set qs" using queue_ok_distinct [OF assms(1)] q by simp
  then have f: "filter (\<lambda>p. p \<noteq> q) qs = qs" by (auto intro: filter_True)
  note ok = queue_okD [OF assms(1)]
  show ?thesis
  proof (cases "e_remaining_responses ?e = 0")
    case True
    show ?thesis
      by (rule queue_ok_filter [OF assms(1), where pr = "\<lambda>p. p \<noteq> q"])
        (use True d ok in \<open>auto simp: take_response_def Let_def q f\<close>)
  next
    case False
    have "elem_ok ?e"
      using commit_response_ok [OF _ _ False] ok(2) assms(2) q by (simp add: front_ready_def)
    then show ?thesis
      by (intro queue_ok_same [OF assms(1)])
        (use False ok in \<open>auto simp: take_response_def Let_def q commit_response_def\<close>)
  qed
qed

text \<open>A message that has been read leaves the read buffer shorter.\<close>

lemma commit_read_shrinks:
  assumes "commit_read m s = Inr (m', s', None, Some b, n)"
  shows "m_read_buffer m' = drop n (m_read_buffer m) \<and> n \<noteq> 0"
proof -
  obtain p' s1 b1 e where pr: "parse (reader m) (m_read_buffer m) (m_parser m) s = Inr (p', s1, b1, e)"
      and out: "(m', s', None, Some b, n) = read_outcome m (p', s1, b1, e)"
    using assms by (rule commit_read_cases) (metis prod_cases4)
  have "b1" "e = None" "n = get_consumed p'" "m_read_buffer m' = drop n (m_read_buffer m)"
    using out by (auto simp: read_outcome_def Let_def split: if_splits option.splits)
  with pr parse_true_done [of "reader m" "m_read_buffer m" "m_parser m" s p' s1] show ?thesis
    by (simp add: parser_done_def get_consumed_def)
qed

lemma read_outcome_simps:
  "read_outcome m (p, s', False, ec) = (m\<lparr>m_on_push := reads_push m, m_parser := p\<rparr>, s', ec, None, 0)"
  "reads_push m \<Longrightarrow> read_outcome m (p, s', True, Some err) =
     (m\<lparr>m_on_push := True, m_parser := p\<rparr>, s', Some err, Some True, 0)"
  "\<not> reads_push m \<Longrightarrow> read_outcome m (p, s', True, Some err) =
     (m\<lparr>m_on_push := False, m_parser := p, m_heap := (m_heap m)
        (hd (m_reqs m) := notify_error err (m_heap m (hd (m_reqs m))))\<rparr>, s', Some err, Some False, 0)"
  "reads_push m \<Longrightarrow> read_outcome m (p, s', True, None) =
     (finish (m\<lparr>m_on_push := True, m_parser := p\<rparr>) True (get_consumed p), s', None, Some True, get_consumed p)"
  "\<not> reads_push m \<Longrightarrow> read_outcome m (p, s', True, None) =
     (finish (take_response (m\<lparr>m_on_push := False, m_parser := p\<rparr>) (get_consumed p)) False (get_consumed p),
      s', None, Some False, get_consumed p)"
  by (simp_all add: read_outcome_def Let_def)

lemma parse_result_cases:
  fixes r :: "parser \<times> 's \<times> bool \<times> error_code option"
  obtains (Need) p s' ec where "r = (p, s', False, ec)" 
    | (Error) p s' err where "r = (p, s', True, Some err)"
    | (Message) p s' where "r = (p, s', True, None)"
  by (metis (full_types) option.exhaust prod_cases4)

lemma queue_ok_commit_read:
  assumes "queue_ok m" and "commit_read m s = Inr r"
  shows "queue_ok (fst r)"
proof -
  obtain pr where out: "r = read_outcome m pr" using assms(2) by (rule commit_read_cases)
  have m1: "queue_ok (m\<lparr>m_on_push := x, m_parser := p\<rparr>)" for x p
    by (rule queue_ok_heap_brk [OF assms(1)]) simp_all
  have fin: "queue_ok (finish m b k)" if "queue_ok m" for m :: "'a multiplexer" and b k
    by (rule queue_ok_heap_brk [OF that]) simp_all
  show ?thesis
  proof (cases pr rule: parse_result_cases)
    case (Need p s' ec)
    with out m1 show ?thesis by (simp add: read_outcome_simps)
  next
    case (Error p s' err)
    have "queue_ok (m\<lparr>m_on_push := False, m_parser := p,
      m_heap := (m_heap m)(hd (m_reqs m) := notify_error err (m_heap m (hd (m_reqs m))))\<rparr>)"
      by (rule queue_ok_same [OF assms(1)]) (use queue_okD [OF assms(1)] in auto)
    with Error out m1 show ?thesis by (cases "reads_push m") (simp_all add: read_outcome_simps)
  next
    case (Message p s')
    have "front_ready (m\<lparr>m_on_push := False, m_parser := p\<rparr>)" if "\<not> reads_push m"
      using that by (auto simp: reads_push_def front_ready_def)
    with Message out show ?thesis
      by (cases "reads_push m") (simp_all add: read_outcome_simps fin m1 queue_ok_take_response)
  qed
qed

definition adapters_ok :: "('s \<Rightarrow> bool) \<Rightarrow> 's multiplexer \<Rightarrow> bool" where
  "adapters_ok I m \<longleftrightarrow> adapter_contract (m_receive_adapter m) I
     \<and> (\<forall>p \<in> set (m_reqs m). \<forall>i. adapter_contract (e_adapter (m_heap m p) i) I)"

definition mpx_inv :: "('s \<Rightarrow> bool) \<Rightarrow> 's multiplexer \<times> 's \<Rightarrow> bool" where
  "mpx_inv I c \<longleftrightarrow> (case c of (m, s) \<Rightarrow>
     queue_ok m \<and> parser_inv (m_read_buffer m) (m_parser m) \<and> length (m_read_buffer m) < 2 ^ 64
     \<and> adapters_ok I m \<and> I s)"

datatype 's mpx_event =
    Exec request "size_t \<Rightarrow> 's adapter"
  | Remove ptr
  | Prepare_write
  | Commit_write
  | Append string
  | Commit_read
  | Cancel_waiting
  | Cancel_on_conn_lost
  | Reset

text \<open>
  The operations of the multiplexer in any order.  The client queues new requests only, and the
  read buffer, bounded by the configuration, stays shorter than \<open>2 ^ 64\<close>.
\<close>

inductive mpx_step :: "'s multiplexer \<times> 's \<Rightarrow> 's mpx_event \<Rightarrow> 's multiplexer \<times> 's \<Rightarrow> bool" where
  "make_elem m req ad = (p, m') \<Longrightarrow> mpx_step (m, s) (Exec req ad) (add m' p, s)"
| "remove_elem m p = Inr (m', b) \<Longrightarrow> mpx_step (m, s) (Remove p) (m', s)"
| "prepare_write m = (m', n) \<Longrightarrow> mpx_step (m, s) Prepare_write (m', s)"
| "commit_write m = (m', n) \<Longrightarrow> mpx_step (m, s) Commit_write (m', s)"
| "length (m_read_buffer m @ d) < 2 ^ 64 \<Longrightarrow>
     mpx_step (m, s) (Append d) (m\<lparr>m_read_buffer := m_read_buffer m @ d\<rparr>, s)"
| "commit_read m s = Inr (m', s', ec, r, n) \<Longrightarrow> mpx_step (m, s) Commit_read (m', s')"
| "cancel_waiting m = (m', n) \<Longrightarrow> mpx_step (m, s) Cancel_waiting (m', s)"
| "cancel_on_conn_lost m = (m', n) \<Longrightarrow> mpx_step (m, s) Cancel_on_conn_lost (m', s)"
| "mpx_step (m, s) Reset (mpx_reset m, s)"

inductive_cases mpx_stepE: "mpx_step c ev c'"

lemma queue_ok_step:
  assumes "mpx_step c ev c'" and "queue_ok (fst c)"
  shows "queue_ok (fst c')"
  using assms
proof (induction rule: mpx_step.induct)
  case (1 m req ad p m' s)
  then show ?case
    using make_elem_fresh [of m req ad p m'] new_elem_ok [of req ad]
    by (auto intro!: queue_ok_add simp: is_waiting_def)
next
  case (6 m s m' s' ec r n)
  then show ?case using queue_ok_commit_read [of m s "(m', s', ec, r, n)"] by simp
next
  case (5 m d s)
  then show ?case by (simp add: queue_ok_def)
next
  case (9 m s)
  then show ?case by (simp add: queue_ok_def mpx_reset_def)
qed (simp_all only: fst_conv, (erule (1) queue_ok_remove queue_ok_prepare_write queue_ok_commit_write
    queue_ok_cancel_waiting queue_ok_cancel_on_conn_lost)+)

interpretation mpx_queue: step_invariant mpx_step "\<lambda>c. queue_ok (fst c)"
  by unfold_locales (rule queue_ok_step)

text \<open>What no operation changes: the requests, their adapters and the receive adapter.\<close>

definition static_part :: "'s multiplexer \<Rightarrow> (ptr \<Rightarrow> request \<times> (size_t \<Rightarrow> 's adapter)) \<times> 's adapter" where
  "static_part m = (\<lambda>p. (e_req (m_heap m p), e_adapter (m_heap m p)), m_receive_adapter m)"

lemma static_elem [simp]:
  "e_req (notify_done e) = e_req e" "e_adapter (notify_done e) = e_adapter e"
  "e_req (notify_error ec e) = e_req e" "e_adapter (notify_error ec e) = e_adapter e"
  "e_req (commit_response n e) = e_req e" "e_adapter (commit_response n e) = e_adapter e"
  "e_adapter (mark st e) = e_adapter e"
  by (simp_all add: elem_simps)

lemma for_each_keeps: "(\<And>e. g (f e) = g e) \<Longrightarrow> g (for_each f ps h p) = g (h p)"
  by (induction ps arbitrary: h) auto

lemma stage_static: "static_part (stage ps m) = static_part m \<and> m_reqs (stage ps m) = m_reqs m"
  by (induction ps arbitrary: m) (auto simp: static_part_def Let_def)

lemma static_prepare_write:
  "prepare_write m = (m', n) \<Longrightarrow> static_part m' = static_part m \<and> m_reqs m' = m_reqs m"
  using stage_static [of _ m] by (auto simp: prepare_write_def static_part_def Let_def)

lemma static_commit_write:
  "commit_write m = (m', n) \<Longrightarrow> static_part m' = static_part m \<and> set (m_reqs m') \<subseteq> set (m_reqs m)"
  by (auto simp: commit_write_def release_push_requests_eq static_part_def Let_def
      for_each_keeps [of e_req] for_each_keeps [of e_adapter])

lemma static_cancel_unless:
  "cancel_unless keep m = (m', n) \<Longrightarrow> static_part m' = static_part m \<and> set (m_reqs m') \<subseteq> set (m_reqs m)"
  by (auto simp: cancel_unless_def stable_partition_def static_part_def
      for_each_keeps [of e_req] for_each_keeps [of e_adapter])

lemma static_cancel_on_conn_lost:
  assumes "cancel_on_conn_lost m = (m', n)"
  shows "static_part m' = static_part m \<and> set (m_reqs m') \<subseteq> set (m_reqs m)"
proof -
  have "static_part (m\<lparr>m_cancel_run_called := True\<rparr>) = static_part m" by (simp add: static_part_def)
  with assms static_cancel_unless [of keep_on_conn_lost "m\<lparr>m_cancel_run_called := True\<rparr>"] show ?thesis
    by (auto simp: cancel_on_conn_lost_def static_part_def for_each_keeps [of e_req]
        for_each_keeps [of e_adapter] split: if_splits prod.splits)
qed

lemma static_remove_elem:
  "remove_elem m p = Inr (m', b) \<Longrightarrow> static_part m' = static_part m \<and> set (m_reqs m') \<subseteq> set (m_reqs m)"
  by (auto simp: remove_elem_def Let_def static_part_def split: if_splits)

lemma static_take_response:
  "m_reqs m \<noteq> [] \<Longrightarrow> static_part (take_response m n) = static_part m
     \<and> set (m_reqs (take_response m n)) \<subseteq> set (m_reqs m)"
  by (auto simp: take_response_def Let_def static_part_def intro: list.set_sel)

lemma static_commit_read:
  assumes "commit_read m s = Inr r"
  shows "static_part (fst r) = static_part m \<and> set (m_reqs (fst r)) \<subseteq> set (m_reqs m)"
proof -
  obtain pr where out: "r = read_outcome m pr" using assms by (rule commit_read_cases)
  have fin: "static_part (finish m b k) = static_part m" for m :: "'a multiplexer" and b k
    by (simp add: static_part_def)
  have m1: "static_part (m\<lparr>m_on_push := x, m_parser := p\<rparr>) = static_part m" for x p
    by (simp add: static_part_def)
  show ?thesis
  proof (cases pr rule: parse_result_cases)
    case (Need p s' ec)
    with out m1 show ?thesis by (simp add: read_outcome_simps)
  next
    case (Error p s' err)
    with out m1 show ?thesis
      by (cases "reads_push m") (auto simp: read_outcome_simps static_part_def)
  next
    case (Message p s')
    with out static_take_response [of "m\<lparr>m_on_push := False, m_parser := p\<rparr>"] show ?thesis
      by (cases "reads_push m") (auto simp: read_outcome_simps fin m1 reads_push_def front_ready_def)
  qed
qed

lemma adapters_ok_static:
  assumes "adapters_ok I m" and "static_part m' = static_part m" and "set (m_reqs m') \<subseteq> set (m_reqs m)"
  shows "adapters_ok I m'"
proof -
  have "e_adapter (m_heap m' p) = e_adapter (m_heap m p)" for p
    using assms(2) by (auto simp: static_part_def dest: fun_cong [of _ _ p])
  moreover have "m_receive_adapter m' = m_receive_adapter m" using assms(2) by (simp add: static_part_def)
  ultimately show ?thesis using assms(1,3) by (auto simp: adapters_ok_def)
qed

lemma reader_contract:
  assumes "adapters_ok I m"
  shows "adapter_contract (reader m) I"
  using assms
  by (auto simp: adapters_ok_def reader_def reads_push_def front_ready_def elem_adapter_def)

fun event_ok :: "('s \<Rightarrow> bool) \<Rightarrow> 's mpx_event \<Rightarrow> bool" where
  "event_ok I (Exec req ad) \<longleftrightarrow> (\<forall>i. adapter_contract (ad i) I)"
| "event_ok I _ \<longleftrightarrow> True"

lemma commit_read_inv:
  assumes "mpx_inv I (m, s)" and "commit_read m s = Inr r"
  shows "mpx_inv I (fst r, fst (snd r))"
proof -
  obtain pr where pr: "parse (reader m) (m_read_buffer m) (m_parser m) s = Inr pr" and out: "r = read_outcome m pr"
    using assms(2) by (rule commit_read_cases)
  have inv: "queue_ok m" "parser_inv (m_read_buffer m) (m_parser m)" "length (m_read_buffer m) < 2 ^ 64"
    "adapters_ok I m" "I s"
    using assms(1) by (simp_all add: mpx_inv_def)
  have I: "I (fst (snd pr))"
    using adapter_contract.parse_keeps [OF reader_contract [OF inv(4)] pr inv(5)] .
  have q: "queue_ok (fst r)" "adapters_ok I (fst r)"
    using queue_ok_commit_read [OF inv(1) assms(2)] static_commit_read [OF assms(2)]
      adapters_ok_static [OF inv(4)] by auto
  have p: "parser_inv (m_read_buffer m) (fst pr)"
    using pr parse_parser_inv [OF _ inv(2,3)] by (metis prod_cases4 fst_conv)
  show ?thesis
    using out q I p inv(3)
    by (cases pr rule: parse_result_cases; cases "reads_push m")
      (simp_all add: mpx_inv_def read_outcome_simps)
qed

lemma adapters_ok_exec:
  assumes "queue_ok m" and "adapters_ok I m" and "make_elem m req ad = (p, m')" and "\<forall>i. adapter_contract (ad i) I"
  shows "adapters_ok I (add m' p)" and "m_read_buffer (add m' p) = m_read_buffer m" and "m_parser (add m' p) = m_parser m"
proof -
  note mk = make_elem_fresh [OF assms(1,3)]
  have w: "is_waiting (m_heap m' p)" using mk(4) new_elem_ok(2) [of req ad] by (simp add: is_waiting_def)
  have "set (m_reqs (add m' p)) \<subseteq> insert p (set (m_reqs m))"
    by (auto simp: add_reqs [OF mk(1) w] mk(3))
  moreover have "m_heap m' q = m_heap m q" if "q \<in> set (m_reqs m)" for q
    using that mk(2,3) assms(3) by (auto simp: make_elem_def)
  moreover have "m_receive_adapter (add m' p) = m_receive_adapter m"
    using assms(3) by (auto simp: add_def make_elem_def Let_def)
  ultimately show "adapters_ok I (add m' p)"
    using assms(2,4) mk(4) by (auto simp: adapters_ok_def add_frame new_elem_def)
  show "m_read_buffer (add m' p) = m_read_buffer m" "m_parser (add m' p) = m_parser m"
    using assms(3) by (auto simp: add_def make_elem_def Let_def)
qed

lemma mpx_inv_step:
  assumes "mpx_step c ev c'" and "event_ok I ev" and "mpx_inv I c"
  shows "mpx_inv I c'"
proof -
  have q: "queue_ok (fst c')" using assms(1,3) by (auto simp: mpx_inv_def intro: queue_ok_step)
  from assms(1) q assms(2,3) show ?thesis
  proof (induction rule: mpx_step.induct)
    case (1 m req ad p m' s)
    then have "queue_ok m" "adapters_ok I m" by (simp_all add: mpx_inv_def)
    from adapters_ok_exec [OF this 1(1)] 1 show ?case by (simp add: mpx_inv_def)
  next
    case (6 m s m' s' ec r n)
    then show ?case using commit_read_inv [of I m s "(m', s', ec, r, n)"] by simp
  next
    case (5 m d s)
    then show ?case by (simp add: mpx_inv_def parser_inv_append adapters_ok_def)
  next
    case (9 m s)
    then show ?case by (simp add: mpx_inv_def mpx_reset_def reset_eq adapters_ok_def)
  next
    case (2 m p m' b s)
    then have "m_read_buffer m' = m_read_buffer m" "m_parser m' = m_parser m"
      by (auto simp: remove_elem_def Let_def split: if_splits)
    with 2 static_remove_elem [OF 2(1)] show ?case by (auto simp: mpx_inv_def intro: adapters_ok_static)
  next
    case (3 m m' n s)
    then show ?case
      using prepare_write_parts(7,8) [OF _ 3(1)] static_prepare_write [OF 3(1)]
      by (auto simp: mpx_inv_def intro: adapters_ok_static)
  next
    case (4 m m' n s)
    then show ?case
      using commit_write_parts(7,8) [OF _ 4(1)] static_commit_write [OF 4(1)]
      by (auto simp: mpx_inv_def intro: adapters_ok_static)
  next
    case (7 m m' n s)
    then have "m_read_buffer m' = m_read_buffer m" "m_parser m' = m_parser m"
      by (auto simp: cancel_waiting_def cancel_unless_def split: prod.splits)
    with 7 static_cancel_unless [OF 7(1) [unfolded cancel_waiting_def]] show ?case
      by (auto simp: mpx_inv_def intro: adapters_ok_static)
  next
    case (8 m m' n s)
    then have "m_read_buffer m' = m_read_buffer m" "m_parser m' = m_parser m"
      by (auto simp: cancel_on_conn_lost_def cancel_unless_def split: prod.splits if_splits)
    with 8 static_cancel_on_conn_lost [OF 8(1)] show ?case
      by (auto simp: mpx_inv_def intro: adapters_ok_static)
  qed
qed

interpretation mpx_safe: step_invariant "\<lambda>c ev c'. mpx_step c ev c' \<and> event_ok I ev" "mpx_inv I" for I
  by unfold_locales (auto intro: mpx_inv_step)

end
