(* ===== verification/Multiplexer_Delivery.thy ===== *)
theory Multiplexer_Delivery
  imports Multiplexer_Read
begin

text \<open>
  Delivery of whole messages.  \<open>dispatch\<close> specifies who gets which message of a sequence without
  buffers and without parsing: pushes go to the receive adapter, every other message to the
  request at the front of the queue, which leaves the queue with its last response.  The
  theorems show that \<open>commit_read\<close> implements it, however the bytes arrive.
\<close>

section \<open>Specification\<close>

definition is_push :: "resp \<Rightarrow> bool" where
  "is_push t \<longleftrightarrow> to_type (hd (encode t)) = push_t"

fun dispatch ::
  "'s adapter \<Rightarrow> (ptr \<Rightarrow> 's elem) \<Rightarrow> ptr list \<Rightarrow> 's \<Rightarrow> resp list \<Rightarrow> ((ptr \<Rightarrow> 's elem) \<times> ptr list \<times> 's) option"
where
  "dispatch R h qs s [] = Some (h, qs, s)"
| "dispatch R h qs s (t # ts) =
     (if is_push t then
        (case feed_nodes R s (nodes 0 t) of
           Inr (s', None) \<Rightarrow> dispatch R h qs s' ts
         | _ \<Rightarrow> None)
      else
        (case qs of
           [] \<Rightarrow> None
         | q # qs' \<Rightarrow>
             if is_waiting (h q) \<or> e_remaining_responses (h q) = 0 then None
             else
               (case feed_nodes (elem_adapter (h q)) s (nodes 0 t) of
                  Inr (s', None) \<Rightarrow>
                    (let e = commit_response (of_nat (length (encode t))) (h q)
                     in if e_remaining_responses e = 0
                        then dispatch R (h(q := notify_done e)) qs' s' ts
                        else dispatch R (h(q := e)) qs s' ts)
                | _ \<Rightarrow> None)))"

text \<open>The replies to the commands of one request go to its adapter with consecutive indices.\<close>

fun feed_replies ::
  "(size_t \<Rightarrow> 's adapter) \<Rightarrow> size_t \<Rightarrow> 's \<Rightarrow> resp list \<Rightarrow> fault + 's \<times> error_code option" where
  "feed_replies A i s [] = Inr (s, None)"
| "feed_replies A i s (t # ts) =
     (case feed_nodes (A i) s (nodes 0 t) of
        Inr (s', None) \<Rightarrow> feed_replies A (i + 1) s' ts
      | r \<Rightarrow> r)"

fun feed_queue :: "(ptr \<Rightarrow> 's elem) \<Rightarrow> 's \<Rightarrow> (ptr \<times> resp list) list \<Rightarrow> fault + 's \<times> error_code option" where
  "feed_queue h s [] = Inr (s, None)"
| "feed_queue h s ((q, ts) # qts) =
     (case feed_replies (e_adapter (h q)) (r_expected_responses (e_req (h q)) - e_remaining_responses (h q)) s ts of
        Inr (s', None) \<Rightarrow> feed_queue h s' qts
      | r \<Rightarrow> r)"

definition completed :: "'s elem \<Rightarrow> resp list \<Rightarrow> 's elem" where
  "completed e ts =
     e\<lparr>e_remaining_responses := 0,
       e_read_size := e_read_size e + of_nat (length (concat (map encode ts))), e_done := e_done e + 1\<rparr>"

definition received :: "resp list \<Rightarrow> usage \<Rightarrow> usage" where
  "received ts u =
     (let rs = filter (\<lambda>t. \<not> is_push t) ts; ps = filter is_push ts
      in u\<lparr>responses_received := responses_received u + of_nat (length rs),
           pushes_received := pushes_received u + of_nat (length ps),
           response_bytes_received := response_bytes_received u + of_nat (length (concat (map encode rs))),
           push_bytes_received := push_bytes_received u + of_nat (length (concat (map encode ps)))\<rparr>)"

definition idle :: "'s multiplexer \<Rightarrow> bool" where
  "idle m \<longleftrightarrow> m_parser m = new_parser \<and> \<not> m_on_push m"

section \<open>Lemmas\<close>

text \<open>One complete message at the front of the buffer.\<close>

lemma commit_read_message:
  assumes "idle m" and "m_read_buffer m = encode t @ rest" and "wf_resp 0 t"
    and "length (m_read_buffer m) < 2 ^ 64" and "feed_nodes (reader m) s (nodes 0 t) = Inr (s', None)"
  defines "n \<equiv> length (encode t)"
  shows "commit_read m s =
    Inr (finish (if reads_push m then m else take_response m n) (reads_push m) n, s', None,
      Some (reads_push m), n)"
proof -
  obtain p where p: "emits (m_read_buffer m) new_parser (nodes 0 t) p" "parser_done p" "get_consumed p = n"
    using encode_emits [OF assms(3), of rest] assms(2,4) unfolding n_def by metis
  have "parse (reader m) (m_read_buffer m) (m_parser m) s = Inr (p, s', True, None)"
    using emits_parse [OF p(1) assms(5)] parse_done [OF p(2)] assms(1) by (simp add: idle_def)
  moreover have "m_read_buffer m \<noteq> []" using assms(2) encode_nonempty [of t] by simp
  moreover have "finish (m\<lparr>m_on_push := x, m_parser := p\<rparr>) b n = finish m b n"
    "finish (take_response (m\<lparr>m_on_push := x, m_parser := p\<rparr>) n) b n = finish (take_response m n) b n"
    for x b
    by (simp_all add: finish_def take_response_def Let_def)
  ultimately show ?thesis
    using p(3) by (cases "reads_push m") (simp_all add: commit_read_eq read_outcome_simps)
qed

lemma hd_encode_append: "hd (encode t @ rest) = hd (encode t)"
  using encode_nonempty [of t] by (cases "encode t") simp_all

lemma received_Cons:
  "received (t # ts) (m_usage m) = received ts (m_usage (finish m (is_push t) (length (encode t))))"
  by (simp add: received_def finish_def Let_def algebra_simps)

lemma dispatch_Cons:
  assumes "dispatch R h qs s (t # ts) = Some r"
  shows "(is_push t \<and> (\<exists>s'. feed_nodes R s (nodes 0 t) = Inr (s', None) \<and> dispatch R h qs s' ts = Some r))
    \<or> (\<not> is_push t \<and> (\<exists>q qs' s' e. qs = q # qs' \<and> \<not> is_waiting (h q) \<and> e_remaining_responses (h q) \<noteq> 0
        \<and> feed_nodes (elem_adapter (h q)) s (nodes 0 t) = Inr (s', None)
        \<and> e = commit_response (of_nat (length (encode t))) (h q)
        \<and> (if e_remaining_responses e = 0 then dispatch R (h(q := notify_done e)) qs' s' ts
           else dispatch R (h(q := e)) qs s' ts) = Some r))"
  using assms by (auto simp: Let_def split: if_splits list.splits sum.splits prod.splits option.splits)

lemma dispatch_step:
  assumes "idle m" and "m_read_buffer m = encode t @ rest" and "wf_resp 0 t"
    and "length (m_read_buffer m) < 2 ^ 64"
    and "dispatch (m_receive_adapter m) (m_heap m) (m_reqs m) s (t # ts) = Some r"
  obtains m' s' where "commit_read m s = Inr (m', s', None, Some (is_push t), length (encode t))" and "idle m'" and "m_read_buffer m' = rest"
    and "m_receive_adapter m' = m_receive_adapter m" and "m_write_buffer m' = m_write_buffer m"
    and "dispatch (m_receive_adapter m) (m_heap m') (m_reqs m') s' ts = Some r"
    and "received ts (m_usage m') = received (t # ts) (m_usage m)"
proof -
  let ?n = "length (encode t)"
  let ?m' = "finish (if is_push t then m else take_response m ?n) (is_push t) ?n"
  have hd: "to_type (hd (m_read_buffer m)) = push_t \<longleftrightarrow> is_push t"
    by (simp add: assms(2) is_push_def hd_encode_append)
  obtain s' where s': "reads_push m = is_push t" "feed_nodes (reader m) s (nodes 0 t) = Inr (s', None)"
    "dispatch (m_receive_adapter m) (m_heap ?m') (m_reqs ?m') s' ts = Some r"
  proof (cases "is_push t")
    case True
    with dispatch_Cons [OF assms(5)] hd that show ?thesis by (auto simp: reads_push_def reader_def)
  next
    case False
    with dispatch_Cons [OF assms(5)] obtain q qs' s' where q: "m_reqs m = q # qs'"
      "\<not> is_waiting (m_heap m q)" "e_remaining_responses (m_heap m q) \<noteq> 0"
      "feed_nodes (elem_adapter (m_heap m q)) s (nodes 0 t) = Inr (s', None)"
      "dispatch (m_receive_adapter m) (m_heap (take_response m ?n)) (m_reqs (take_response m ?n)) s' ts = Some r"
      by (auto simp: take_response_def Let_def split: if_splits)
    moreover from q(1-3) False hd assms(1) have "\<not> reads_push m"
      by (simp add: reads_push_def front_ready_def idle_def)
    ultimately show ?thesis using False that by (simp add: reader_def)
  qed
  from commit_read_message [OF assms(1-4) s'(2)]
  have "commit_read m s = Inr (?m', s', None, Some (is_push t), ?n)" unfolding s'(1) .
  moreover have "received ts (m_usage ?m') = received (t # ts) (m_usage m)"
    using received_Cons [of t ts "if is_push t then m else take_response m ?n"] by (cases "is_push t") simp_all
  ultimately show thesis
    using s'(3) assms(2) by (intro that [of ?m' s']) (simp_all add: idle_def)
qed

lemma dispatch_steps:
  assumes "idle m" and "m_read_buffer m = concat (map encode ts) @ rest" and "list_all (wf_resp 0) ts"
    and "length (m_read_buffer m) < 2 ^ 64"
    and "dispatch (m_receive_adapter m) (m_heap m) (m_reqs m) s ts = Some (h', qs', s')"
  shows "\<exists>m'. steps mpx_step (m, s) (replicate (length ts) Commit_read) (m', s') \<and> idle m'
    \<and> m_heap m' = h' \<and> m_reqs m' = qs' \<and> m_read_buffer m' = rest \<and> m_usage m' = received ts (m_usage m)"
  using assms
proof (induction ts arbitrary: m s)
  case Nil
  then show ?case by (auto simp: received_def intro: steps_nil)
next
  case (Cons t ts)
  have "m_read_buffer m = encode t @ concat (map encode ts) @ rest" "wf_resp 0 t"
    using Cons.prems(2,3) by simp_all
  from dispatch_step [OF Cons.prems(1) this Cons.prems(4,5)]
  obtain m1 s1 where 1: "commit_read m s = Inr (m1, s1, None, Some (is_push t), length (encode t))" "idle m1"
    "m_read_buffer m1 = concat (map encode ts) @ rest" "m_receive_adapter m1 = m_receive_adapter m"
    "dispatch (m_receive_adapter m) (m_heap m1) (m_reqs m1) s1 ts = Some (h', qs', s')"
    "received ts (m_usage m1) = received (t # ts) (m_usage m)"
    by blast
  from Cons.IH [of m1 s1] 1 Cons.prems show ?case
    by (fastforce intro: steps_cons [where step = mpx_step, OF mpx_step.intros(6) [OF 1(1)]])
qed

section \<open>Replies in order\<close>

lemma dispatch_request:
  assumes "ts \<noteq> []" and "length ts = unat (e_remaining_responses (h q))" and "list_all (\<lambda>t. \<not> is_push t) ts"
    and "\<not> is_waiting (h q)"
    and "feed_replies (e_adapter (h q)) (r_expected_responses (e_req (h q)) - e_remaining_responses (h q)) s ts
      = Inr (s', None)"
  shows "dispatch R h (q # qs) s (ts @ us) = dispatch R (h(q := completed (h q) ts)) qs s' us"
  using assms
proof (induction ts arbitrary: h s)
  case Nil
  then show ?case by simp
next
  case (Cons t ts)
  let ?e = "commit_response (of_nat (length (encode t))) (h q)"
  have rem: "e_remaining_responses (h q) \<noteq> 0" using Cons.prems(2) by auto
  then have un: "unat (e_remaining_responses ?e) = length ts"
    using Cons.prems(2) by (simp add: commit_response_def unat_minus_one)
  from Cons.prems(5) obtain s1 where s1: "feed_nodes (elem_adapter (h q)) s (nodes 0 t) = Inr (s1, None)"
    "feed_replies (e_adapter (h q)) (r_expected_responses (e_req (h q)) - e_remaining_responses (h q) + 1) s1 ts
      = Inr (s', None)"
    by (auto simp: elem_adapter_def split: sum.splits prod.splits option.splits)
  show ?case
  proof (cases "ts = []")
    case True
    then have "e_remaining_responses ?e = 0" using un by (simp add: unat_eq_0)
    moreover from this have "notify_done ?e = completed (h q) [t]"
      by (simp add: completed_def notify_done_def commit_response_def)
    ultimately show ?thesis using True rem s1 Cons.prems by (simp add: Let_def fun_upd_def)
  next
    case False
    then have "e_remaining_responses ?e \<noteq> 0" using un by auto
    moreover have "completed ?e ts = completed (h q) (t # ts)"
      by (simp add: completed_def commit_response_def add.assoc)
    moreover have "feed_replies (e_adapter ?e) (r_expected_responses (e_req ?e) - e_remaining_responses ?e) s1 ts
        = Inr (s', None)"
      using s1(2) by (simp add: commit_response_def algebra_simps)
    then have "dispatch R (h(q := ?e)) (q # qs) s1 (ts @ us) =
        dispatch R ((h(q := ?e))(q := completed ((h(q := ?e)) q) ts)) qs s' us"
      using False un Cons.prems(3,4)
      by (intro Cons.IH) (simp_all add: is_waiting_def commit_response_def)
    ultimately have "dispatch R (h(q := ?e)) (q # qs) s1 (ts @ us) =
        dispatch R (h(q := completed (h q) (t # ts))) qs s' us"
      by (simp only: fun_upd_same fun_upd_upd)
    with \<open>e_remaining_responses ?e \<noteq> 0\<close> rem s1(1) Cons.prems(3,4) show ?thesis
      by (simp add: Let_def del: fun_upd_apply)
  qed
qed

lemma dispatch_queue:
  assumes "list_all (\<lambda>(q, ts). ts \<noteq> [] \<and> length ts = unat (e_remaining_responses (h q))
      \<and> list_all (\<lambda>t. \<not> is_push t) ts \<and> \<not> is_waiting (h q)) qts"
    and "distinct (map fst qts)" and "feed_queue h s qts = Inr (s', None)"
  shows "dispatch R h (map fst qts @ qs) s (concat (map snd qts)) =
    Some (\<lambda>p. case map_of qts p of None \<Rightarrow> h p | Some ts \<Rightarrow> completed (h p) ts, qs, s')"
  using assms
proof (induction qts arbitrary: h s)
  case (Cons qt qts)
  obtain q ts where qt: "qt = (q, ts)" by (cases qt)
  let ?h = "h(q := completed (h q) ts)"
  from Cons.prems(3) qt obtain s1 where s1: "feed_replies (e_adapter (h q))
      (r_expected_responses (e_req (h q)) - e_remaining_responses (h q)) s ts = Inr (s1, None)"
    "feed_queue h s1 qts = Inr (s', None)"
    by (auto split: sum.splits prod.splits option.splits)
  have q: "q \<notin> set (map fst qts)" using Cons.prems(2) qt by simp
  have same: "feed_queue ?h s qts = feed_queue h s qts" for s
    using q by (induction qts arbitrary: s) (auto split: sum.splits prod.splits option.splits)
  have "dispatch R h (q # map fst qts @ qs) s (ts @ concat (map snd qts)) =
      dispatch R ?h (map fst qts @ qs) s1 (concat (map snd qts))"
    using Cons.prems(1) qt by (intro dispatch_request [where h = h and q = q, OF _ _ _ _ s1(1)]) simp_all
  also have "\<dots> = Some (\<lambda>p. case map_of qts p of None \<Rightarrow> ?h p | Some ts \<Rightarrow> completed (?h p) ts, qs, s')"
  proof (rule Cons.IH)
    have "?h p = h p" if "p \<in> fst ` set qts" for p using that q by auto
    with Cons.prems(1) show "list_all (\<lambda>(p, ts). ts \<noteq> [] \<and> length ts = unat (e_remaining_responses (?h p))
      \<and> list_all (\<lambda>t. \<not> is_push t) ts \<and> \<not> is_waiting (?h p)) qts"
      unfolding list_all_iff by (fastforce simp del: fun_upd_apply)
    show "distinct (map fst qts)" using Cons.prems(2) by simp
    show "feed_queue ?h s1 qts = Inr (s', None)" unfolding same by (rule s1(2))
  qed
  also have "(\<lambda>p. case map_of qts p of None \<Rightarrow> ?h p | Some ts \<Rightarrow> completed (?h p) ts) =
      (\<lambda>p. case map_of (qt # qts) p of None \<Rightarrow> h p | Some ts \<Rightarrow> completed (h p) ts)"
    using q qt by (intro ext) (simp add: map_of_eq_None_iff [THEN iffD2] split: option.split)
  finally show ?case using qt by simp
qed simp

section \<open>Resuming a partial message\<close>

lemma commit_read_need:
  assumes "commit_read m s = Inr (m1, s1, ec, None, n)" and "m_read_buffer m \<noteq> []"
  obtains p1 where "parse (reader m) (m_read_buffer m) (m_parser m) s = Inr (p1, s1, False, ec)"
    and "m1 = m\<lparr>m_on_push := reads_push m, m_parser := p1\<rparr>"
proof -
  obtain pr where "parse (reader m) (m_read_buffer m) (m_parser m) s = Inr pr"
    "(m1, s1, ec, None, n) = read_outcome m pr"
    using commit_read_cases [OF assms(1)] by blast
  with that show thesis
    by (cases pr rule: parse_result_cases; cases "reads_push m") (simp_all add: read_outcome_simps)
qed

lemma read_outcome_resume:
  assumes "m' = m\<lparr>m_on_push := reads_push m, m_parser := p\<rparr>" and "reads_push m' = reads_push m"
  shows "read_outcome m' r = read_outcome m r"
proof (cases r rule: parse_result_cases)
  case (Message q s')
  have "finish (take_response (m\<lparr>m_on_push := x, m_parser := a, m_on_push := y, m_parser := b\<rparr>) n) c n =
      finish (take_response (m\<lparr>m_on_push := y, m_parser := b\<rparr>) n) c n" for x y a b c n
    by (simp add: finish_def take_response_def Let_def)
  with Message assms show ?thesis by (cases "reads_push m") (simp_all add: read_outcome_simps)
qed (use assms in \<open>cases "reads_push m"; simp add: read_outcome_simps\<close>)+

end
