(* ===== verification/Multiplexer_Properties.thy ===== *)
theory Multiplexer_Properties
  imports Multiplexer_Delivery
begin

text \<open>
  The properties of the multiplexer: the queue invariant in every reachable state, the effect of
  each operation on the queue, the buffers and the counters, and the histories in which the
  operations do not fit together.
\<close>

section \<open>Concrete multiplexers\<close>

text \<open>An adapter that records what it is given, and multiplexers with one request per state.\<close>

definition recorder :: "size_t \<Rightarrow> (size_t \<times> node) list adapter" where
  "recorder i ns nd = Inr (ns @ [(i, nd)], None)"

definition ping_request :: request where
  "ping_request = (new_request default_request_config)
     \<lparr>r_payload := ''PING'', r_commands := 1, r_expected_responses := 1\<rparr>"

definition ping_elem :: "status \<Rightarrow> (size_t \<times> node) list elem" where
  "ping_elem st = (new_elem ping_request recorder)\<lparr>e_status := st\<rparr>"

definition ping_mpx :: "status list \<Rightarrow> string \<Rightarrow> (size_t \<times> node) list multiplexer" where
  "ping_mpx sts buffer =
     (new_multiplexer (recorder 0) (\<lambda>p. ping_elem (if p < length sts then sts ! p else waiting)))
       \<lparr>m_reqs := [0..<length sts], m_brk := length sts, m_read_buffer := buffer\<rparr>"

lemmas ping_defs = ping_mpx_def ping_elem_def ping_request_def new_multiplexer_def new_elem_def new_request_def
  default_request_config_def

interpretation recorder: adapter_contract "recorder i" "\<lambda>_. True" for i
  by unfold_locales (simp add: recorder_def)

lemma queue_ok_ping_mpx: "sorted sts \<Longrightarrow> queue_ok (ping_mpx sts buffer)"
proof -
  assume "sorted sts"
  moreover have "map (\<lambda>p. if p < length sts then sts ! p else waiting) [0..<length sts] = sts"
    by (rule nth_equalityI) simp_all
  ultimately show ?thesis
    by (simp add: queue_ok_def ping_defs elem_ok_def list_all_iff)
qed

definition pong :: resp where
  "pong = Simple simple_string_t ''PONG''"

definition hello_push :: resp where
  "hello_push = Aggr push_t [Simple simple_string_t ''hi'']"

lemma encode_examples:
  "encode pong = ''+PONG'' @ sep" "encode hello_push = ''>1'' @ sep @ ''+hi'' @ sep"
  by code_simp+

lemma is_push_examples: "\<not> is_push pong" "is_push hello_push"
  by code_simp+

lemma wf_examples: "wf_resp 0 pong" "wf_resp 0 hello_push"
  by code_simp+

lemma nodes_examples:
  "nodes 0 pong = [mk_node simple_string_t 1 0 ''PONG'']"
  "nodes 0 hello_push = [mk_node push_t 1 0 [], mk_node simple_string_t 1 1 ''hi'']"
  by code_simp+

lemma length_examples: "length (encode pong) = 7" "length (encode hello_push) = 9"
  by code_simp+

section \<open>Delivery\<close>

text \<open>
  C8: \<open>commit_read\<close> implements the dispatch of messages.  If the read buffer holds the encodings of
  the messages \<open>ts\<close> and possibly more, then one call of \<open>commit_read\<close> per message delivers
  pushes to the receive adapter and the other messages to the request at the front of the queue
  and counts them, and leaves the rest of the buffer and a parser ready for the next message.
\<close>

theorem commit_read_dispatch:
  assumes "idle m" and "m_read_buffer m = concat (map encode ts) @ rest" and "list_all (wf_resp 0) ts"
    and "length (m_read_buffer m) < 2 ^ 64"
    and "dispatch (m_receive_adapter m) (m_heap m) (m_reqs m) s ts = Some (h', qs', s')"
  shows "\<exists>m'. steps mpx_step (m, s) (replicate (length ts) Commit_read) (m', s') \<and> idle m'
    \<and> m_heap m' = h' \<and> m_reqs m' = qs' \<and> m_read_buffer m' = rest \<and> m_usage m' = received ts (m_usage m)"
  using dispatch_steps [OF assms] .

theorem commit_read_dispatch_witness:
  "\<exists>m'. steps mpx_step (ping_mpx [written] (encode hello_push @ encode pong), []) [Commit_read, Commit_read]
        (m', [(0, mk_node push_t 1 0 []), (0, mk_node simple_string_t 1 1 ''hi''),
              (0, mk_node simple_string_t 1 0 ''PONG'')])
    \<and> m_reqs m' = [] \<and> m_read_buffer m' = []"
proof -
  let ?m = "ping_mpx [written] (encode hello_push @ encode pong)"
  let ?s = "[(0, mk_node push_t 1 0 []), (0, mk_node simple_string_t 1 1 ''hi''),
    (0, mk_node simple_string_t 1 0 ''PONG'')]"
  have "\<exists>h'. dispatch (m_receive_adapter ?m) (m_heap ?m) (m_reqs ?m) [] [hello_push, pong] = Some (h', [], ?s)"
    by (simp add: ping_defs is_push_examples nodes_examples recorder_def is_waiting_def elem_adapter_def
        commit_response_def)
  then obtain h' where h': "dispatch (m_receive_adapter ?m) (m_heap ?m) (m_reqs ?m) [] [hello_push, pong]
      = Some (h', [], ?s)" ..
  have "idle ?m" "m_read_buffer ?m = concat (map encode [hello_push, pong]) @ []"
    "length (m_read_buffer ?m) < 2 ^ 64"
    by (simp_all add: idle_def ping_defs length_examples)
  with commit_read_dispatch [OF _ _ _ _ h', of "[]"] wf_examples show ?thesis
    by (auto simp: numeral_2_eq_2)
qed

text \<open>
  C2: every request gets the replies to its commands, in the order in which the requests were
  written.  If the queue starts with requests that wait for their replies and the buffer holds
  these replies, request by request, then after one \<open>commit_read\<close> per reply the adapter of each
  request has been fed its own replies with the indices of its commands, each request has been
  notified exactly once with the number of bytes of its replies, all of them have left the queue
  and no other request has changed.
\<close>

theorem replies_in_order:
  assumes "idle m" and "m_reqs m = map fst qts @ qs" and "distinct (map fst qts)"
    and "list_all (\<lambda>(q, ts). ts \<noteq> [] \<and> length ts = unat (e_remaining_responses (m_heap m q))
      \<and> list_all (\<lambda>t. \<not> is_push t) ts \<and> \<not> is_waiting (m_heap m q)) qts"
    and "list_all (wf_resp 0) (concat (map snd qts))"
    and "m_read_buffer m = concat (map encode (concat (map snd qts))) @ rest"
    and "length (m_read_buffer m) < 2 ^ 64" and "feed_queue (m_heap m) s qts = Inr (s', None)"
  shows "\<exists>m'. steps mpx_step (m, s) (replicate (length (concat (map snd qts))) Commit_read) (m', s')
    \<and> idle m' \<and> m_reqs m' = qs \<and> m_read_buffer m' = rest
    \<and> m_heap m' = (\<lambda>p. case map_of qts p of None \<Rightarrow> m_heap m p | Some ts \<Rightarrow> completed (m_heap m p) ts)"
  using dispatch_steps [OF assms(1,6,5,7)] dispatch_queue [OF assms(4,3,8), of "m_receive_adapter m" qs]
    assms(2) by fastforce

theorem replies_in_order_witness:
  "\<exists>m'. steps mpx_step (ping_mpx [written, staged, waiting] (encode pong @ encode pong), []) [Commit_read, Commit_read]
        (m', [(0, mk_node simple_string_t 1 0 ''PONG''), (0, mk_node simple_string_t 1 0 ''PONG'')])
    \<and> m_reqs m' = [2] \<and> m_read_buffer m' = []"
proof -
  let ?m = "ping_mpx [written, staged, waiting] (encode pong @ encode pong)"
  let ?qts = "[(0 :: ptr, [pong]), (1, [pong])]"
  have feed: "feed_queue (m_heap ?m) [] ?qts =
      Inr ([(0, mk_node simple_string_t 1 0 ''PONG''), (0, mk_node simple_string_t 1 0 ''PONG'')], None)"
    by (simp add: ping_defs nodes_examples recorder_def)
  have m: "idle ?m" "m_reqs ?m = map fst ?qts @ [2]" "distinct (map fst ?qts)"
    "m_read_buffer ?m = concat (map encode (concat (map snd ?qts))) @ []" "length (m_read_buffer ?m) < 2 ^ 64"
    by (simp_all add: idle_def ping_defs length_examples upt_rec)
  have queue: "list_all (\<lambda>(q, ts). ts \<noteq> [] \<and> length ts = unat (e_remaining_responses (m_heap ?m q))
      \<and> list_all (\<lambda>t. \<not> is_push t) ts \<and> \<not> is_waiting (m_heap ?m q)) ?qts"
    by (simp add: ping_defs is_push_examples is_waiting_def)
  have "list_all (wf_resp 0) (concat (map snd ?qts))" by (simp add: wf_examples)
  from replies_in_order [OF m(1-3) queue this m(4,5) feed] show ?thesis by (auto simp: numeral_2_eq_2)
qed

text \<open>
  A message that arrives in parts is delivered to the reader it was started with.  If
  \<open>commit_read\<close> asks for more data, calling it again after any data has been appended gives
  what one call on the longer buffer would have given.
\<close>

theorem commit_read_resume:
  assumes "commit_read m s = Inr (m1, s1, ec, None, n)" and "m_read_buffer m \<noteq> []"
    and "length (m_read_buffer m @ d) < 2 ^ 64" and "lengths_fit (m_read_buffer m)" and "bulk_fits (m_parser m)"
  shows "commit_read (m1\<lparr>m_read_buffer := m_read_buffer m @ d\<rparr>) s1 =
    commit_read (m\<lparr>m_read_buffer := m_read_buffer m @ d\<rparr>) s"
proof -
  obtain p1 where p1: "parse (reader m) (m_read_buffer m) (m_parser m) s = Inr (p1, s1, False, ec)"
    and m1: "m1 = m\<lparr>m_on_push := reads_push m, m_parser := p1\<rparr>"
    using commit_read_need [OF assms(1,2)] .
  let ?m = "m\<lparr>m_read_buffer := m_read_buffer m @ d\<rparr>" and ?m1 = "m1\<lparr>m_read_buffer := m_read_buffer m @ d\<rparr>"
  have hd: "hd (m_read_buffer m @ d) = hd (m_read_buffer m)" using assms(2) by simp
  have push: "reads_push ?m = reads_push m" "reads_push ?m1 = reads_push m"
    by (auto simp: reads_push_def front_ready_def m1 hd)
  have reader: "reader ?m = reader m" "reader ?m1 = reader m"
    unfolding reader_def push by (simp_all add: m1)
  have upd: "?m1 = ?m\<lparr>m_on_push := reads_push ?m, m_parser := p1\<rparr>" by (simp add: m1 push)
  have "read_outcome ?m1 r = read_outcome ?m r" for r
    using upd push by (intro read_outcome_resume) simp_all
  moreover have "parse (reader m) (m_read_buffer m @ d) (m_parser m) s =
      parse (reader m) (m_read_buffer m @ d) p1 s1"
    using parse_append [OF p1 assms(3-5)] by simp
  ultimately show ?thesis
    using assms(2) by (simp add: commit_read_eq reader) (simp add: m1)
qed

theorem commit_read_resume_witness:
  "commit_read (ping_mpx [] ''+PO'') [] = Inr ((ping_mpx [] ''+PO'')\<lparr>m_on_push := True\<rparr>, [], None, None, 0)
   \<and> commit_read ((ping_mpx [] ''+PO'')\<lparr>m_on_push := True, m_read_buffer := ''+PO'' @ ''NG''\<rparr>) [] =
     commit_read (ping_mpx [] (''+PO'' @ ''NG'')) []"
proof -
  let ?m = "ping_mpx [] ''+PO''"
  have "consume new_parser ''+PO'' = Inr (new_parser, Inr None)" by code_simp
  then have "parse (recorder 0) ''+PO'' new_parser [] = Inr (new_parser, [], False, None)"
    by (intro parse_need) (simp_all add: new_parser_def parser_done_def)
  then have need: "commit_read ?m [] = Inr (?m\<lparr>m_on_push := True\<rparr>, [], None, None, 0)"
    by (simp add: commit_read_eq ping_defs reader_def reads_push_def front_ready_def read_outcome_def)
  have "lengths_fit ''+PO''" by (simp add: lengths_fit_def upt_rec from_chars_def is_digit_def)
  with commit_read_resume [OF need, of "''NG''"] need show ?thesis
    by (simp add: ping_defs bulk_fits_def bulk_expected_def new_parser_def)
qed

section \<open>The queue\<close>

text \<open>
  C12: in every state the multiplexer can reach, by any sequence of its operations, the queue is
  well formed: no request is queued twice, written requests come before staged and staged before
  waiting ones, no queued request has more outstanding responses than commands, and a request
  without responses stays in the queue only until it has been written.
\<close>

theorem reachable_queue_ok:
  assumes "steps mpx_step (new_multiplexer receive h, s) evs (m, s')"
  shows "queue_ok m"
  using mpx_queue.steps_keep [OF assms] queue_ok_new [of receive h] by simp

theorem reachable_queue_ok_witness:
  "queue_ok (fst (prepare_write (new_multiplexer (recorder 0) (\<lambda>_. ping_elem waiting))))"
proof -
  let ?m = "new_multiplexer (recorder 0) (\<lambda>_. ping_elem waiting)"
  have "steps mpx_step (?m, []) [Prepare_write] (fst (prepare_write ?m), [])"
    by (intro steps_one mpx_step.intros(3) [OF prod.collapse [symmetric]])
  from reachable_queue_ok [OF this] show ?thesis .
qed



section \<open>Writing\<close>

text \<open>
  \<open>prepare_write\<close> coalesces all waiting requests.  It appends their payloads to the write buffer
  in the order of the queue, marks exactly these requests as staged, returns their number and
  counts their commands and the bytes to write; afterwards no request is waiting.
\<close>

theorem prepare_write_coalesces:
  assumes "queue_ok m" and "prepare_write m = (m', n)"
  shows "let ws = filter (\<lambda>p. is_waiting (m_heap m p)) (m_reqs m) in
    m_write_buffer m' = m_write_buffer m @ concat (map (\<lambda>p. r_payload (e_req (m_heap m p))) ws)
    \<and> n = length ws \<and> m_reqs m' = m_reqs m
    \<and> m_heap m' = (\<lambda>p. if p \<in> set ws then mark staged (m_heap m p) else m_heap m p)
    \<and> commands_sent (m_usage m') =
        commands_sent (m_usage m) + sum_list (map (\<lambda>p. r_commands (e_req (m_heap m p))) ws)
    \<and> bytes_sent (m_usage m') = bytes_sent (m_usage m) + of_nat (length (m_write_buffer m'))
    \<and> filter (\<lambda>p. is_waiting (m_heap m' p)) (m_reqs m') = []"
  using prepare_write_parts [OF assms]
  by (auto simp: Let_def filter_empty_conv is_waiting_def mark_def)

theorem prepare_write_coalesces_witness:
  "m_write_buffer (fst (prepare_write (ping_mpx [written, waiting, waiting] []))) = ''PINGPING''"
proof -
  have "queue_ok (ping_mpx [written, waiting, waiting] [])" by (rule queue_ok_ping_mpx) simp
  from prepare_write_coalesces [OF this prod.collapse [symmetric]] show ?thesis
    by (simp add: Let_def ping_defs is_waiting_def upt_rec)
qed

text \<open>
  \<open>commit_write\<close> marks every staged request as written and releases those that expect no
  response: they are notified once and leave the queue, the others keep their order, and the
  write buffer becomes empty, which ends the write.
\<close>

theorem commit_write_releases:
  assumes "queue_ok m" and "commit_write m = (m', n)"
  shows "let rel = \<lambda>p. is_staged (m_heap m p) \<and> r_expected_responses (e_req (m_heap m p)) = 0 in
    m_reqs m' = filter (\<lambda>p. \<not> rel p) (m_reqs m) \<and> n = length (filter rel (m_reqs m)) \<and> \<not> is_writing m'
    \<and> m_heap m' = (\<lambda>p. if p \<notin> set (m_reqs m) then m_heap m p
        else if rel p then notify_done (mark written (m_heap m p))
        else if is_staged (m_heap m p) then mark written (m_heap m p) else m_heap m p)
    \<and> filter (\<lambda>p. is_staged (m_heap m' p)) (m_reqs m') = []"
  using commit_write_parts [OF assms]
  by (auto simp: Let_def filter_empty_conv is_staged_def mark_def is_writing_def fun_eq_iff)

theorem commit_write_releases_witness:
  "m_reqs (fst (commit_write (ping_mpx [staged, waiting] []))) = [0, 1]
   \<and> \<not> is_writing (fst (commit_write (ping_mpx [staged, waiting] [])))"
proof -
  have "queue_ok (ping_mpx [staged, waiting] [])" by (rule queue_ok_ping_mpx) simp
  from commit_write_releases [OF this prod.collapse [symmetric]] show ?thesis
    by (simp add: Let_def ping_defs is_staged_def upt_rec)
qed

text \<open>
  A request with hello priority overtakes the waiting requests and nothing else: \<open>add\<close> puts it
  behind the last request that has been staged or written, and any other request at the end.
\<close>

theorem add_position:
  assumes "queue_ok m" and "is_waiting (m_heap m p)"
  shows "m_reqs (add m p) =
    (if r_has_hello_priority (e_req (m_heap m p))
     then filter (\<lambda>q. \<not> is_waiting (m_heap m q)) (m_reqs m) @ p # filter (\<lambda>q. is_waiting (m_heap m q)) (m_reqs m)
     else m_reqs m @ [p])"
  using add_reqs [OF assms] .

theorem add_position_witness:
  "m_reqs (add ((ping_mpx [written, waiting] [])\<lparr>m_heap :=
      (m_heap (ping_mpx [written, waiting] []))(2 := new_elem (ping_request\<lparr>r_has_hello_priority := True\<rparr>) recorder)\<rparr>) 2)
    = [0, 2, 1]"
proof -
  let ?m = "(ping_mpx [written, waiting] [])\<lparr>m_heap :=
      (m_heap (ping_mpx [written, waiting] []))(2 := new_elem (ping_request\<lparr>r_has_hello_priority := True\<rparr>) recorder)\<rparr>"
  have "queue_ok ?m"
    by (simp add: queue_ok_def ping_defs elem_ok_def upt_rec)
  from add_position [OF this, of 2] show ?thesis
    by (simp add: ping_defs is_waiting_def upt_rec)
qed

section \<open>Cancelling\<close>

text \<open>
  \<open>cancel_waiting\<close> completes exactly the requests that have not been staged: they leave the
  queue, are notified once and carry \<open>operation_aborted\<close> unless they already had an error; the
  requests that are being written or wait for a response are untouched and keep their order.
\<close>

theorem cancel_waiting_exact:
  assumes "queue_ok m" and "cancel_waiting m = (m', n)"
  shows "m_reqs m' = filter (\<lambda>p. \<not> is_waiting (m_heap m p)) (m_reqs m)
    \<and> n = length (filter (\<lambda>p. is_waiting (m_heap m p)) (m_reqs m))
    \<and> m_heap m' = (\<lambda>p. if p \<in> set (m_reqs m) \<and> is_waiting (m_heap m p)
        then notify_error operation_aborted (m_heap m p) else m_heap m p)
    \<and> m_write_buffer m' = m_write_buffer m"
proof -
  note c = assms(2) [unfolded cancel_waiting_def]
  have "m_write_buffer m' = m_write_buffer m" by (subst cancel_unless_parts(4) [OF assms(1) c]) simp
  with cancel_unless_parts(1-3) [OF assms(1) c] show ?thesis by (auto simp: fun_eq_iff)
qed

theorem cancel_waiting_exact_witness:
  "m_reqs (fst (cancel_waiting (ping_mpx [written, waiting] []))) = [0]
   \<and> e_ec (m_heap (fst (cancel_waiting (ping_mpx [written, waiting] []))) 1) = Some operation_aborted"
proof -
  have "queue_ok (ping_mpx [written, waiting] [])" by (rule queue_ok_ping_mpx) simp
  from cancel_waiting_exact [OF this prod.collapse [symmetric]] show ?thesis
    by (simp add: ping_defs is_waiting_def upt_rec notify_error_def notify_done_def)
qed



section \<open>Histories in which the operations do not fit together\<close>

text \<open>
  Removing a request after \<open>cancel_waiting\<close> has taken it out of the queue is undefined
  behaviour.  Its state still is \<open>waiting\<close>, so \<open>remove\<close> goes on to erase it, \<open>std::remove\<close> finds
  nothing and the end of the queue is erased.  An operation that is cancelled itself after
  \<open>cancel(operation::exec)\<close> completed it, and before it resumes, makes this call.
\<close>

theorem remove_after_cancel_waiting:
  assumes "queue_ok m" and "p \<in> set (m_reqs m)" and "is_waiting (m_heap m p)"
  shows "remove_elem (fst (cancel_waiting m)) p = Inl Out_Of_Bounds"
proof -
  obtain m' n where c: "cancel_unless (\<lambda>e. \<not> is_waiting e) m = (m', n)" by (cases "cancel_unless (\<lambda>e. \<not> is_waiting e) m")
  note parts = cancel_unless_parts [OF assms(1) c]
  have "p \<notin> set (m_reqs m')" using parts(1) assms(3) by simp
  then have "filter (\<lambda>q. q \<noteq> p) (m_reqs m') = m_reqs m'" by (auto intro: filter_True)
  moreover have "is_waiting (m_heap m' p)" using parts(3) [of p] assms(2,3) by (simp add: is_waiting_def)
  ultimately show ?thesis using c by (simp add: cancel_waiting_def remove_elem_def)
qed

theorem remove_after_cancel_waiting_witness:
  "remove_elem (fst (cancel_waiting (ping_mpx [written, waiting] []))) 1 = Inl Out_Of_Bounds"
proof -
  have "queue_ok (ping_mpx [written, waiting] [])" by (rule queue_ok_ping_mpx) simp
  from remove_after_cancel_waiting [OF this, of 1] show ?thesis
    by (simp add: ping_defs is_waiting_def)
qed

definition kept_mpx :: "string \<Rightarrow> (size_t \<times> node) list multiplexer" where
  "kept_mpx buffer = (ping_mpx [written] buffer)\<lparr>m_heap := \<lambda>_. (ping_elem written)\<lparr>e_req :=
     ping_request\<lparr>r_cfg := default_request_config\<lparr>cancel_if_unresponded := False\<rparr>\<rparr>\<rparr>\<rparr>"



text \<open>
  C29: a request that lost the connection between two of its responses is sent again as a whole but
  keeps counting where it stopped.  After the reset for the next connection its complete payload
  is in the write buffer, and its first response there is given the index of the command after
  the last one answered before.
\<close>

theorem resent_request_keeps_counter:
  assumes "queue_ok m" and "\<not> m_cancel_run_called m" and "q \<in> set (m_reqs m)"
    and "keep_on_conn_lost (m_heap m q)"
  shows "let m1 = mpx_reset (fst (cancel_on_conn_lost m)); m2 = fst (prepare_write m1)
    in \<exists>before after. m_write_buffer m2 = before @ r_payload (e_req (m_heap m q)) @ after
       \<and> elem_adapter (m_heap m2 q) =
          e_adapter (m_heap m q) (r_expected_responses (e_req (m_heap m q)) - e_remaining_responses (m_heap m q))"
proof -
  let ?c = "cancel_on_conn_lost m" and ?m1 = "mpx_reset (fst (cancel_on_conn_lost m))"
  have c: "?c = (fst ?c, snd ?c)" by simp
  note parts = cancel_on_conn_lost_parts [OF assms(1,2) c]
  have ok: "queue_ok ?m1"
    using queue_ok_cancel_on_conn_lost [OF assms(1) c] by (simp add: queue_ok_def mpx_reset_def)
  have heap: "m_heap ?m1 q = mark waiting (m_heap m q)" using parts(3) [of q] assms(3,4) by (simp add: mpx_reset_def)
  let ?ws = "filter (\<lambda>p. is_waiting (m_heap ?m1 p)) (m_reqs ?m1)"
  have ws: "q \<in> set ?ws"
    using parts(1) assms(3,4) heap by (simp add: mpx_reset_def is_waiting_def mark_def)
  then obtain us vs where split: "?ws = us @ q # vs" by (meson split_list)
  note prep = prepare_write_parts [OF ok prod.collapse [symmetric]]
  let ?payload = "\<lambda>p. r_payload (e_req (m_heap ?m1 p))"
  have "m_write_buffer (fst (prepare_write ?m1)) =
      (m_write_buffer ?m1 @ concat (map ?payload us)) @ r_payload (e_req (m_heap m q)) @ concat (map ?payload vs)"
    unfolding prep(4) split using heap by simp
  then have "\<exists>before after. m_write_buffer (fst (prepare_write ?m1)) =
      before @ r_payload (e_req (m_heap m q)) @ after"
    by blast
  moreover from prep(5) [of q] ws heap have "elem_adapter (m_heap (fst (prepare_write ?m1)) q) =
      e_adapter (m_heap m q) (r_expected_responses (e_req (m_heap m q)) - e_remaining_responses (m_heap m q))"
    by (simp add: elem_adapter_def mark_def)
  ultimately show ?thesis by (simp add: Let_def)
qed

theorem resent_request_keeps_counter_witness:
  "\<exists>before after. m_write_buffer (fst (prepare_write (mpx_reset (fst (cancel_on_conn_lost (kept_mpx []))))))
     = before @ ''PING'' @ after"
proof -
  have "queue_ok (kept_mpx [])" by (simp add: queue_ok_def kept_mpx_def ping_defs elem_ok_def)
  from resent_request_keeps_counter [OF this, of 0] show ?thesis
    by (auto simp: Let_def kept_mpx_def ping_defs keep_on_conn_lost_def is_waiting_def)
qed

end
