(* ===== verification/Config.thy ===== *)
theory Config
  imports Errors
begin

text \<open>
  The configuration of a connection and the operations that can be cancelled:
  \<^verbatim>\<open>include/boost/redis/config.hpp\<close> and \<^verbatim>\<open>operation.hpp\<close>.  A duration is the number of ticks of
  \<^verbatim>\<open>std::chrono::steady_clock\<close>, nanoseconds; the database index is an \<open>int\<close>.
\<close>

type_synonym duration = int

definition seconds :: "int \<Rightarrow> duration" where
  "seconds n = n * 1000000000"

record address =
  host :: string
  port :: string

record config =
  use_ssl :: bool
  addr :: address
  username :: string
  password :: string
  clientname :: string
  database_index :: "int option"
  health_check_id :: string
  log_prefix :: string
  cfg_resolve_timeout :: duration
  cfg_connect_timeout :: duration
  cfg_ssl_handshake_timeout :: duration
  health_check_interval :: duration
  reconnect_wait_interval :: duration
  max_read_size :: size_t

definition default_address :: address where
  "default_address = \<lparr>host = ''127.0.0.1'', port = ''6379''\<rparr>"

definition default_config :: config where
  "default_config =
     \<lparr>use_ssl = False, addr = default_address, username = ''default'', password = [],
      clientname = ''Boost.Redis'', database_index = Some 0, health_check_id = ''Boost.Redis'',
      log_prefix = ''(Boost.Redis) '', cfg_resolve_timeout = seconds 10, cfg_connect_timeout = seconds 10,
      cfg_ssl_handshake_timeout = seconds 10, health_check_interval = seconds 2,
      reconnect_wait_interval = seconds 1, max_read_size = -1\<rparr>"

datatype operation =
    op_resolve
  | op_connect
  | op_ssl_handshake
  | op_exec
  | op_run
  | op_receive
  | op_reconnection
  | op_health_check
  | op_all

end
