(* ===== verification/Handshaker.thy ===== *)
theory Handshaker
  imports Config Adapters
begin

text \<open>
  The RESP3 handshake: \<^verbatim>\<open>include/boost/redis/detail/resp3_handshaker.hpp\<close> and
  \<^verbatim>\<open>impl/resp3_handshaker.ipp\<close>, without \<open>hello_op\<close>, which works on a connection and is
  in the theory of the connection.  The adapter of the HELLO request writes to \<open>hello_resp_\<close>, so this
  member is part of the state of the response objects and an argument here.
\<close>

section \<open>Definitions\<close>

abbreviation no_user_type :: "unit \<Rightarrow> string" where
  "no_user_type \<equiv> (\<lambda>_. [])"

definition push_hello :: "config \<Rightarrow> request \<Rightarrow> fault + request" where
  "push_hello cfg req =
     andThen
       (if username cfg \<noteq> [] \<and> password cfg \<noteq> [] \<and> clientname cfg \<noteq> [] then
          push no_user_type req ''HELLO'' [A_str ''3'', A_str ''AUTH'', A_str (username cfg), A_str (password cfg),
            A_str ''SETNAME'', A_str (clientname cfg)]
        else if password cfg = [] \<and> clientname cfg = [] then push no_user_type req ''HELLO'' [A_str ''3'']
        else if clientname cfg = [] then
          push no_user_type req ''HELLO'' [A_str ''3'', A_str ''AUTH'', A_str (username cfg), A_str (password cfg)]
        else push no_user_type req ''HELLO'' [A_str ''3'', A_str ''SETNAME'', A_str (clientname cfg)])
       (\<lambda>req.
          case database_index cfg of
            Some i \<Rightarrow> if i \<noteq> 0 then push no_user_type req ''SELECT'' [A_int i] else Inr req
          | None \<Rightarrow> Inr req)"

record resp3_handshaker =
  h_hello_req :: request
  h_cfg :: config

definition new_handshaker :: resp3_handshaker where
  "new_handshaker = \<lparr>h_hello_req = new_request default_request_config, h_cfg = default_config\<rparr>"

definition handshaker_set_config :: "resp3_handshaker \<Rightarrow> config \<Rightarrow> resp3_handshaker" where
  "handshaker_set_config h cfg = h\<lparr>h_cfg := cfg\<rparr>"

definition add_hello ::
  "resp3_handshaker \<Rightarrow> node list result \<Rightarrow> fault + resp3_handshaker \<times> node list result" where
  "add_hello h hello_resp =
     (let req = request_clear (h_hello_req h);
          resp = (case hello_resp of Inr _ \<Rightarrow> Inr [] | Inl e \<Rightarrow> Inl e)
      in andThen (push_hello (h_cfg h) req) (\<lambda>req'. Inr (h\<lparr>h_hello_req := req'\<rparr>, resp)))"

definition has_error_in_response :: "node list result \<Rightarrow> bool" where
  "has_error_in_response hello_resp =
     (case hello_resp of
        Inl _ \<Rightarrow> True
      | Inr ns \<Rightarrow> list_ex (\<lambda>e. case data_type e of simple_error_t \<Rightarrow> True | blob_error_t \<Rightarrow> True | _ \<Rightarrow> False) ns)"

section \<open>Specification\<close>

text \<open>The commands of the handshake.\<close>

definition sends_auth :: "config \<Rightarrow> bool" where
  "sends_auth cfg \<longleftrightarrow> password cfg \<noteq> [] \<and> (username cfg \<noteq> [] \<or> clientname cfg = [])"

definition hello_command :: "config \<Rightarrow> command" where
  "hello_command cfg =
     (''HELLO'', ''3'' # (if sends_auth cfg then [''AUTH'', username cfg, password cfg] else [])
        @ (if clientname cfg \<noteq> [] then [''SETNAME'', clientname cfg] else []))"

definition select_commands :: "config \<Rightarrow> command list" where
  "select_commands cfg =
     (case database_index cfg of
        Some i \<Rightarrow> if i \<noteq> 0 then [(''SELECT'', [to_string_int i])] else []
      | None \<Rightarrow> [])"

definition hello_commands :: "config \<Rightarrow> command list" where
  "hello_commands cfg = hello_command cfg # select_commands cfg"

section \<open>Lemmas\<close>

lemma push_strings:
  assumes "represents req cmds" and "length args < 2 ^ 64 - 1" and "map (arg_text ser) args = words"
  obtains req' where "push ser req cmd args = Inr req'" and "represents req' (cmds @ [(cmd, words)])"
    and "r_cfg req' = r_cfg req"
  using assms check_cmd_represents [OF assms(1), of "(cmd, map (arg_text ser) args)" cmd]
  by (simp add: push_eq check_cmd_def Let_def)

lemma push_hello_ok:
  assumes "represents req cmds"
  obtains req' where "push_hello cfg req = Inr req'" and "represents req' (cmds @ hello_commands cfg)"
    and "r_cfg req' = r_cfg req"
proof -
  let ?words = "snd (hello_command cfg)"
  obtain req1 where req1: "push no_user_type req ''HELLO'' (map A_str ?words) = Inr req1"
      "represents req1 (cmds @ [hello_command cfg])" "r_cfg req1 = r_cfg req"
    using assms by (rule push_strings [of _ _ "map A_str ?words" no_user_type ?words "''HELLO''"])
      (auto simp: hello_command_def comp_def)
  have eq: "push_hello cfg req = andThen (push no_user_type req ''HELLO'' (map A_str ?words)) (\<lambda>req.
      case database_index cfg of
        Some i \<Rightarrow> if i \<noteq> 0 then push no_user_type req ''SELECT'' [A_int i] else Inr req
      | None \<Rightarrow> Inr req)"
    by (auto simp: push_hello_def hello_command_def sends_auth_def)
  show thesis
  proof (cases "\<exists>i. database_index cfg = Some i \<and> i \<noteq> 0")
    case True
    then obtain i where i: "database_index cfg = Some i" "i \<noteq> 0" by blast
    obtain req2 where "push no_user_type req1 ''SELECT'' [A_int i] = Inr req2"
        "represents req2 ((cmds @ [hello_command cfg]) @ [(''SELECT'', [to_string_int i])])" "r_cfg req2 = r_cfg req1"
      using req1(2) by (rule push_strings [of _ _ "[A_int i]" no_user_type "[to_string_int i]" "''SELECT''"]) auto
    with i req1 show ?thesis by (intro that [of req2]) (simp_all add: eq hello_commands_def select_commands_def)
  next
    case False
    with req1 show ?thesis
      by (intro that [of req1]) (auto simp: eq hello_commands_def select_commands_def split: option.splits)
  qed
qed

lemma add_hello_ok:
  obtains h' resp' where "add_hello h resp = Inr (h', resp')" and "h_cfg h' = h_cfg h"
    and "represents (h_hello_req h') (hello_commands (h_cfg h))" and "r_cfg (h_hello_req h') = r_cfg (h_hello_req h)"
    and "resp' = (case resp of Inl e \<Rightarrow> Inl e | Inr _ \<Rightarrow> Inr [])"
proof -
  obtain req' where req': "push_hello (h_cfg h) (request_clear (h_hello_req h)) = Inr req'"
      "represents req' (hello_commands (h_cfg h))" "r_cfg req' = r_cfg (h_hello_req h)"
    using represents_clear [of "h_hello_req h"]
    by (rule push_hello_ok [of _ "[]" "h_cfg h"]) (auto simp: request_clear_def)
  then show thesis
    by (intro that [of "h\<lparr>h_hello_req := req'\<rparr>"]) (auto simp: add_hello_def Let_def split: sum.splits)
qed

lemma add_hello_cfg:
  assumes "add_hello h resp = Inr (h', resp')"
  shows "r_cfg (h_hello_req h') = r_cfg (h_hello_req h)" and "h_cfg h' = h_cfg h"
    and "represents (h_hello_req h') (hello_commands (h_cfg h))"
  using add_hello_ok [of h resp] assms by auto

section \<open>Properties\<close>

text \<open>
  C17: the handshake asks for RESP3 first and authenticates exactly if there is a password and either
  a user name or no client name.  Whatever the request held before, \<open>add_hello\<close> leaves in it
  HELLO 3, with AUTH under that condition and with SETNAME exactly for a non-empty client name, then
  SELECT for a database other than 0 and nothing else.  In particular an empty user name with a
  password sends AUTH with the empty name if there is no client name, and no AUTH if there is one.
\<close>

theorem add_hello_commands:
  "\<exists>h' resp'. add_hello h resp = Inr (h', resp') \<and> h_cfg h' = h_cfg h
     \<and> represents (h_hello_req h') (hello_commands (h_cfg h))
     \<and> r_has_hello_priority (h_hello_req h') = hello_with_priority (r_cfg (h_hello_req h))
     \<and> (case resp of Inl e \<Rightarrow> resp' = Inl e | Inr _ \<Rightarrow> resp' = Inr [])"
  by (rule add_hello_ok [of h resp])
    (auto simp: represents_def hello_commands_def hello_command_def split: sum.splits)

end
