(* ===== verification/Health_Checker.thy ===== *)
theory Health_Checker
  imports Config Adapters
begin

text \<open>
  The state of the health checker and of the first two steps of a connection, resolving the name of
  the server and connecting to it: \<^verbatim>\<open>include/boost/redis/detail/health_checker.hpp\<close>,
  \<^verbatim>\<open>resolver.hpp\<close> and \<^verbatim>\<open>connector.hpp\<close>.  The operations \<open>ping_op\<close> and
  \<open>check_timeout_op\<close> work on a connection and are in its theory; \<open>resp_\<close>, which the adapter of
  the PING request writes to, is part of the state of the response objects.
\<close>

record health_checker =
  hc_req :: request
  hc_ping_interval :: duration
  hc_checker_has_exited :: bool

definition new_health_checker :: "fault + health_checker" where
  "new_health_checker =
     andThen (push (\<lambda>_::unit. []) (new_request default_request_config) ''PING'' [A_str ''Boost.Redis'']) (\<lambda>req.
       Inr \<lparr>hc_req = req, hc_ping_interval = seconds 5, hc_checker_has_exited = False\<rparr>)"

definition checker_set_config :: "health_checker \<Rightarrow> config \<Rightarrow> fault + health_checker" where
  "checker_set_config hc cfg =
     andThen (push (\<lambda>_::unit. []) (request_clear (hc_req hc)) ''PING'' [A_str (health_check_id cfg)]) (\<lambda>req.
       Inr (hc\<lparr>hc_req := req, hc_ping_interval := health_check_interval cfg\<rparr>))"

text \<open>
  An endpoint of Asio stands for its text; \<open>results\<close> are the endpoints a name resolves to.  The
  constructor leaves the timeout undetermined; a run sets it first, so any value stands for it.
\<close>

record resolver =
  rs_addr :: address
  rs_timeout :: duration
  rs_results :: "string list"

definition new_resolver :: resolver where
  "new_resolver = \<lparr>rs_addr = default_address, rs_timeout = 0, rs_results = []\<rparr>"

definition resolver_set_config :: "resolver \<Rightarrow> config \<Rightarrow> resolver" where
  "resolver_set_config r cfg = r\<lparr>rs_addr := addr cfg, rs_timeout := cfg_resolve_timeout cfg\<rparr>"

record connector =
  ct_timeout :: duration
  ct_endpoint :: string

definition new_connector :: connector where
  "new_connector = \<lparr>ct_timeout = seconds 2, ct_endpoint = []\<rparr>"

definition connector_set_config :: "connector \<Rightarrow> config \<Rightarrow> connector" where
  "connector_set_config c cfg = c\<lparr>ct_timeout := cfg_connect_timeout cfg\<rparr>"

text \<open>
  What \<open>resolve_op\<close> and \<open>connect_op\<close> do when the operation of Asio they wait for completes with
  \<open>ec\<close>: an operation that was cut off by its timeout is reported as that timeout.
\<close>

definition resolve_op :: "resolver \<Rightarrow> error_code option \<Rightarrow> string list \<Rightarrow> resolver \<times> error_code option" where
  "resolve_op r ec res =
     (r\<lparr>rs_results := res\<rparr>,
      if ec = Some operation_aborted then Some (make_error_code resolve_timeout) else ec)"

definition connect_op :: "connector \<Rightarrow> error_code option \<Rightarrow> string \<Rightarrow> connector \<times> error_code option" where
  "connect_op c ec ep =
     (c\<lparr>ct_endpoint := ep\<rparr>,
      if ec = Some operation_aborted then Some (make_error_code connect_timeout) else ec)"

section \<open>Lemmas\<close>

lemma checker_set_config_ok:
  obtains hc' where "checker_set_config hc cfg = Inr hc'" and "represents (hc_req hc') [(''PING'', [health_check_id cfg])]"
    and "hc_ping_interval hc' = health_check_interval cfg" and "hc_checker_has_exited hc' = hc_checker_has_exited hc"
    and "r_cfg (hc_req hc') = r_cfg (hc_req hc)"
  using check_cmd_represents [OF represents_clear [of "hc_req hc"], of "(''PING'', [health_check_id cfg])" "''PING''"]
  by (simp add: checker_set_config_def push_eq check_cmd_def request_clear_def Let_def)

lemma new_health_checker_ok:
  obtains hc where "new_health_checker = Inr hc"
  by (simp add: new_health_checker_def push_eq)

end
