(* ===== verification/Logger.thy ===== *)
theory Logger
  imports Adapters
begin

text \<open>
  The logger: \<^verbatim>\<open>include/boost/redis/logger.hpp\<close> and \<^verbatim>\<open>impl/logger.ipp\<close>.  Every operation returns
  the text it writes to \<^verbatim>\<open>std::clog\<close>, which is empty if the level of the logger disables it.
  \<open>msg\<close> is \<^verbatim>\<open>system::error_code::message\<close> of Boost.System, and an endpoint of Asio stands for the
  text that is printed for it.
\<close>

section \<open>Definitions\<close>

datatype level = level_disabled | level_emerg | level_alert | level_crit | level_err | level_warning | level_notice | level_info | level_debug

fun level_rank :: "level \<Rightarrow> nat" where
  "level_rank level_disabled = 0"
| "level_rank level_emerg = 1"
| "level_rank level_alert = 2"
| "level_rank level_crit = 3"
| "level_rank level_err = 4"
| "level_rank level_warning = 5"
| "level_rank level_notice = 6"
| "level_rank level_info = 7"
| "level_rank level_debug = 8"

lemma level_rank_inj: "level_rank a = level_rank b \<Longrightarrow> a = b"
  by (cases a; cases b) simp_all

instantiation level :: linorder
begin

definition less_eq_level :: "level \<Rightarrow> level \<Rightarrow> bool" where
  "a \<le> b \<longleftrightarrow> level_rank a \<le> level_rank b"

definition less_level :: "level \<Rightarrow> level \<Rightarrow> bool" where
  "a < b \<longleftrightarrow> level_rank a < level_rank b"

instance
  by standard (auto simp: less_eq_level_def less_level_def intro: level_rank_inj)

end

type_synonym endpoint = string

type_synonym messages = "error_code option \<Rightarrow> string"

record logger =
  l_level :: level
  l_prefix :: string

definition new_logger :: "level \<Rightarrow> logger" where
  "new_logger l = \<lparr>l_level = l, l_prefix = []\<rparr>"

definition set_prefix :: "logger \<Rightarrow> string \<Rightarrow> logger" where
  "set_prefix l prefix = l\<lparr>l_prefix := prefix\<rparr>"

definition endl :: string where
  "endl = [CHR 0x0A]"

definition write_prefix :: "logger \<Rightarrow> string" where
  "write_prefix l = (if l_prefix l \<noteq> [] then l_prefix l else [])"

definition on_resolve :: "messages \<Rightarrow> logger \<Rightarrow> error_code option \<Rightarrow> endpoint list \<Rightarrow> string" where
  "on_resolve msg l ec res =
     (if l_level l < level_info then []
      else write_prefix l @ ''resolve results: '' @
        (if ec \<noteq> None then msg ec @ endl @ endl
         else (case res of
                 [] \<Rightarrow> []
               | ep # eps \<Rightarrow> ep @ concat (map (\<lambda>e. '', '' @ e) eps) @ endl)))"

definition on_connect :: "messages \<Rightarrow> logger \<Rightarrow> error_code option \<Rightarrow> endpoint \<Rightarrow> string" where
  "on_connect msg l ec ep =
     (if l_level l < level_info then []
      else write_prefix l @ ''connected to '' @ (if ec \<noteq> None then msg ec @ endl else ep) @ endl)"

definition on_ssl_handshake :: "messages \<Rightarrow> logger \<Rightarrow> error_code option \<Rightarrow> string" where
  "on_ssl_handshake msg l ec =
     (if l_level l < level_info then [] else write_prefix l @ ''SSL handshake: '' @ msg ec @ endl)"

definition on_write :: "messages \<Rightarrow> logger \<Rightarrow> error_code option \<Rightarrow> string \<Rightarrow> string" where
  "on_write msg l ec payload =
     (if l_level l < level_info then []
      else write_prefix l @
        (if ec \<noteq> None then ''writer_op: '' @ msg ec
         else ''writer_op: '' @ to_string_nat (length payload) @ '' bytes written.'') @ endl)"

definition on_read :: "messages \<Rightarrow> logger \<Rightarrow> error_code option \<Rightarrow> nat \<Rightarrow> string" where
  "on_read msg l ec n =
     (if l_level l < level_info then []
      else write_prefix l @
        (if ec \<noteq> None then ''reader_op: '' @ msg ec
         else ''reader_op: '' @ to_string_nat n @ '' bytes read.'') @ endl)"

definition on_hello :: "messages \<Rightarrow> logger \<Rightarrow> error_code option \<Rightarrow> node list result \<Rightarrow> string" where
  "on_hello msg l ec resp =
     (if l_level l < level_info then []
      else write_prefix l @
        (if ec \<noteq> None
         then ''hello_op: '' @ msg ec @ (case resp of Inl e \<Rightarrow> '' ('' @ err_diagnostic e @ '')'' | Inr _ \<Rightarrow> [])
         else ''hello_op: Success'') @ endl)"

definition trace :: "logger \<Rightarrow> string \<Rightarrow> string" where
  "trace l text = (if l_level l < level_debug then [] else write_prefix l @ text @ endl)"

definition trace_error :: "messages \<Rightarrow> logger \<Rightarrow> string \<Rightarrow> error_code option \<Rightarrow> string" where
  "trace_error msg l op ec =
     (if l_level l < level_debug then [] else write_prefix l @ op @ '': '' @ msg ec @ endl)"

section \<open>Lemmas\<close>

lemma level_order [simp]:
  "a < level_info \<longleftrightarrow> a \<notin> {level_info, level_debug}" "a < level_debug \<longleftrightarrow> a \<noteq> level_debug"
  by (cases a; simp add: less_level_def)+

text \<open>A logger whose level is below \<open>level_info\<close> writes nothing, whatever happens.\<close>

lemma quiet_logger:
  assumes "l_level l \<notin> {level_info, level_debug}"
  shows "on_resolve msg l ec res = []" and "on_connect msg l ec ep = []" and "on_ssl_handshake msg l ec = []"
    and "on_write msg l ec payload = []" and "on_read msg l ec n = []" and "on_hello msg l ec resp = []"
    and "trace l text = []" and "trace_error msg l text ec = []"
  using assms
  by (auto simp: on_resolve_def on_connect_def on_ssl_handshake_def on_write_def on_read_def on_hello_def
      trace_def trace_error_def)

end
