(* ===== verification/Connection.thy ===== *)
theory Connection
  imports Handshaker Health_Checker Logger Multiplexer_Read
begin

text \<open>
  The connection: \<^verbatim>\<open>include/boost/redis/connection.hpp\<close> and the operations of
  \<^verbatim>\<open>detail/health_checker.hpp\<close> and \<^verbatim>\<open>detail/resp3_handshaker.hpp\<close> that run on it.

  An operation of the source is a coroutine: it runs until it starts an asynchronous operation of
  Asio and is resumed with its result.  Here it is a function from the point where it was suspended
  and the result to an \<open>outcome\<close>: \<open>Suspend io pc\<close>, the asynchronous operation it waits for and where
  it goes on, or \<open>Complete r\<close>.  What it does to the objects of Asio on the way (timers, the
  receive channel, the stream, the resolver) and to the log is the list \<open>c_calls\<close> of the calls
  it makes; Asio itself is not modelled, its answers are arguments.

  \<open>responses\<close> is the state of the response objects: the two that the connection owns and the ones
  of its users, \<open>'u\<close>.
\<close>

section \<open>Asynchronous operations\<close>

datatype call =
    Resolver_cancel
  | Socket_close
  | Stream_new
  | Writer_timer_never
  | Writer_timer_cancel
  | Receive_channel_cancel
  | Receive_channel_receive
  | Try_send nat
  | Try_receive
  | Ping_timer_cancel
  | Wait_timer_cancel
  | Ping_timer_expires duration
  | Wait_timer_expires duration
  | Reconnect_timer_expires duration
  | Writer_timer_expires duration
  | Log string

datatype io =
    Async_resolve string string duration
  | Async_connect "endpoint list" duration
  | Async_handshake duration
  | Parallel_group
  | Reconnect_wait
  | Async_write bool string
  | Writer_wait
  | Async_append_some bool size_t size_t
  | Async_send nat
  | Async_exec ptr
  | Notifier_receive
  | Dispatch
  | Post
  | Ping_wait
  | Pong_wait

datatype ('p, 'r) outcome = Suspend io 'p | Complete 'r

datatype exec_pc = Exec_start | Exec_dispatched | Exec_notified
datatype writer_pc = Writer_start | Writer_written | Writer_woken
datatype reader_pc = Reader_start | Reader_appended | Reader_sent
datatype hello_pc = Hello_start | Hello_answered
datatype ping_pc = Ping_start | Ping_posted | Ping_answered | Ping_waited
datatype check_pc = Check_start | Check_posted | Check_waited
datatype run_pc = Run_start | Run_resolved | Run_connected | Run_handshaken | Run_group_ended | Run_waited

section \<open>State\<close>

record 'u responses =
  hello_resp :: "node list result"
  ping_resp :: "node list result"
  user_resp :: 'u

text \<open>
  \<open>c_open\<close> is whether the socket of the stream is open and \<open>c_execs\<close> holds the suspended
  operations started with \<open>async_exec\<close>, by the address of their request.
\<close>

record 'u connection =
  c_cfg :: config
  c_open :: bool
  c_resv :: resolver
  c_ctor :: connector
  c_checker :: health_checker
  c_handshaker :: resp3_handshaker
  c_mpx :: "'u responses multiplexer"
  c_responses :: "'u responses"
  c_execs :: "ptr \<Rightarrow> exec_pc option"
  c_calls :: "call list"

definition do_call :: "call \<Rightarrow> 'u connection \<Rightarrow> 'u connection" where
  "do_call k c = c\<lparr>c_calls := c_calls c @ [k]\<rparr>"

definition new_connection :: "(ptr \<Rightarrow> 'u responses elem) \<Rightarrow> 'u \<Rightarrow> fault + 'u connection" where
  "new_connection h user =
     andThen new_health_checker (\<lambda>checker.
       Inr \<lparr>c_cfg = default_config, c_open = False, c_resv = new_resolver, c_ctor = new_connector,
         c_checker = checker, c_handshaker = new_handshaker,
         c_mpx = set_receive_response (new_multiplexer ignore h) ignore_adapter,
         c_responses = \<lparr>hello_resp = Inr [], ping_resp = Inr [], user_resp = user\<rparr>,
         c_execs = Map.empty, c_calls = [Writer_timer_never]\<rparr>)"

text \<open>\<^verbatim>\<open>any_adapter\<close> objects for the two responses the connection owns.\<close>

definition hello_adapter :: "'u responses any_adapter" where
  "hello_adapter =
     \<lparr>adapt_fn = (\<lambda>i s nd. andThen (adapt_fn any_vector i (hello_resp s) nd) (\<lambda>(r, ec). Inr (s\<lparr>hello_resp := r\<rparr>, ec))),
      supported_response_size = supported_response_size any_vector\<rparr>"

definition ping_adapter :: "'u responses any_adapter" where
  "ping_adapter =
     \<lparr>adapt_fn = (\<lambda>i s nd. andThen (adapt_fn any_vector i (ping_resp s) nd) (\<lambda>(r, ec). Inr (s\<lparr>ping_resp := r\<rparr>, ec))),
      supported_response_size = supported_response_size any_vector\<rparr>"

section \<open>Cancellation\<close>

definition close :: "'u connection \<Rightarrow> 'u connection" where
  "close c = (if c_open c then do_call Socket_close (c\<lparr>c_open := False\<rparr>) else c)"

definition cancel_run :: "'u connection \<Rightarrow> 'u connection" where
  "cancel_run c =
     (let c = do_call Receive_channel_cancel (do_call Writer_timer_cancel (close c))
      in c\<lparr>c_mpx := fst (cancel_on_conn_lost (c_mpx c))\<rparr>)"

definition checker_cancel :: "'u connection \<Rightarrow> 'u connection" where
  "checker_cancel c = do_call Wait_timer_cancel (do_call Ping_timer_cancel c)"

definition resolver_cancel :: "'u connection \<Rightarrow> 'u connection" where
  "resolver_cancel c = do_call Resolver_cancel c"

definition no_reconnection :: "'u connection \<Rightarrow> 'u connection" where
  "no_reconnection c = c\<lparr>c_cfg := (c_cfg c)\<lparr>reconnect_wait_interval := 0\<rparr>\<rparr>"

definition conn_cancel_waiting :: "'u connection \<Rightarrow> 'u connection" where
  "conn_cancel_waiting c = c\<lparr>c_mpx := fst (cancel_waiting (c_mpx c))\<rparr>"

fun cancel :: "operation \<Rightarrow> 'u connection \<Rightarrow> 'u connection" where
  "cancel op_resolve c = resolver_cancel c"
| "cancel op_exec c = conn_cancel_waiting c"
| "cancel op_reconnection c = no_reconnection c"
| "cancel op_run c = cancel_run c"
| "cancel op_receive c = do_call Receive_channel_cancel c"
| "cancel op_health_check c = checker_cancel c"
| "cancel op_all c =
     conn_cancel_waiting (do_call Receive_channel_cancel (cancel_run (checker_cancel (no_reconnection (resolver_cancel c)))))"
| "cancel op_connect c = c"
| "cancel op_ssl_handshake c = c"

definition will_reconnect :: "'u connection \<Rightarrow> bool" where
  "will_reconnect c \<longleftrightarrow> reconnect_wait_interval (c_cfg c) \<noteq> 0"

definition run_is_canceled :: "'u connection \<Rightarrow> bool" where
  "run_is_canceled c = m_cancel_run_called (c_mpx c)"

definition trigger_write :: "'u connection \<Rightarrow> bool" where
  "trigger_write c \<longleftrightarrow> c_open c \<and> \<not> is_writing (c_mpx c)"

definition reset_stream :: "'u connection \<Rightarrow> 'u connection" where
  "reset_stream c = do_call Stream_new (c\<lparr>c_open := False\<rparr>)"

definition conn_set_receive_response :: "(size_t \<Rightarrow> 'u responses adapter) \<Rightarrow> 'u connection \<Rightarrow> 'u connection" where
  "conn_set_receive_response response c = c\<lparr>c_mpx := set_receive_response (c_mpx c) response\<rparr>"

section \<open>Executing requests\<close>

datatype cancellation_type = terminal | partial | total

definition is_cancelled :: "cancellation_type set \<Rightarrow> bool" where
  "is_cancelled cs \<longleftrightarrow> cs \<noteq> {}"

fun exec_op ::
  "ptr \<Rightarrow> exec_pc \<Rightarrow> cancellation_type set \<Rightarrow> 'u connection
    \<Rightarrow> fault + 'u connection \<times> (exec_pc, error_code option \<times> size_t) outcome" where
  "exec_op p Exec_start cs c =
     (if cancel_if_not_connected (r_cfg (e_req (m_heap (c_mpx c) p))) \<and> \<not> c_open c
      then Inr (c, Suspend Dispatch Exec_dispatched)
      else
        (let c = c\<lparr>c_mpx := add (c_mpx c) p\<rparr>;
             c = (if trigger_write c then do_call Writer_timer_cancel c else c)
         in Inr (c, Suspend Notifier_receive Exec_notified)))"
| "exec_op p Exec_dispatched cs c = Inr (c, Complete (Some (make_error_code not_connected), 0))"
| "exec_op p Exec_notified cs c =
     (let e = m_heap (c_mpx c) p
      in if e_ec e \<noteq> None then Inr (c, Complete (e_ec e, 0))
         else if is_cancelled cs then
           andThen (remove_elem (c_mpx c) p) (\<lambda>(m, removed).
             let c = c\<lparr>c_mpx := m\<rparr>
             in if \<not> removed then
                  (if terminal \<in> cs then Inr (cancel op_run c, Complete (Some operation_aborted, 0))
                   else Inr (c, Suspend Notifier_receive Exec_notified))
                else Inr (c, Complete (Some operation_aborted, 0)))
         else Inr (c, Complete (e_ec e, e_read_size e)))"

text \<open>
  The initiating function: it makes the request object and starts \<open>exec_op\<close>.  The notifier it
  creates is a channel for one message, which \<open>notify_done\<close> sends.
\<close>

definition async_exec ::
  "request \<Rightarrow> 'u responses any_adapter \<Rightarrow> 'u connection \<Rightarrow> fault + 'u connection \<times> ptr" where
  "async_exec req adapter c =
     (if supported_response_size adapter < r_expected_responses req then Inl Assert_Failed
      else
        (let (p, m) = make_elem (c_mpx c) req (adapt_fn adapter)
         in andThen (exec_op p Exec_start {} (c\<lparr>c_mpx := m\<rparr>)) (\<lambda>(c, out).
              case out of
                Suspend _ pc \<Rightarrow> Inr (c\<lparr>c_execs := (c_execs c)(p \<mapsto> pc)\<rparr>, p)
              | Complete _ \<Rightarrow> Inr (c, p))))"

text \<open>The operation for the request \<open>p\<close> is resumed; the result is there once it completes.\<close>

definition resume_exec ::
  "ptr \<Rightarrow> cancellation_type set \<Rightarrow> 'u connection
    \<Rightarrow> fault + 'u connection \<times> (error_code option \<times> size_t) option" where
  "resume_exec p cs c =
     (case c_execs c p of
        None \<Rightarrow> Inr (c, None)
      | Some pc \<Rightarrow>
          andThen (exec_op p pc cs c) (\<lambda>(c, out).
            case out of
              Suspend _ pc' \<Rightarrow> Inr (c\<lparr>c_execs := (c_execs c)(p \<mapsto> pc')\<rparr>, None)
            | Complete r \<Rightarrow> Inr (c\<lparr>c_execs := (c_execs c)(p := None)\<rparr>, Some r)))"

section \<open>Receiving\<close>

definition async_receive :: "'u connection \<Rightarrow> 'u connection" where
  "async_receive c = do_call Receive_channel_receive c"

text \<open>\<open>try_receive\<close> is the message the channel gives to its callback, if it has one.\<close>

definition receive ::
  "(call list \<Rightarrow> (error_code option \<times> nat) option) \<Rightarrow> error_code option \<Rightarrow> 'u connection
    \<Rightarrow> 'u connection \<times> nat \<times> error_code option" where
  "receive try_receive ec c =
     (let c = do_call Try_receive c;
          res = try_receive (c_calls c);
          (ec, n) = (case res of Some (ec2, n) \<Rightarrow> (ec2, n) | None \<Rightarrow> (ec, 0))
      in if ec \<noteq> None then (c, 0, ec)
         else if res = None then (c, n, Some (make_error_code sync_receive_push_failed))
         else (c, n, ec))"

section \<open>Reading and writing\<close>

text \<open>
  \<open>append_some_op\<close> reads into the end of a dynamic buffer of Asio.  \<open>grow\<close> and \<open>shrink\<close> are the
  operations of the buffer, which can throw; \<open>data\<close> is what the stream writes into the new area.
\<close>

definition append_some_start :: "(string \<Rightarrow> size_t \<Rightarrow> fault + string) \<Rightarrow> string \<Rightarrow> size_t \<Rightarrow> fault + nat \<times> string" where
  "append_some_start grow buf n = (let tmp = length buf in andThen (grow buf n) (\<lambda>buf'. Inr (tmp, buf')))"

definition append_some_resume ::
  "(string \<Rightarrow> nat \<Rightarrow> string) \<Rightarrow> nat \<Rightarrow> string \<Rightarrow> error_code option \<Rightarrow> string
    \<Rightarrow> string \<times> error_code option \<times> nat" where
  "append_some_resume shrink tmp buf ec data =
     (let buf = take tmp buf @ data @ drop (tmp + length data) buf
      in if ec \<noteq> None then (buf, ec, 0)
         else (shrink buf (length buf - tmp - length data), None, length data))"

definition writer_loop :: "'u connection \<Rightarrow> 'u connection \<times> (writer_pc, error_code option) outcome" where
  "writer_loop c =
     (let (m, n) = prepare_write (c_mpx c);
          c = c\<lparr>c_mpx := m\<rparr>
      in if n \<noteq> 0 then (c, Suspend (Async_write (use_ssl (c_cfg c)) (m_write_buffer m)) Writer_written)
         else (c, Suspend Writer_wait Writer_woken))"

fun writer_op ::
  "messages \<Rightarrow> logger \<Rightarrow> writer_pc \<Rightarrow> error_code option \<Rightarrow> 'u connection
    \<Rightarrow> 'u connection \<times> (writer_pc, error_code option) outcome" where
  "writer_op msg l Writer_start ec c = writer_loop c"
| "writer_op msg l Writer_written ec c =
     (let c = do_call (Log (on_write msg l ec (m_write_buffer (c_mpx c)))) c
      in if ec \<noteq> None then
           (cancel op_run (do_call (Log (trace_error msg l ''writer_op (1)'' ec)) c), Complete ec)
         else
           (let c = c\<lparr>c_mpx := fst (commit_write (c_mpx c))\<rparr>
            in if \<not> c_open c then
                 (do_call (Log (trace l ''writer_op (2): connection is closed.'')) c, Complete None)
               else writer_loop c))"
| "writer_op msg l Writer_woken ec c =
     (if \<not> c_open c then
        (do_call (Log (trace l ''writer_op (3): connection is closed.'')) c, Complete None)
      else writer_loop c)"

definition buffer_growth_hint :: size_t where
  "buffer_growth_hint = 4096"

definition reader_append :: "'u connection \<Rightarrow> 'u connection \<times> (reader_pc, error_code option) outcome" where
  "reader_append c =
     (c, Suspend (Async_append_some (use_ssl (c_cfg c)) (max_read_size (c_cfg c))
           (get_suggested_buffer_growth (m_parser (c_mpx c)) buffer_growth_hint)) Reader_appended)"

definition reader_fail ::
  "messages \<Rightarrow> logger \<Rightarrow> string \<Rightarrow> error_code option \<Rightarrow> 'u connection
    \<Rightarrow> 'u connection \<times> (reader_pc, error_code option) outcome" where
  "reader_fail msg l point ec c = (cancel op_run (do_call (Log (trace_error msg l point ec)) c), Complete ec)"

text \<open>
  The loop from the call of \<open>commit_read\<close> on.  \<open>try_send\<close> is the answer of the receive channel, given
  the calls made so far.  The loop goes on without waiting for data as long as the read buffer
  holds a complete message; every message makes the buffer shorter.
\<close>

function reader_commit ::
  "messages \<Rightarrow> logger \<Rightarrow> (call list \<Rightarrow> bool) \<Rightarrow> 'u connection
    \<Rightarrow> fault + 'u connection \<times> (reader_pc, error_code option) outcome" where
  "reader_commit msg l try_send c =
     andThen (commit_read (c_mpx c) (c_responses c)) (\<lambda>(m, s, ec, res, n).
       let c = c\<lparr>c_mpx := m, c_responses := s\<rparr>
       in if ec \<noteq> None then Inr (reader_fail msg l ''reader_op (3)'' ec c)
          else if res = None \<or> res = Some False \<and> is_data_needed m then Inr (reader_append c)
          else if res = Some False then reader_commit msg l try_send c
          else
            (let c = do_call (Try_send n) c
             in if \<not> try_send (c_calls c) then Inr (c, Suspend (Async_send n) Reader_sent)
                else if \<not> c_open c then
                  Inr (do_call (Log (trace l ''reader_op (5): connection is closed.'')) c,
                       Complete (Some operation_aborted))
                else if is_data_needed m then Inr (reader_append c)
                else reader_commit msg l try_send c))"
  by pat_completeness auto
termination
proof (relation "measure (\<lambda>(msg, l, try_send, c). length (m_read_buffer (c_mpx c)))")
qed (auto dest!: commit_read_shrinks simp: is_data_needed_def do_call_def)

declare reader_commit.simps [simp del]

fun reader_op ::
  "messages \<Rightarrow> logger \<Rightarrow> (call list \<Rightarrow> bool) \<Rightarrow> reader_pc \<Rightarrow> error_code option \<Rightarrow> string \<Rightarrow> 'u connection
    \<Rightarrow> fault + 'u connection \<times> (reader_pc, error_code option) outcome" where
  "reader_op msg l try_send Reader_start ec data c =
     (if is_data_needed (c_mpx c) then Inr (reader_append c) else reader_commit msg l try_send c)"
| "reader_op msg l try_send Reader_appended ec data c =
     (let c = c\<lparr>c_mpx := (c_mpx c)\<lparr>m_read_buffer := m_read_buffer (c_mpx c) @ data\<rparr>\<rparr>;
          c = do_call (Log (on_read msg l ec (length data))) c
      in if ec \<noteq> None then Inr (reader_fail msg l ''reader_op (1)'' ec c)
         else if \<not> c_open c then
           Inr (do_call (Log (trace l ''reader_op (2): connection is closed.'')) c, Complete ec)
         else reader_commit msg l try_send c)"
| "reader_op msg l try_send Reader_sent ec data c =
     (if ec \<noteq> None then Inr (reader_fail msg l ''reader_op (4)'' ec c)
      else if \<not> c_open c then
        Inr (do_call (Log (trace l ''reader_op (5): connection is closed.'')) c,
             Complete (Some operation_aborted))
      else if is_data_needed (c_mpx c) then Inr (reader_append c)
      else reader_commit msg l try_send c)"

section \<open>The handshake\<close>

fun hello_op ::
  "messages \<Rightarrow> logger \<Rightarrow> hello_pc \<Rightarrow> error_code option \<Rightarrow> 'u connection
    \<Rightarrow> fault + 'u connection \<times> (hello_pc, error_code option) outcome" where
  "hello_op msg l Hello_start ec c =
     andThen (add_hello (c_handshaker c) (hello_resp (c_responses c))) (\<lambda>(h, resp).
       let c = c\<lparr>c_handshaker := h, c_responses := (c_responses c)\<lparr>hello_resp := resp\<rparr>\<rparr>
       in andThen (async_exec (h_hello_req h) hello_adapter c) (\<lambda>(c, p).
            Inr (c, Suspend (Async_exec p) Hello_answered)))"
| "hello_op msg l Hello_answered ec c =
     (let c = do_call (Log (on_hello msg l ec (hello_resp (c_responses c)))) c
      in if ec \<noteq> None then Inr (cancel op_run c, Complete ec)
         else if has_error_in_response (hello_resp (c_responses c))
         then Inr (cancel op_run c, Complete (Some (make_error_code resp3_hello)))
         else Inr (c, Complete None))"

section \<open>Health checks\<close>

definition ping_loop ::
  "logger \<Rightarrow> 'u connection \<Rightarrow> fault + 'u connection \<times> (ping_pc, error_code option) outcome" where
  "ping_loop l c =
     (if hc_ping_interval (c_checker c) = 0 then
        Inr (do_call (Log (trace l ''ping_op (1): timeout disabled.'')) c, Suspend Post Ping_posted)
      else if hc_checker_has_exited (c_checker c) then
        Inr (do_call (Log (trace l ''ping_op (2): checker has exited.'')) c, Complete None)
      else
        andThen (async_exec (hc_req (c_checker c)) ping_adapter c) (\<lambda>(c, p).
          Inr (c, Suspend (Async_exec p) Ping_answered)))"

fun ping_op ::
  "messages \<Rightarrow> logger \<Rightarrow> ping_pc \<Rightarrow> error_code option \<Rightarrow> 'u connection
    \<Rightarrow> fault + 'u connection \<times> (ping_pc, error_code option) outcome" where
  "ping_op msg l Ping_start ec c = ping_loop l c"
| "ping_op msg l Ping_posted ec c = Inr (c, Complete None)"
| "ping_op msg l Ping_answered ec c =
     (if ec \<noteq> None then
        Inr (do_call Wait_timer_cancel (do_call (Log (trace_error msg l ''ping_op (3)'' ec)) c), Complete ec)
      else Inr (do_call (Ping_timer_expires (hc_ping_interval (c_checker c))) c, Suspend Ping_wait Ping_waited))"
| "ping_op msg l Ping_waited ec c =
     (if ec \<noteq> None then Inr (do_call (Log (trace_error msg l ''ping_op (4)'' ec)) c, Complete ec)
      else ping_loop l c)"

definition check_timeout_loop :: "logger \<Rightarrow> 'u connection \<Rightarrow> 'u connection \<times> (check_pc, error_code option) outcome" where
  "check_timeout_loop l c =
     (if hc_ping_interval (c_checker c) = 0 then
        (do_call (Log (trace l ''check_timeout_op (1): timeout disabled.'')) c, Suspend Post Check_posted)
      else (do_call (Wait_timer_expires (2 * hc_ping_interval (c_checker c))) c, Suspend Pong_wait Check_waited))"

fun check_timeout_op ::
  "messages \<Rightarrow> logger \<Rightarrow> check_pc \<Rightarrow> error_code option \<Rightarrow> 'u connection
    \<Rightarrow> 'u connection \<times> (check_pc, error_code option) outcome" where
  "check_timeout_op msg l Check_start ec c = check_timeout_loop l c"
| "check_timeout_op msg l Check_posted ec c = (c, Complete None)"
| "check_timeout_op msg l Check_waited ec c =
     (if ec \<noteq> None then (do_call (Log (trace_error msg l ''check_timeout_op (2)'' ec)) c, Complete ec)
      else (case ping_resp (c_responses c) of
        Inl _ \<Rightarrow> (do_call (Log (trace l ''check_timeout_op (3): Response error.'')) c, Complete None)
      | Inr [] \<Rightarrow>
          (let c = do_call (Log (trace l ''check_timeout_op (4): pong timeout.'')) c;
               c = cancel op_run (do_call Ping_timer_cancel c)
           in (c\<lparr>c_checker := (c_checker c)\<lparr>hc_checker_has_exited := True\<rparr>\<rparr>,
               Complete (Some (make_error_code pong_timeout))))
      | Inr (_ # _) \<Rightarrow>
          check_timeout_loop l (c\<lparr>c_responses := (c_responses c)\<lparr>ping_resp := Inr []\<rparr>\<rparr>)))"

text \<open>\<open>async_check_timeout\<close> starts the operation above.\<close>

definition async_check_timeout ::
  "messages \<Rightarrow> logger \<Rightarrow> 'u connection \<Rightarrow> 'u connection \<times> (check_pc, error_code option) outcome" where
  "async_check_timeout msg l c =
     check_timeout_op msg l Check_start None (c\<lparr>c_checker := (c_checker c)\<lparr>hc_checker_has_exited := False\<rparr>\<rparr>)"

section \<open>Running\<close>

text \<open>
  \<open>run_op\<close> resumed with the order in which the operations of the parallel group completed and the
  error of each of them; after every other operation \<open>order\<close> is all zeros and \<open>ec0\<close> is its error.
  It suspends with \<open>Parallel_group\<close> after \<open>reset\<close>; \<open>start_group\<close> is what the group then starts.
\<close>

definition run_resolve :: "'u connection \<Rightarrow> 'u connection \<times> (run_pc, error_code option) outcome" where
  "run_resolve c =
     (c, Suspend (Async_resolve (host (rs_addr (c_resv c))) (port (rs_addr (c_resv c))) (rs_timeout (c_resv c)))
           Run_resolved)"

definition run_established :: "'u connection \<Rightarrow> 'u connection \<times> (run_pc, error_code option) outcome" where
  "run_established c = (c\<lparr>c_mpx := mpx_reset (c_mpx c)\<rparr>, Suspend Parallel_group Run_group_ended)"

fun run_op ::
  "messages \<Rightarrow> logger \<Rightarrow> run_pc \<Rightarrow> nat list \<Rightarrow> error_code option \<Rightarrow> error_code option \<Rightarrow> error_code option
    \<Rightarrow> error_code option \<Rightarrow> 'u connection \<Rightarrow> 'u connection \<times> (run_pc, error_code option) outcome" where
  "run_op msg l Run_start order ec0 ec1 ec2 ec3 c = run_resolve c"
| "run_op msg l Run_resolved order ec0 ec1 ec2 ec3 c =
     (let c = do_call (Log (on_resolve msg l ec0 (rs_results (c_resv c)))) c
      in if ec0 \<noteq> None then (c, Complete ec0)
         else (c, Suspend (Async_connect (rs_results (c_resv c)) (ct_timeout (c_ctor c))) Run_connected))"
| "run_op msg l Run_connected order ec0 ec1 ec2 ec3 c =
     (let c = do_call (Log (on_connect msg l ec0 (ct_endpoint (c_ctor c)))) c
      in if ec0 \<noteq> None then (c, Complete ec0)
         else if use_ssl (c_cfg c)
         then (c, Suspend (Async_handshake (cfg_ssl_handshake_timeout (c_cfg c))) Run_handshaken)
         else run_established c)"
| "run_op msg l Run_handshaken order ec0 ec1 ec2 ec3 c =
     (let c = do_call (Log (on_ssl_handshake msg l ec0)) c
      in if ec0 \<noteq> None then (c, Complete ec0) else run_established c)"
| "run_op msg l Run_group_ended order ec0 ec1 ec2 ec3 c =
     (if order ! 0 = 0 \<and> ec0 \<noteq> None then (c, Complete ec0)
      else if order ! 0 = 2 \<and> ec2 = Some (make_error_code pong_timeout) then (c, Complete ec1)
      else
        (let c = cancel op_receive c
         in if \<not> will_reconnect c then (cancel op_reconnection c, Complete ec3)
            else (do_call (Reconnect_timer_expires (reconnect_wait_interval (c_cfg c))) c,
                  Suspend Reconnect_wait Run_waited)))"
| "run_op msg l Run_waited order ec0 ec1 ec2 ec3 c =
     (if ec0 \<noteq> None then (c, Complete ec0)
      else if \<not> will_reconnect c then (c, Complete (Some operation_aborted))
      else run_resolve (reset_stream c))"

definition async_run ::
  "config \<Rightarrow> messages \<Rightarrow> logger \<Rightarrow> 'u connection
    \<Rightarrow> fault + 'u connection \<times> logger \<times> (run_pc, error_code option) outcome" where
  "async_run cfg msg l c =
     andThen (checker_set_config (c_checker c) cfg) (\<lambda>checker.
       let c = c\<lparr>c_cfg := cfg, c_resv := resolver_set_config (c_resv c) cfg,
                 c_ctor := connector_set_config (c_ctor c) cfg, c_checker := checker,
                 c_handshaker := handshaker_set_config (c_handshaker c) cfg\<rparr>;
           l = set_prefix l (log_prefix cfg);
           (c, out) = run_op msg l Run_start [] None None None None c
       in Inr (c, l, out))"

record group =
  g_hello :: "(hello_pc, error_code option) outcome"
  g_ping :: "(ping_pc, error_code option) outcome"
  g_check :: "(check_pc, error_code option) outcome"
  g_reader :: "(reader_pc, error_code option) outcome"
  g_writer :: "(writer_pc, error_code option) outcome"

definition start_group ::
  "messages \<Rightarrow> logger \<Rightarrow> (call list \<Rightarrow> bool) \<Rightarrow> 'u connection \<Rightarrow> fault + 'u connection \<times> group" where
  "start_group msg l try_send c =
     andThen (hello_op msg l Hello_start None c) (\<lambda>(c, hello).
     andThen (ping_op msg l Ping_start None c) (\<lambda>(c, ping).
     let (c, check) = async_check_timeout msg l c
     in andThen (reader_op msg l try_send Reader_start None [] c) (\<lambda>(c, reader).
        let (c, writer) = writer_op msg l Writer_start None c
        in Inr (c, \<lparr>g_hello = hello, g_ping = ping, g_check = check, g_reader = reader, g_writer = writer\<rparr>))))"

end
