(* ===== verification/Connection_Invariants.thy ===== *)
theory Connection_Invariants
  imports Connection
begin

text \<open>
  What every operation of the connection keeps.  \<open>conn_ok\<close>: the queue is well formed and no
  pending \<open>async_exec\<close> is lost, its request is queued or it has been notified.  \<open>tame\<close>: the
  operation stages no request, and if it closes the socket it also gives up the run and makes
  every queued request wait again.
\<close>

section \<open>The multiplexer\<close>

definition settled :: "'s multiplexer \<Rightarrow> ptr \<Rightarrow> bool" where
  "settled m p \<longleftrightarrow> p \<in> set (m_reqs m)
     \<or> 0 < e_done (m_heap m p) \<and> (e_ec (m_heap m p) \<noteq> None \<or> \<not> is_waiting (m_heap m p))"

definition quiet :: "'s multiplexer \<Rightarrow> bool" where
  "quiet m \<longleftrightarrow> list_all (\<lambda>p. is_waiting (m_heap m p)) (m_reqs m)"

definition keeps :: "'s multiplexer \<Rightarrow> 's multiplexer \<Rightarrow> bool" where
  "keeps m m' \<longleftrightarrow> queue_ok m' \<and> m_brk m \<le> m_brk m' \<and> (\<forall>p < m_brk m. settled m p \<longrightarrow> settled m' p)"

lemma keepsI:
  assumes "queue_ok m'" and "m_brk m \<le> m_brk m'" and "\<And>p. p < m_brk m \<Longrightarrow> settled m p \<Longrightarrow> settled m' p"
  shows "keeps m m'"
  using assms by (simp add: keeps_def)

lemma keepsD:
  assumes "keeps m m'"
  shows "queue_ok m'" and "m_brk m \<le> m_brk m'" and "p < m_brk m \<Longrightarrow> settled m p \<Longrightarrow> settled m' p"
  using assms by (auto simp: keeps_def)

lemma notify_simps [simp]:
  "e_done (notify_done e) = Suc (e_done e)" "e_ec (notify_done e) = e_ec e"
  "e_done (notify_error ec e) = Suc (e_done e)" "e_ec (notify_error ec e) \<noteq> None"
  "e_done (mark st e) = e_done e" "e_ec (mark st e) = e_ec e" "is_waiting (mark st e) \<longleftrightarrow> st = waiting"
  "is_waiting (notify_done e) = is_waiting e" "is_waiting (notify_error ec e) = is_waiting e"
  "e_done (commit_response n e) = e_done e" "e_ec (commit_response n e) = e_ec e"
  "is_waiting (commit_response n e) = is_waiting e"
  by (auto simp: elem_simps)

lemma prepare_write_keeps:
  assumes "queue_ok m" and "prepare_write m = (m', n)"
  shows "keeps m m'"
proof (rule keepsI)
  note parts = prepare_write_parts [OF assms]
  show "queue_ok m'" by (rule queue_ok_prepare_write [OF assms])
  show "m_brk m \<le> m_brk m'" by (simp add: parts)
  show "settled m' p" if "settled m p" for p
    using that by (auto simp: settled_def parts(1,5))
qed

lemma commit_write_keeps:
  assumes "queue_ok m" and "commit_write m = (m', n)"
  shows "keeps m m'" and "quiet m \<Longrightarrow> quiet m'"
proof -
  note parts = commit_write_parts [OF assms]
  show "keeps m m'"
  proof (rule keepsI)
    show "queue_ok m'" by (rule queue_ok_commit_write [OF assms])
    show "settled m' p" if "settled m p" for p
      using that by (auto simp: settled_def parts)
  qed (simp add: parts)
  show "quiet m \<Longrightarrow> quiet m'"
    by (auto simp: quiet_def parts list_all_iff is_waiting_def is_staged_def)
qed

lemma cancel_unless_keeps:
  assumes "queue_ok m" and "cancel_unless keep m = (m', n)"
  shows "keeps m m'" and "quiet m \<Longrightarrow> quiet m'" and "m_cancel_run_called m' = m_cancel_run_called m"
proof -
  note parts = cancel_unless_parts [OF assms]
  show "keeps m m'"
  proof (rule keepsI)
    show "queue_ok m'" by (rule queue_ok_cancel_unless [OF assms])
    show "m_brk m \<le> m_brk m'" by (subst parts(4)) simp
    show "settled m' p" if "settled m p" for p
      using that by (auto simp: settled_def parts(1,3))
  qed
  show "quiet m \<Longrightarrow> quiet m'" by (auto simp: quiet_def parts(1,3) list_all_iff)
  show "m_cancel_run_called m' = m_cancel_run_called m" by (subst parts(4)) simp
qed

lemma cancel_on_conn_lost_keeps:
  assumes "queue_ok m" and "cancel_on_conn_lost m = (m', n)"
  shows "keeps m m'" and "quiet m \<or> \<not> m_cancel_run_called m \<Longrightarrow> quiet m'" and "m_cancel_run_called m'"
proof -
  have "keeps m m' \<and> (quiet m \<or> \<not> m_cancel_run_called m \<longrightarrow> quiet m') \<and> m_cancel_run_called m'"
  proof (cases "m_cancel_run_called m")
    case True
    with assms show ?thesis by (auto simp: cancel_on_conn_lost_def keeps_def)
  next
    case False
    note parts = cancel_on_conn_lost_parts [OF assms(1) False assms(2)]
    have "keeps m m'"
    proof (rule keepsI)
      show "queue_ok m'" by (rule queue_ok_cancel_on_conn_lost [OF assms])
      show "m_brk m \<le> m_brk m'" by (subst parts(4)) simp
      show "settled m' p" if "settled m p" for p
        using that by (auto simp: settled_def parts(1,3))
    qed
    moreover have "quiet m'" by (auto simp: quiet_def parts(1,3) list_all_iff)
    moreover have "m_cancel_run_called m'" by (subst parts(4)) simp
    ultimately show ?thesis by simp
  qed
  then show "keeps m m'" "quiet m \<or> \<not> m_cancel_run_called m \<Longrightarrow> quiet m'" "m_cancel_run_called m'" by auto
qed

lemma keeps_same:
  assumes "queue_ok m" and "m_reqs m' = m_reqs m" and "m_heap m' = m_heap m" and "m_brk m' = m_brk m"
  shows "keeps m m'"
  using assms by (intro keepsI queue_ok_heap_brk [OF assms]) (simp_all add: settled_def)

lemma commit_read_keeps:
  assumes "queue_ok m" and "commit_read m s = Inr (m', s', ec, res, n)"
  shows "keeps m m'" and "quiet m \<Longrightarrow> quiet m'" and "m_cancel_run_called m' = m_cancel_run_called m"
    and "m_write_buffer m' = m_write_buffer m"
proof -
  obtain p' s1 b e where out: "(m', s', ec, res, n) = read_outcome m (p', s1, b, e)"
    using assms(2) by (rule commit_read_cases) (metis prod_cases4)
  have heap: "m_brk m' = m_brk m" "m_cancel_run_called m' = m_cancel_run_called m"
    "m_write_buffer m' = m_write_buffer m" "set (m_reqs m') \<subseteq> set (m_reqs m)"
    "is_waiting (m_heap m' p) = is_waiting (m_heap m p)" "settled m p \<Longrightarrow> settled m' p" for p
    using out
    by (auto simp: read_outcome_def Let_def settled_def take_response_def reads_push_def front_ready_def
        list.set_sel neq_Nil_conv split: if_splits option.splits)
  then show "keeps m m'" using queue_ok_commit_read [OF assms] by (intro keepsI) auto
  from heap show "quiet m \<Longrightarrow> quiet m'" by (auto simp: quiet_def list_all_iff)
  show "m_cancel_run_called m' = m_cancel_run_called m" "m_write_buffer m' = m_write_buffer m"
    by (fact heap)+
qed

lemma exec_keeps:
  assumes "queue_ok m" and "make_elem m req ad = (p, m')"
  shows "keeps m (add m' p)" and "quiet m \<Longrightarrow> quiet (add m' p)" and "keeps m m'" and "quiet m \<Longrightarrow> quiet m'"
    and "m_cancel_run_called (add m' p) = m_cancel_run_called m" and "m_cancel_run_called m' = m_cancel_run_called m"
    and "p < m_brk m'" and "p \<in> set (m_reqs (add m' p))"
proof -
  note new = make_elem_fresh [OF assms]
  have w: "is_waiting (m_heap m' p)" by (simp add: new elem_simps)
  note reqs = add_reqs [OF new(1) w]
  have old: "m_heap m' q = m_heap m q" if "q < m_brk m" for q
    using assms(2) that by (auto simp: make_elem_def)
  have brk: "m_brk m \<le> m_brk m'" using assms(2) by (auto simp: make_elem_def)
  have ok: "queue_ok (add m' p)" using new w new_elem_ok [of req ad] by (intro queue_ok_add) auto
  have set: "set (m_reqs (add m' p)) = insert p (set (m_reqs m))" by (auto simp: reqs new(3))
  show "keeps m (add m' p)"
    using ok brk by (intro keepsI) (auto simp: add_frame settled_def set old)
  show "keeps m m'"
    using new(1) brk by (intro keepsI) (auto simp: settled_def new(3) old)
  show "p < m_brk m'" by (fact new(5))
  show "p \<in> set (m_reqs (add m' p))" by (simp add: set)
  show "quiet m \<Longrightarrow> quiet m'" "quiet m \<Longrightarrow> quiet (add m' p)"
    using w old queue_okD(1) [OF assms(1)] by (auto simp: quiet_def list_all_iff set add_frame new(3))
  show "m_cancel_run_called (add m' p) = m_cancel_run_called m" "m_cancel_run_called m' = m_cancel_run_called m"
    using assms(2) by (auto simp: add_def make_elem_def Let_def)
qed

lemma remove_keeps:
  assumes "queue_ok m" and "remove_elem m p = Inr (m', b)"
  shows "queue_ok m'" and "m_brk m' = m_brk m" and "quiet m \<Longrightarrow> quiet m'"
    and "m_cancel_run_called m' = m_cancel_run_called m"
    and "settled m q \<Longrightarrow> q \<noteq> p \<or> \<not> b \<Longrightarrow> settled m' q"
  using queue_ok_remove [OF assms] assms(2)
  by (auto simp: remove_elem_def Let_def quiet_def list_all_iff settled_def split: if_splits)

text \<open>A settled request can be removed safely.\<close>

lemma settled_remove: "queue_ok m \<Longrightarrow> settled m p \<Longrightarrow> e_ec (m_heap m p) = None \<Longrightarrow> \<exists>r. remove_elem m p = Inr r"
proof (cases "p \<in> set (m_reqs m)")
  case True
  then show "queue_ok m \<Longrightarrow> \<exists>r. remove_elem m p = Inr r" by (cases "is_waiting (m_heap m p)") (auto simp: remove_elem_ok)
next
  case False
  then show "settled m p \<Longrightarrow> e_ec (m_heap m p) = None \<Longrightarrow> \<exists>r. remove_elem m p = Inr r"
    by (auto simp: settled_def remove_elem_def)
qed

section \<open>The connection\<close>

abbreviation flagged :: "'u connection \<Rightarrow> bool" where
  "flagged c \<equiv> m_cancel_run_called (c_mpx c)"

definition exec_ok :: "'s multiplexer \<Rightarrow> ptr \<Rightarrow> exec_pc \<Rightarrow> bool" where
  "exec_ok m p pc \<longleftrightarrow> p < m_brk m \<and> pc \<noteq> Exec_start \<and> (pc = Exec_notified \<longrightarrow> settled m p)"

text \<open>The requests the connection makes itself: only HELLO has priority.\<close>

definition own_ok :: "'u connection \<Rightarrow> bool" where [simp]:
  "own_ok c \<longleftrightarrow> r_cfg (h_hello_req (c_handshaker c)) = default_request_config
     \<and> \<not> r_has_hello_priority (hc_req (c_checker c))"

definition conn_ok :: "'u connection \<Rightarrow> bool" where
  "conn_ok c \<longleftrightarrow> queue_ok (c_mpx c)
     \<and> (\<forall>p pc. c_execs c p = Some pc \<longrightarrow> exec_ok (c_mpx c) p pc)
     \<and> own_ok c"

definition tame :: "'u connection \<Rightarrow> 'u connection \<Rightarrow> bool" where
  "tame c c' \<longleftrightarrow> (quiet (c_mpx c) \<longrightarrow> quiet (c_mpx c'))
     \<and> (c_open c' = c_open c \<and> flagged c' = flagged c
        \<or> \<not> c_open c' \<and> flagged c' \<and> (flagged c \<or> quiet (c_mpx c')))"

definition good :: "'u connection \<Rightarrow> 'u connection \<Rightarrow> bool" where
  "good c c' \<longleftrightarrow> (conn_ok c \<longrightarrow> conn_ok c' \<and> tame c c')"

lemma conn_ok_exec:
  assumes "conn_ok c" and "c_execs c p = Some pc"
  shows "p < m_brk (c_mpx c)" and "pc \<noteq> Exec_start" and "pc = Exec_notified \<Longrightarrow> settled (c_mpx c) p"
  using assms by (auto simp: conn_ok_def exec_ok_def)

lemma good_refl [simp]: "good c c"
  by (simp add: good_def tame_def)

lemma good_trans: "good c c' \<Longrightarrow> good c' c'' \<Longrightarrow> good c c''"
  by (auto simp: good_def tame_def)

lemma goodD: "good c c' \<Longrightarrow> conn_ok c \<Longrightarrow> conn_ok c'" "good c c' \<Longrightarrow> conn_ok c \<Longrightarrow> tame c c'"
  by (simp_all add: good_def)

lemma conn_ok_keeps:
  assumes "conn_ok c" and "keeps (c_mpx c) (c_mpx c')" and "c_execs c' = c_execs c"
    and "own_ok c \<Longrightarrow> own_ok c'"
  shows "conn_ok c'"
  using assms unfolding conn_ok_def keeps_def exec_ok_def by (metis order_less_le_trans)

lemma good_keeps:
  assumes "queue_ok (c_mpx c) \<Longrightarrow> keeps (c_mpx c) (c_mpx c')" and "c_execs c' = c_execs c"
    and "own_ok c \<Longrightarrow> own_ok c'"
    and "conn_ok c \<Longrightarrow> queue_ok (c_mpx c) \<Longrightarrow> tame c c'"
  shows "good c c'"
  using assms conn_ok_keeps [of c c'] by (auto simp: good_def conn_ok_def)

text \<open>Whatever leaves the multiplexer, the socket and the pending operations alone is harmless.\<close>

lemma good_frame:
  assumes "c_mpx c' = c_mpx c" and "c_execs c' = c_execs c" and "c_open c' = c_open c"
    and "own_ok c \<Longrightarrow> own_ok c'"
  shows "good c c'"
  using assms by (intro good_keeps) (auto simp: tame_def intro: keeps_same)

lemma do_call_simps [simp]:
  "c_mpx (do_call k c) = c_mpx c" "c_open (do_call k c) = c_open c" "c_execs (do_call k c) = c_execs c"
  "c_handshaker (do_call k c) = c_handshaker c" "c_cfg (do_call k c) = c_cfg c"
  "c_responses (do_call k c) = c_responses c" "c_checker (do_call k c) = c_checker c"
  "c_resv (do_call k c) = c_resv c" "c_ctor (do_call k c) = c_ctor c"
  by (simp_all add: do_call_def)

lemma good_do_call: "good c (do_call k c)"
  by (rule good_frame) simp_all

lemma cancel_run_simps [simp]:
  "c_checker (cancel_run c) = c_checker c" "c_handshaker (cancel_run c) = c_handshaker c" "c_cfg (cancel_run c) = c_cfg c"
  "c_responses (cancel_run c) = c_responses c" "c_execs (cancel_run c) = c_execs c" "\<not> c_open (cancel_run c)"
  "c_mpx (cancel_run c) = fst (cancel_on_conn_lost (c_mpx c))"
  by (simp_all add: cancel_run_def close_def Let_def)

lemma cancel_run_good: "good c (cancel_run c)"
proof (rule good_keeps)
  obtain m n where m: "cancel_on_conn_lost (c_mpx c) = (m, n)" by fastforce
  show "queue_ok (c_mpx c) \<Longrightarrow> keeps (c_mpx c) (c_mpx (cancel_run c))"
    using cancel_on_conn_lost_keeps(1) [OF _ m] by (simp add: m)
  show "queue_ok (c_mpx c) \<Longrightarrow> tame c (cancel_run c)"
    using cancel_on_conn_lost_keeps(2,3) [OF _ m] by (auto simp: tame_def m)
qed simp_all

lemma cancel_run_flagged: "conn_ok c \<Longrightarrow> flagged (cancel_run c)"
  using cancel_on_conn_lost_keeps(3) [of "c_mpx c"]
  by (cases "cancel_on_conn_lost (c_mpx c)") (auto simp: cancel_run_def close_def Let_def conn_ok_def)

lemma conn_cancel_waiting_good: "good c (conn_cancel_waiting c)"
proof (rule good_keeps)
  obtain m n where m: "cancel_unless (\<lambda>e. \<not> is_waiting e) (c_mpx c) = (m, n)" by fastforce
  have c: "conn_cancel_waiting c = c\<lparr>c_mpx := m\<rparr>" by (simp add: conn_cancel_waiting_def cancel_waiting_def m)
  show "queue_ok (c_mpx c) \<Longrightarrow> keeps (c_mpx c) (c_mpx (conn_cancel_waiting c))"
    "queue_ok (c_mpx c) \<Longrightarrow> tame c (conn_cancel_waiting c)"
    using cancel_unless_keeps [OF _ m] by (auto simp: c tame_def)
qed (simp_all add: conn_cancel_waiting_def)

lemma good_cancel_run: "good c c' \<Longrightarrow> good c (cancel_run c')"
  using cancel_run_good good_trans by blast

lemma good_call: "good c c' \<Longrightarrow> good c (do_call k c')"
  using good_do_call good_trans by blast

lemma good_cancel_waiting: "good c c' \<Longrightarrow> good c (conn_cancel_waiting c')"
  using conn_cancel_waiting_good good_trans by blast

lemma cancel_good: "good c (cancel op c)"
  by (cases op)
    (auto intro!: good_cancel_run good_cancel_waiting good_call good_frame
      simp: checker_cancel_def no_reconnection_def resolver_cancel_def)

section \<open>Requests\<close>

lemma good_exec:
  assumes "good c c1" and "\<And>p pc. c_execs c' p = Some pc \<Longrightarrow>
      c_execs c1 p = Some pc \<or> (conn_ok c \<longrightarrow> exec_ok (c_mpx c1) p pc)"
    and "c_mpx c' = c_mpx c1" and "c_open c' = c_open c1" and "own_ok c1 \<Longrightarrow> own_ok c'"
  shows "good c c'"
proof -
  have "conn_ok c \<Longrightarrow> conn_ok c1 \<Longrightarrow> conn_ok c'"
    using assms(2-5) unfolding conn_ok_def by metis
  moreover have "tame c c1 \<Longrightarrow> tame c c'" using assms(3,4) by (simp add: tame_def)
  ultimately show ?thesis using assms(1) by (auto simp: good_def)
qed

lemma async_exec_good:
  assumes "async_exec req adapter c = Inr (c', p)"
  shows "good c c'"
proof -
  obtain m where m: "make_elem (c_mpx c) req (adapt_fn adapter) = (p, m)"
    using assms by (auto simp: async_exec_def Let_def andThen_Inr_iff make_elem_def split: if_splits outcome.splits prod.splits)
  have upd: "good c (c\<lparr>c_mpx := m'\<rparr>)" if "m' = m \<or> m' = add m p" for m'
    using that exec_keeps [OF _ m] by (intro good_keeps) (auto simp: tame_def)
  show ?thesis
  proof (cases "cancel_if_not_connected (r_cfg (e_req (m_heap m p))) \<and> \<not> c_open c")
    case True
    with assms m have c': "c' = c\<lparr>c_mpx := m, c_execs := (c_execs c)(p \<mapsto> Exec_dispatched)\<rparr>"
      by (auto simp: async_exec_def Let_def split: if_splits)
    show ?thesis
      using exec_keeps(7) [OF _ m]
      by (intro good_exec [OF upd [of m]]) (auto simp: c' exec_ok_def conn_ok_def split: if_splits)
  next
    case False
    let ?c1 = "c\<lparr>c_mpx := add m p\<rparr>"
    let ?c2 = "if trigger_write ?c1 then do_call Writer_timer_cancel ?c1 else ?c1"
    from False assms m have c': "c' = ?c2\<lparr>c_execs := (c_execs c)(p \<mapsto> Exec_notified)\<rparr>"
      by (auto simp: async_exec_def Let_def split: if_splits)
    have g: "good c ?c2" using upd [of "add m p"] by (auto intro: good_call)
    show ?thesis
      using exec_keeps(7,8) [OF _ m]
      by (intro good_exec [OF g]) (auto simp: c' exec_ok_def conn_ok_def settled_def add_frame split: if_splits)
  qed
qed

lemma resume_exec_completes:
  assumes "conn_ok c" and "c_execs c p = Some pc" and "cs \<subseteq> {terminal}"
  shows "\<exists>c' r. resume_exec p cs c = Inr (c', Some r)"
proof (cases "pc = Exec_dispatched")
  case False
  moreover have "pc \<noteq> Exec_start" using assms(1,2) by (auto simp: conn_ok_def exec_ok_def)
  ultimately have pc: "pc = Exec_notified" by (cases pc) auto
  have s: "queue_ok (c_mpx c)" "settled (c_mpx c) p" using assms(1,2) pc by (auto simp: conn_ok_def exec_ok_def)
  show ?thesis
  proof (cases "e_ec (m_heap (c_mpx c) p)")
    case None
    from settled_remove [OF s None] obtain m b where "remove_elem (c_mpx c) p = Inr (m, b)" by auto
    with None assms(2,3) pc show ?thesis
      by (cases "cs = {}") (auto simp: resume_exec_def Let_def is_cancelled_def subset_singleton_iff)
  qed (use assms(2) pc in \<open>auto simp: resume_exec_def Let_def\<close>)
qed (use assms(2) in \<open>simp add: resume_exec_def\<close>)

lemma remove_good:
  assumes "remove_elem (c_mpx c) p = Inr (m, b)"
  shows "good c (c\<lparr>c_mpx := m, c_execs := (c_execs c)(p := None)\<rparr>)"
  unfolding good_def
proof (intro impI conjI)
  assume ok: "conn_ok c"
  then have q: "queue_ok (c_mpx c)" by (simp add: conn_ok_def)
  note rk = remove_keeps [OF q assms]
  from ok show "conn_ok (c\<lparr>c_mpx := m, c_execs := (c_execs c)(p := None)\<rparr>)"
    by (auto simp: conn_ok_def exec_ok_def rk split: if_splits)
  show "tame c (c\<lparr>c_mpx := m, c_execs := (c_execs c)(p := None)\<rparr>)" using rk by (simp add: tame_def)
qed

lemma resume_exec_good:
  assumes "resume_exec p cs c = Inr (c', r)" and "cs \<subseteq> {terminal}"
  shows "good c c'"
proof -
  consider (no) "c_execs c p = None \<or> \<not> conn_ok c" | (some) pc where "c_execs c p = Some pc" "pc \<noteq> Exec_start"
    using conn_ok_exec(2) by (cases "c_execs c p") auto
  then show ?thesis
  proof cases
    case no
    with assms show ?thesis by (cases "conn_ok c") (auto simp: resume_exec_def, simp add: good_def)
  next
    case (some pc)
    show ?thesis
    proof (cases "pc = Exec_notified \<and> e_ec (m_heap (c_mpx c) p) = None \<and> is_cancelled cs")
      case True
      then obtain m b where rm: "remove_elem (c_mpx c) p = Inr (m, b)"
        and c': "c' = (if b then c\<lparr>c_mpx := m\<rparr> else cancel_run (c\<lparr>c_mpx := m\<rparr>))\<lparr>c_execs := (c_execs c)(p := None)\<rparr>"
        using assms some
        by (auto simp: resume_exec_def Let_def andThen_Inr_iff is_cancelled_def subset_singleton_iff cancel_run_def
            close_def split: if_splits)
      have "cancel_run (c\<lparr>c_mpx := m\<rparr>)\<lparr>c_execs := (c_execs c)(p := None)\<rparr> =
          cancel_run (c\<lparr>c_mpx := m, c_execs := (c_execs c)(p := None)\<rparr>)"
        by (simp add: cancel_run_def close_def do_call_def Let_def)
      with remove_good [OF rm] c' show ?thesis by (auto intro: good_cancel_run)
    next
      case False
      have "good c (c\<lparr>c_execs := (c_execs c)(p := None)\<rparr>)"
        by (rule good_exec [OF good_refl]) (auto split: if_splits)
      with False assms some show ?thesis
        by (cases pc) (auto simp: resume_exec_def Let_def split: if_splits)
    qed
  qed
qed

section \<open>Operations\<close>

lemma commit_read_good:
  assumes "commit_read (c_mpx c) s = Inr (m, s', ec, res, n)"
  shows "good c (c\<lparr>c_mpx := m, c_responses := s''\<rparr>)"
  using commit_read_keeps [OF _ assms] by (intro good_keeps) (auto simp: tame_def)

lemma reader_commit_good: "reader_commit msg l try_send c = Inr (c', out) \<Longrightarrow> good c c'"
proof (induction msg l try_send c rule: reader_commit.induct)
  case (1 msg l try_send c)
  from "1.prems" obtain m s ec res n where rd: "commit_read (c_mpx c) (c_responses c) = Inr (m, s, ec, res, n)"
    by (subst (asm) reader_commit.simps) (auto simp: andThen_Inr_iff)
  let ?c1 = "c\<lparr>c_mpx := m, c_responses := s\<rparr>" and ?c2 = "do_call (Try_send n) (c\<lparr>c_mpx := m, c_responses := s\<rparr>)"
  note g1 = commit_read_good [OF rd, of s]
  note g2 = good_call [OF g1, of "Try_send n"]
  consider (stop) "good ?c1 c'" | (loop) "reader_commit msg l try_send ?c1 = Inr (c', out)" "ec = None" "res = Some False"
      "\<not> is_data_needed m"
    | (push) "reader_commit msg l try_send ?c2 = Inr (c', out)" "ec = None" "res = Some True" "try_send (c_calls ?c2)"
      "c_open ?c2" "\<not> is_data_needed m"
    using "1.prems" rd
    by (subst (asm) reader_commit.simps)
      (cases res; auto simp: Let_def reader_fail_def reader_append_def intro: good_call good_cancel_run good_do_call
        split: if_splits)
  then show ?case
  proof cases
    case stop
    with g1 show ?thesis by (rule good_trans)
  next
    case loop
    with "1.IH"(1) [OF rd refl refl refl refl refl] show ?thesis by (auto intro: good_trans [OF g1])
  next
    case push
    with "1.IH"(2) [OF rd refl refl refl refl refl] show ?thesis by (auto intro: good_trans [OF g2])
  qed
qed

lemma append_good: "good c (c\<lparr>c_mpx := (c_mpx c)\<lparr>m_read_buffer := b\<rparr>\<rparr>)"
  by (rule good_keeps) (auto simp: tame_def quiet_def intro: keeps_same)

lemma reader_op_good: "reader_op msg l try_send pc ec data c = Inr (c', out) \<Longrightarrow> good c c'"
proof (cases pc)
  case Reader_start
  then show "reader_op msg l try_send pc ec data c = Inr (c', out) \<Longrightarrow> good c c'"
    by (auto simp: reader_append_def dest: reader_commit_good split: if_splits)
next
  case Reader_appended
  then show "reader_op msg l try_send pc ec data c = Inr (c', out) \<Longrightarrow> good c c'"
    using append_good [THEN good_call, of c]
    by (auto simp: reader_append_def reader_fail_def Let_def split: if_splits
        intro!: good_call good_cancel_run append_good dest!: reader_commit_good intro: good_trans)
next
  case Reader_sent
  then show "reader_op msg l try_send pc ec data c = Inr (c', out) \<Longrightarrow> good c c'"
    by (auto simp: reader_append_def reader_fail_def dest: reader_commit_good split: if_splits
        intro!: good_call good_cancel_run)
qed

lemma commit_write_good: "good c (c\<lparr>c_mpx := fst (commit_write (c_mpx c))\<rparr>)"
proof (cases "commit_write (c_mpx c)")
  case (Pair m n)
  have "m_cancel_run_called m = m_cancel_run_called (c_mpx c)" if "queue_ok (c_mpx c)"
    using commit_write_parts(10) [OF that Pair] .
  with commit_write_keeps [OF _ Pair] show ?thesis
    by (intro good_keeps) (auto simp: tame_def Pair)
qed

text \<open>\<open>writer_loop\<close> is the one step that stages requests.\<close>

lemma writer_loop_ok:
  assumes "conn_ok c" and "writer_loop c = (c', out)"
  shows "conn_ok c'" and "c_open c' = c_open c" and "flagged c' = flagged c" and "\<exists>io pc. out = Suspend io pc"
proof -
  obtain m n where m: "prepare_write (c_mpx c) = (m, n)" by fastforce
  have q: "queue_ok (c_mpx c)" using assms(1) by (simp add: conn_ok_def)
  have c': "c' = c\<lparr>c_mpx := m\<rparr>" using assms(2) m by (auto simp: writer_loop_def Let_def split: if_splits)
  show "conn_ok c'" using prepare_write_keeps [OF q m] by (intro conn_ok_keeps [OF assms(1)]) (simp_all add: c')
  show "c_open c' = c_open c" "flagged c' = flagged c" using prepare_write_parts(10) [OF q m] by (simp_all add: c')
  show "\<exists>io pc. out = Suspend io pc" using assms(2) m by (auto simp: writer_loop_def Let_def split: if_splits)
qed

lemma hello_op_good:
  assumes "hello_op msg l pc ec c = Inr (c', out)"
  shows "good c c'"
proof (cases pc)
  case Hello_start
  with assms obtain h resp p where h: "add_hello (c_handshaker c) (hello_resp (c_responses c)) = Inr (h, resp)"
    and e: "async_exec (h_hello_req h) hello_adapter
      (c\<lparr>c_handshaker := h, c_responses := (c_responses c)\<lparr>hello_resp := resp\<rparr>\<rparr>) = Inr (c', p)"
    by (auto simp: andThen_Inr_iff Let_def)
  have "r_cfg (h_hello_req h) = r_cfg (h_hello_req (c_handshaker c))" using add_hello_cfg [OF h] by simp
  then have "good c (c\<lparr>c_handshaker := h, c_responses := (c_responses c)\<lparr>hello_resp := resp\<rparr>\<rparr>)"
    by (intro good_frame) simp_all
  with async_exec_good [OF e] show ?thesis using good_trans by blast
next
  case Hello_answered
  with assms show ?thesis by (auto simp: Let_def split: if_splits intro: good_call good_cancel_run good_do_call)
qed

lemma ping_op_good: "ping_op msg l pc ec c = Inr (c', out) \<Longrightarrow> good c c'"
  by (cases pc) (auto simp: ping_loop_def andThen_Inr_iff Let_def split: if_splits
      intro: good_call good_do_call async_exec_good)

lemma check_timeout_op_good:
  assumes "check_timeout_op msg l pc ec c = (c', out)"
  shows "good c c'"
proof -
  have fr: "good c c1" if "c_mpx c1 = c_mpx c" "c_execs c1 = c_execs c" "c_open c1 = c_open c"
      "c_handshaker c1 = c_handshaker c" "c_checker c1 = c_checker c" for c1
    by (rule good_frame) (simp_all add: that)
  have run: "good c (cancel_run (do_call k1 (do_call k2 c))\<lparr>c_checker := hc\<rparr>)" if "hc_req hc = hc_req (c_checker c)" for k1 k2 hc
    by (rule good_trans [OF good_cancel_run [OF good_call [OF good_do_call]] good_frame])
      (simp_all add: that)
  from assms show ?thesis
    by (cases pc) (auto simp: check_timeout_loop_def Let_def 
        split: if_splits sum.splits list.splits intro!: fr run)
qed

end
