(* ===== verification/Connection_Runs.thy ===== *)
theory Connection_Runs
  imports Connection_Invariants
begin

text \<open>
  Runs of a connection.  A system is a connection with its suspended operations: \<open>run_op\<close>, the
  parallel group it has started and the operations of \<open>async_exec\<close>.  A step is one event: a call
  by the user or the completion of an asynchronous operation of Asio, with any result that
  operation can have.  Steps that would fault do not exist.
\<close>

section \<open>Systems\<close>

record 'u system =
  s_conn :: "'u connection"
  s_logger :: logger
  s_run :: "(run_pc, error_code option) outcome option"
  s_group :: "group option"
  s_write_open :: bool

text \<open>\<open>s_write_open\<close> is whether the socket was open when the pending write was started.\<close>

datatype 'u event =
    Ev_exec request "'u responses any_adapter"
  | Ev_resume ptr "cancellation_type set"
  | Ev_cancel operation
  | Ev_receive
  | Ev_set_receive_response "size_t \<Rightarrow> 'u responses adapter"
  | Ev_run config logger
  | Ev_resolved "error_code option" "endpoint list"
  | Ev_connected "error_code option" endpoint bool
  | Ev_handshaken "error_code option"
  | Ev_group_ended "nat list"
  | Ev_reconnect "error_code option"
  | Ev_ping "error_code option"
  | Ev_check "error_code option"
  | Ev_read "error_code option" string
  | Ev_sent "error_code option"
  | Ev_written "error_code option"
  | Ev_woken "error_code option"

text \<open>A step of \<open>run_op\<close>: if it suspends on the parallel group, the group is started.\<close>

fun enter_run ::
  "messages \<Rightarrow> (call list \<Rightarrow> bool) \<Rightarrow> 'u system \<Rightarrow> 'u connection \<times> (run_pc, error_code option) outcome
    \<Rightarrow> fault + 'u system" where
  "enter_run msg try_send s (c, out) =
     (if out = Suspend Parallel_group Run_group_ended then
        andThen (start_group msg (s_logger s) try_send c) (\<lambda>(c, g).
          Inr (s\<lparr>s_conn := c, s_run := Some out, s_group := Some g, s_write_open := c_open c\<rparr>))
      else Inr (s\<lparr>s_conn := c, s_run := Some out, s_group := None\<rparr>))"

text \<open>The operation that started the request \<open>p\<close> goes on when it completes.\<close>

definition exec_completed ::
  "messages \<Rightarrow> ptr \<Rightarrow> (error_code option \<times> size_t) option \<Rightarrow> 'u system \<Rightarrow> fault + 'u system" where
  "exec_completed msg p r s =
     (case (r, s_group s) of
        (Some (ec, n), Some g) \<Rightarrow>
          if g_hello g = Suspend (Async_exec p) Hello_answered then
            andThen (hello_op msg (s_logger s) Hello_answered ec (s_conn s)) (\<lambda>(c, out).
              Inr (s\<lparr>s_conn := c, s_group := Some (g\<lparr>g_hello := out\<rparr>)\<rparr>))
          else if g_ping g = Suspend (Async_exec p) Ping_answered then
            andThen (ping_op msg (s_logger s) Ping_answered ec (s_conn s)) (\<lambda>(c, out).
              Inr (s\<lparr>s_conn := c, s_group := Some (g\<lparr>g_ping := out\<rparr>)\<rparr>))
          else Inr s
      | _ \<Rightarrow> Inr s)"

inductive sys_step ::
  "messages \<Rightarrow> (call list \<Rightarrow> bool) \<Rightarrow> 'u system \<Rightarrow> 'u event \<Rightarrow> 'u system \<Rightarrow> bool"
  for msg :: messages and try_send :: "call list \<Rightarrow> bool" where
  exec: "async_exec req adapter (s_conn s) = Inr (c, p) \<Longrightarrow>
     sys_step msg try_send s (Ev_exec req adapter) (s\<lparr>s_conn := c\<rparr>)"
| resume: "c_execs (s_conn s) p = Some pc \<Longrightarrow> cs \<subseteq> {terminal} \<Longrightarrow>
     pc = Exec_notified \<longrightarrow> 0 < e_done (m_heap (c_mpx (s_conn s)) p) \<or> cs \<noteq> {} \<Longrightarrow>
     resume_exec p cs (s_conn s) = Inr (c, r) \<Longrightarrow> exec_completed msg p r (s\<lparr>s_conn := c\<rparr>) = Inr s' \<Longrightarrow>
     sys_step msg try_send s (Ev_resume p cs) s'"
| cancels: "sys_step msg try_send s (Ev_cancel op) (s\<lparr>s_conn := cancel op (s_conn s)\<rparr>)"
| receives: "sys_step msg try_send s Ev_receive (s\<lparr>s_conn := async_receive (s_conn s)\<rparr>)"
| sets_receive: "sys_step msg try_send s (Ev_set_receive_response response)
     (s\<lparr>s_conn := conn_set_receive_response response (s_conn s)\<rparr>)"
| runs: "s_run s = None \<or> (\<exists>r. s_run s = Some (Complete r)) \<Longrightarrow>
     async_run cfg msg l (s_conn s) = Inr (c, l', out) \<Longrightarrow> enter_run msg try_send (s\<lparr>s_logger := l'\<rparr>) (c, out) = Inr s' \<Longrightarrow>
     sys_step msg try_send s (Ev_run cfg l) s'"
| resolved: "s_run s = Some (Suspend io Run_resolved) \<Longrightarrow> resolve_op (c_resv (s_conn s)) ec eps = (rs, ec') \<Longrightarrow>
     enter_run msg try_send s (run_op msg (s_logger s) Run_resolved [0,0,0,0,0] ec' None None None
       ((s_conn s)\<lparr>c_resv := rs\<rparr>)) = Inr s' \<Longrightarrow>
     sys_step msg try_send s (Ev_resolved ec eps) s'"
| connected: "s_run s = Some (Suspend io Run_connected) \<Longrightarrow> connect_op (c_ctor (s_conn s)) ec ep = (ct, ec') \<Longrightarrow>
     (ec = None \<longrightarrow> opened) \<Longrightarrow>
     enter_run msg try_send s (run_op msg (s_logger s) Run_connected [0,0,0,0,0] ec' None None None
       ((s_conn s)\<lparr>c_ctor := ct, c_open := opened\<rparr>)) = Inr s' \<Longrightarrow>
     sys_step msg try_send s (Ev_connected ec ep opened) s'"
| handshaken: "s_run s = Some (Suspend io Run_handshaken) \<Longrightarrow>
     enter_run msg try_send s (run_op msg (s_logger s) Run_handshaken [0,0,0,0,0] ec None None None (s_conn s)) = Inr s' \<Longrightarrow>
     sys_step msg try_send s (Ev_handshaken ec) s'"
| group_ended: "s_run s = Some (Suspend io Run_group_ended) \<Longrightarrow> s_group s = Some g \<Longrightarrow> set order = {..<5} \<Longrightarrow> distinct order \<Longrightarrow>
     g_hello g = Complete ec0 \<Longrightarrow> g_ping g = Complete ec1 \<Longrightarrow> g_check g = Complete ec2 \<Longrightarrow> g_reader g = Complete ec3 \<Longrightarrow>
     g_writer g = Complete ec4 \<Longrightarrow>
     enter_run msg try_send s (run_op msg (s_logger s) Run_group_ended order ec0 ec1 ec2 ec3 (s_conn s)) = Inr s' \<Longrightarrow>
     sys_step msg try_send s (Ev_group_ended order) s'"
| reconnects: "s_run s = Some (Suspend io Run_waited) \<Longrightarrow>
     enter_run msg try_send s (run_op msg (s_logger s) Run_waited [0,0,0,0,0] ec None None None (s_conn s)) = Inr s' \<Longrightarrow>
     sys_step msg try_send s (Ev_reconnect ec) s'"
| ping: "s_group s = Some g \<Longrightarrow> g_ping g = Suspend io pc \<Longrightarrow> io = Post \<or> io = Ping_wait \<Longrightarrow>
     ping_op msg (s_logger s) pc ec (s_conn s) = Inr (c, out) \<Longrightarrow>
     sys_step msg try_send s (Ev_ping ec) (s\<lparr>s_conn := c, s_group := Some (g\<lparr>g_ping := out\<rparr>)\<rparr>)"
| check: "s_group s = Some g \<Longrightarrow> g_check g = Suspend io pc \<Longrightarrow>
     check_timeout_op msg (s_logger s) pc ec (s_conn s) = (c, out) \<Longrightarrow>
     sys_step msg try_send s (Ev_check ec) (s\<lparr>s_conn := c, s_group := Some (g\<lparr>g_check := out\<rparr>)\<rparr>)"
| read: "s_group s = Some g \<Longrightarrow> g_reader g = Suspend io Reader_appended \<Longrightarrow>
     reader_op msg (s_logger s) try_send Reader_appended ec data (s_conn s) = Inr (c, out) \<Longrightarrow>
     sys_step msg try_send s (Ev_read ec data) (s\<lparr>s_conn := c, s_group := Some (g\<lparr>g_reader := out\<rparr>)\<rparr>)"
| sent: "s_group s = Some g \<Longrightarrow> g_reader g = Suspend io Reader_sent \<Longrightarrow>
     reader_op msg (s_logger s) try_send Reader_sent ec [] (s_conn s) = Inr (c, out) \<Longrightarrow>
     sys_step msg try_send s (Ev_sent ec) (s\<lparr>s_conn := c, s_group := Some (g\<lparr>g_reader := out\<rparr>)\<rparr>)"
| wrote: "s_group s = Some g \<Longrightarrow> g_writer g = Suspend (Async_write ssl buf) Writer_written \<Longrightarrow> (ec = None \<longrightarrow> s_write_open s) \<Longrightarrow>
     writer_op msg (s_logger s) Writer_written ec (s_conn s) = (c, out) \<Longrightarrow>
     sys_step msg try_send s (Ev_written ec)
       (s\<lparr>s_conn := c, s_group := Some (g\<lparr>g_writer := out\<rparr>), s_write_open := c_open c\<rparr>)"
| woken: "s_group s = Some g \<Longrightarrow> g_writer g = Suspend Writer_wait Writer_woken \<Longrightarrow>
     writer_op msg (s_logger s) Writer_woken ec (s_conn s) = (c, out) \<Longrightarrow>
     sys_step msg try_send s (Ev_woken ec)
       (s\<lparr>s_conn := c, s_group := Some (g\<lparr>g_writer := out\<rparr>), s_write_open := c_open c\<rparr>)"

definition new_system :: "'u connection \<Rightarrow> logger \<Rightarrow> 'u system" where
  "new_system c l = \<lparr>s_conn = c, s_logger = l, s_run = None, s_group = None, s_write_open = False\<rparr>"

section \<open>The invariant\<close>

text \<open>
  Requests are staged or written only while a writer is running and the run has not been given up.
\<close>

definition suspended :: "('p, 'r) outcome \<Rightarrow> bool" where
  "suspended out \<longleftrightarrow> (\<exists>io pc. out = Suspend io pc)"

definition group_ok :: "'u connection \<Rightarrow> group \<Rightarrow> bool \<Rightarrow> bool" where
  "group_ok c g write_open \<longleftrightarrow>
     (c_open c \<longrightarrow> \<not> flagged c)
     \<and> (quiet (c_mpx c) \<or> suspended (g_writer g) \<and> \<not> flagged c)
     \<and> (\<forall>io pc. g_writer g = Suspend io pc \<longrightarrow> c_open c \<or> flagged c \<or> (\<exists>ssl b. io = Async_write ssl b) \<and> \<not> write_open)"

definition sys_ok :: "'u system \<Rightarrow> bool" where
  "sys_ok s \<longleftrightarrow> conn_ok (s_conn s)
     \<and> (case s_group s of
          None \<Rightarrow> quiet (c_mpx (s_conn s))
        | Some g \<Rightarrow> group_ok (s_conn s) g (s_write_open s))
     \<and> (s_group s \<noteq> None \<longleftrightarrow> s_run s = Some (Suspend Parallel_group Run_group_ended))"

lemma group_ok_tame:
  assumes "group_ok c g w" and "tame c c'" and "g_writer g' = g_writer g"
  shows "group_ok c' g' w"
  using assms unfolding group_ok_def tame_def by auto

lemma sys_ok_good:
  assumes "sys_ok s" and "good (s_conn s) c" and "s_run s' = s_run s" and "s_conn s' = c" and "s_write_open s' = s_write_open s"
    and "(s_group s' = s_group s) \<or> (\<exists>g g'. s_group s = Some g \<and> s_group s' = Some g' \<and> g_writer g' = g_writer g)"
  shows "sys_ok s'"
proof -
  have "conn_ok c" "tame (s_conn s) c" using assms(1,2) by (auto simp: sys_ok_def good_def)
  with assms group_ok_tame [OF _ \<open>tame (s_conn s) c\<close>] show ?thesis
    by (auto simp: sys_ok_def tame_def split: option.splits)
qed

section \<open>Starting the group\<close>

lemma conn_ok_frame:
  assumes "conn_ok c" and "m_reqs (c_mpx c') = m_reqs (c_mpx c)" and "m_heap (c_mpx c') = m_heap (c_mpx c)"
    and "m_brk (c_mpx c') = m_brk (c_mpx c)" and "c_execs c' = c_execs c"
    and "own_ok c \<Longrightarrow> own_ok c'"
  shows "conn_ok c'"
  using assms by (intro conn_ok_keeps [OF assms(1)] keeps_same) (simp_all add: conn_ok_def)

lemma mpx_reset_simps [simp]:
  "m_reqs (mpx_reset m) = m_reqs m" "m_heap (mpx_reset m) = m_heap m" "m_brk (mpx_reset m) = m_brk m"
  "m_read_buffer (mpx_reset m) = []" "m_write_buffer (mpx_reset m) = []" "\<not> m_cancel_run_called (mpx_reset m)"
  "quiet (mpx_reset m) = quiet m"
  by (simp_all add: mpx_reset_def quiet_def)

definition fresh_run :: "'u connection \<Rightarrow> bool" where
  "fresh_run c \<longleftrightarrow> conn_ok c \<and> quiet (c_mpx c) \<and> \<not> flagged c \<and> m_read_buffer (c_mpx c) = [] \<and> m_write_buffer (c_mpx c) = []"

lemma run_op_ok:
  assumes "conn_ok c" and "quiet (c_mpx c)" and "run_op msg l pc order ec0 ec1 ec2 ec3 c = (c', out)"
  shows "conn_ok c'" and "quiet (c_mpx c')" and "c_handshaker c' = c_handshaker c"
    and "out = Suspend Parallel_group Run_group_ended \<Longrightarrow> fresh_run c'"
proof -
  have parts: "c_mpx c' = (if out = Suspend Parallel_group Run_group_ended then mpx_reset (c_mpx c) else c_mpx c)"
    "c_execs c' = c_execs c" "c_handshaker c' = c_handshaker c" "c_checker c' = c_checker c"
    using assms(3)
    by (cases pc; auto simp: run_resolve_def run_established_def reset_stream_def no_reconnection_def Let_def
        split: if_splits)+
  show ok: "conn_ok c'" by (rule conn_ok_frame [OF assms(1)]) (simp_all add: parts)
  show q: "quiet (c_mpx c')" using assms(2) by (simp add: parts)
  show "c_handshaker c' = c_handshaker c" by (fact parts)
  show "out = Suspend Parallel_group Run_group_ended \<Longrightarrow> fresh_run c'"
    using ok q by (simp add: fresh_run_def parts)
qed

lemma async_exec_parts:
  assumes "queue_ok (c_mpx c)" and "async_exec req adapter c = Inr (c', p)"
  shows "p = m_brk (c_mpx c)" and "m_heap (c_mpx c') = (m_heap (c_mpx c))(p := new_elem req (adapt_fn adapter))"
    and "m_reqs (c_mpx c') =
      (if cancel_if_not_connected (r_cfg req) \<and> \<not> c_open c then m_reqs (c_mpx c)
       else if r_has_hello_priority req then filter (\<lambda>q. \<not> is_waiting (m_heap (c_mpx c) q)) (m_reqs (c_mpx c))
         @ p # filter (\<lambda>q. is_waiting (m_heap (c_mpx c) q)) (m_reqs (c_mpx c))
       else m_reqs (c_mpx c) @ [p])"
    and "m_read_buffer (c_mpx c') = m_read_buffer (c_mpx c)" and "m_write_buffer (c_mpx c') = m_write_buffer (c_mpx c)"
    and "flagged c' = flagged c" and "c_open c' = c_open c" and "c_handshaker c' = c_handshaker c"
    and "c_checker c' = c_checker c" and "c_responses c' = c_responses c" and "c_cfg c' = c_cfg c"
proof -
  obtain m where m: "make_elem (c_mpx c) req (adapt_fn adapter) = (p, m)"
    using assms(2) by (auto simp: async_exec_def Let_def andThen_Inr_iff make_elem_def split: if_splits outcome.splits prod.splits)
  note new = make_elem_fresh [OF assms(1) m]
  have w: "is_waiting (m_heap m p)" by (simp add: new elem_simps)
  have eq: "p = m_brk (c_mpx c)" "m = (c_mpx c)\<lparr>m_heap := (m_heap (c_mpx c))(p := new_elem req (adapt_fn adapter)),
      m_brk := m_brk (c_mpx c) + 1\<rparr>"
    using m by (auto simp: make_elem_def)
  have old: "filter (\<lambda>q. pr (is_waiting (m_heap m q))) (m_reqs (c_mpx c)) =
      filter (\<lambda>q. pr (is_waiting (m_heap (c_mpx c) q))) (m_reqs (c_mpx c))" for pr :: "bool \<Rightarrow> bool"
    using queue_okD(1) [OF assms(1)] by (intro filter_cong) (auto simp: eq)
  have reqs: "m_reqs (add m p) = (if r_has_hello_priority req
      then filter (\<lambda>q. \<not> is_waiting (m_heap (c_mpx c) q)) (m_reqs (c_mpx c))
        @ p # filter (\<lambda>q. is_waiting (m_heap (c_mpx c) q)) (m_reqs (c_mpx c))
      else m_reqs (c_mpx c) @ [p])"
    using add_reqs [OF new(1) w] old [of Not] old [of "\<lambda>b. b"] by (simp add: new(3,4) new_elem_def)
  have req: "e_req (m_heap m p) = req" by (simp add: new(4) new_elem_def)
  have addm: "m_read_buffer (add m p) = m_read_buffer m" "m_write_buffer (add m p) = m_write_buffer m"
    "m_cancel_run_called (add m p) = m_cancel_run_called m"
    by (simp_all add: add_def Let_def)
  show "p = m_brk (c_mpx c)" by (fact eq(1))
  let ?idle = "cancel_if_not_connected (r_cfg req) \<and> \<not> c_open c"
  have mpx: "c_mpx c' = (if ?idle then m else add m p)"
    using assms(2) m req by (auto simp: async_exec_def Let_def split: if_splits)
  show "m_heap (c_mpx c') = (m_heap (c_mpx c))(p := new_elem req (adapt_fn adapter))"
    using arg_cong [OF eq(2), of m_heap] by (simp add: mpx add_frame)
  show "m_reqs (c_mpx c') = (if ?idle then m_reqs (c_mpx c) else if r_has_hello_priority req
      then filter (\<lambda>q. \<not> is_waiting (m_heap (c_mpx c) q)) (m_reqs (c_mpx c))
        @ p # filter (\<lambda>q. is_waiting (m_heap (c_mpx c) q)) (m_reqs (c_mpx c))
      else m_reqs (c_mpx c) @ [p])"
    by (simp add: mpx reqs new(3))
  show "m_read_buffer (c_mpx c') = m_read_buffer (c_mpx c)" "m_write_buffer (c_mpx c') = m_write_buffer (c_mpx c)"
    "flagged c' = flagged c"
    by (simp_all add: mpx addm, simp_all add: eq(2))
  show "c_open c' = c_open c" "c_handshaker c' = c_handshaker c" "c_checker c' = c_checker c"
    "c_responses c' = c_responses c" "c_cfg c' = c_cfg c"
    using assms(2) m by (auto simp: async_exec_def Let_def split: if_splits)
qed

text \<open>
  The requests of the handshake come first: the queue holds waiting requests only when the group is
  started, HELLO is put before them, and the writer is started last.
\<close>

lemma start_groupE:
  assumes "start_group msg l try_send c = Inr (c', g)"
  obtains c1 hello c2 ping c3 check c4 reader where
    "hello_op msg l Hello_start None c = Inr (c1, hello)" and "ping_op msg l Ping_start None c1 = Inr (c2, ping)"
    and "async_check_timeout msg l c2 = (c3, check)" and "reader_op msg l try_send Reader_start None [] c3 = Inr (c4, reader)"
    and "writer_loop c4 = (c', g_writer g)" and "g_hello g = hello" and "g_ping g = ping" and "g_check g = check"
proof -
  note sg = assms [unfolded start_group_def]
  obtain c1 hello where hello: "hello_op msg l Hello_start None c = Inr (c1, hello)"
    using sg by (cases "hello_op msg l Hello_start None c") (auto simp del: hello_op.simps)
  note sg = sg [unfolded hello, simplified andThen.simps prod.case]
  obtain c2 ping where ping: "ping_op msg l Ping_start None c1 = Inr (c2, ping)"
    using sg by (cases "ping_op msg l Ping_start None c1") (auto simp del: ping_op.simps)
  obtain c3 check where check: "async_check_timeout msg l c2 = (c3, check)" by fastforce
  note sg = sg [unfolded ping, simplified andThen.simps prod.case Let_def]
  obtain c4 reader where rd: "reader_op msg l try_send Reader_start None [] c3 = Inr (c4, reader)"
    using sg by (cases "reader_op msg l try_send Reader_start None [] c3") (auto simp: check simp del: reader_op.simps)
  have "writer_loop c4 = (c', g_writer g)" "g_hello g = hello" "g_ping g = ping" "g_check g = check"
    using sg rd by (cases "writer_loop c4"; auto simp: check simp del: reader_op.simps)+
  with hello ping check rd show thesis by (rule that)
qed

definition first_in_queue :: "'u connection \<Rightarrow> ptr \<Rightarrow> request \<Rightarrow> bool" where
  "first_in_queue c p req \<longleftrightarrow> (\<exists>qs. m_reqs (c_mpx c) = p # qs) \<and> p < m_brk (c_mpx c) \<and> e_req (m_heap (c_mpx c) p) = req"

lemma fresh_run_good:
  assumes "fresh_run c" and "good c c'" and "c_open c' = c_open c" and "flagged c' = flagged c"
    and "m_read_buffer (c_mpx c') = m_read_buffer (c_mpx c)" and "m_write_buffer (c_mpx c') = m_write_buffer (c_mpx c)"
  shows "fresh_run c'"
  using assms by (auto simp: fresh_run_def good_def tame_def)

lemma hello_start:
  assumes "fresh_run c" and "hello_op msg l Hello_start None c = Inr (c1, out)"
  shows "fresh_run c1" and "c_open c1 = c_open c" and "c_checker c1 = c_checker c"
    and "c_responses c1 = (c_responses c)\<lparr>hello_resp := hello_resp (c_responses c1)\<rparr>"
    and "\<exists>p req. first_in_queue c1 p req
      \<and> r_payload req = concat (map command_text (hello_commands (h_cfg (c_handshaker c))))"
    and "\<exists>p. m_reqs (c_mpx c1) = p # m_reqs (c_mpx c)"
proof -
  have c: "conn_ok c" "queue_ok (c_mpx c)" "quiet (c_mpx c)" using assms(1) by (auto simp: fresh_run_def conn_ok_def)
  obtain h resp p where h: "add_hello (c_handshaker c) (hello_resp (c_responses c)) = Inr (h, resp)"
    and e: "async_exec (h_hello_req h) hello_adapter
      (c\<lparr>c_handshaker := h, c_responses := (c_responses c)\<lparr>hello_resp := resp\<rparr>\<rparr>) = Inr (c1, p)"
    using assms(2) by (auto simp: andThen_Inr_iff Let_def)
  note hh = add_hello_cfg [OF h] and parts = async_exec_parts [OF _ e, simplified, OF c(2)]
  have cfg: "r_cfg (h_hello_req h) = default_request_config" using c(1) hh(1) by (simp add: conn_ok_def)
  have req: "r_has_hello_priority (h_hello_req h)"
    "r_payload (h_hello_req h) = concat (map command_text (hello_commands (h_cfg (c_handshaker c))))"
    using hh(3) cfg by (auto simp: represents_def hello_commands_def hello_command_def default_request_config_def)
  show "fresh_run c1"
    by (rule fresh_run_good [OF assms(1) hello_op_good [OF assms(2)]]) (simp_all add: parts)
  show "c_open c1 = c_open c" "c_checker c1 = c_checker c"
    "c_responses c1 = (c_responses c)\<lparr>hello_resp := hello_resp (c_responses c1)\<rparr>"
    by (simp_all add: parts)
  have reqs: "m_reqs (c_mpx c1) = p # m_reqs (c_mpx c)"
    using c(3) req(1) cfg
    by (auto simp: parts(3) default_request_config_def quiet_def list_all_iff filter_empty_conv intro: filter_True)
  then show "\<exists>p. m_reqs (c_mpx c1) = p # m_reqs (c_mpx c)" by blast
  have "p < m_brk (c_mpx c1)"
    using hello_op_good [OF assms(2)] c(1) reqs by (auto simp: good_def conn_ok_def intro: queue_okD(1))
  with reqs have "first_in_queue c1 p (h_hello_req h)"
    by (simp add: first_in_queue_def parts(2) new_elem_def)
  with req(2) show "\<exists>p req. first_in_queue c1 p req
      \<and> r_payload req = concat (map command_text (hello_commands (h_cfg (c_handshaker c))))" by blast
qed

lemma ping_start:
  assumes "fresh_run c" and "ping_op msg l Ping_start None c = Inr (c1, out)" and "first_in_queue c p req"
  shows "fresh_run c1" and "c_open c1 = c_open c" and "first_in_queue c1 p req" and "c_responses c1 = c_responses c"
    and "c_checker c1 = c_checker c"
proof -
  have c: "conn_ok c" "queue_ok (c_mpx c)" "quiet (c_mpx c)" using assms(1) by (auto simp: fresh_run_def conn_ok_def)
  consider p' where "async_exec (hc_req (c_checker c)) ping_adapter c = Inr (c1, p')" | k where "c1 = do_call k c"
    using assms(2) by (auto simp: ping_loop_def andThen_Inr_iff split: if_splits)
  then have "fresh_run c1 \<and> c_open c1 = c_open c \<and> first_in_queue c1 p req \<and> c_responses c1 = c_responses c
      \<and> c_checker c1 = c_checker c"
  proof cases
    case 1
    note parts = async_exec_parts [OF c(2) 1]
    have fresh: "fresh_run c1"
      by (rule fresh_run_good [OF assms(1) ping_op_good [OF assms(2)]]) (simp_all add: parts)
    have np: "\<not> r_has_hello_priority (hc_req (c_checker c))" using c(1) by (simp add: conn_ok_def)
    have "\<exists>qs. m_reqs (c_mpx c1) = p # qs" using assms(3) np by (auto simp: parts(3) first_in_queue_def)
    moreover from this have "p < m_brk (c_mpx c1)"
      using fresh by (auto simp: fresh_run_def conn_ok_def intro: queue_okD(1))
    moreover have "p \<noteq> p'" using assms(3) by (auto simp: parts(1) first_in_queue_def)
    ultimately show ?thesis using fresh assms(3) by (simp add: first_in_queue_def parts)
  next
    case 2
    with assms(1,3) show ?thesis
      using fresh_run_good [OF assms(1) good_do_call, of k] by (simp add: first_in_queue_def)
  qed
  then show "fresh_run c1" "c_open c1 = c_open c" "first_in_queue c1 p req" "c_responses c1 = c_responses c"
    "c_checker c1 = c_checker c"
    by auto
qed

lemma check_start:
  assumes "async_check_timeout msg l c = (c1, out)"
  shows "good c c1" and "c_mpx c1 = c_mpx c" and "c_open c1 = c_open c" and "c_responses c1 = c_responses c"
  using assms
  by (auto simp: async_check_timeout_def check_timeout_loop_def split: if_splits intro!: good_call good_frame)

lemma start_group_ok:
  assumes "fresh_run c" and "start_group msg l try_send c = Inr (c', g)"
  shows "conn_ok c'" and "c_open c' = c_open c" and "\<not> flagged c'"
    and "\<exists>ssl rest. g_writer g = Suspend (Async_write ssl
      (concat (map command_text (hello_commands (h_cfg (c_handshaker c)))) @ rest)) Writer_written"
    and "\<exists>p. p \<in> set (m_reqs (c_mpx c')) \<and> \<not> is_waiting (m_heap (c_mpx c') p)"
proof -
  from assms(2) obtain c1 hello c2 ping c3 check c4 reader where
    hello: "hello_op msg l Hello_start None c = Inr (c1, hello)" and
    ping: "ping_op msg l Ping_start None c1 = Inr (c2, ping)" and
    check: "async_check_timeout msg l c2 = (c3, check)" and
    rd: "reader_op msg l try_send Reader_start None [] c3 = Inr (c4, reader)" and
    wr: "writer_loop c4 = (c', g_writer g)"
    by (rule start_groupE)
  obtain p req where first: "first_in_queue c1 p req"
    and pay: "r_payload req = concat (map command_text (hello_commands (h_cfg (c_handshaker c))))"
    using hello_start(5) [OF assms(1) hello] by blast
  note c1 = hello_start [OF assms(1) hello] and c2 = ping_start [OF hello_start(1) [OF assms(1) hello] ping first]
  note c3 = check_start [OF check]
  have f3: "fresh_run c3" using fresh_run_good [OF c2(1) c3(1)] by (simp add: c3)
  then have c4: "c4 = c3" using rd by (simp add: is_data_needed_def fresh_run_def reader_append_def)
  have q: "conn_ok c4" "queue_ok (c_mpx c4)" "quiet (c_mpx c4)" "\<not> flagged c4" "m_write_buffer (c_mpx c4) = []"
    using f3 by (auto simp: c4 fresh_run_def conn_ok_def)
  show "conn_ok c'" "c_open c' = c_open c" "\<not> flagged c'"
    using writer_loop_ok [OF q(1) wr] q(4) c4 c3 c2 c1 by simp_all
  obtain m n where m: "prepare_write (c_mpx c4) = (m, n)" by fastforce
  obtain qs where qs: "m_reqs (c_mpx c4) = p # qs" using c2(3) by (auto simp: first_in_queue_def c4 c3)
  moreover have "e_req (m_heap (c_mpx c4) p) = req" using c2(3) by (simp add: first_in_queue_def c4 c3)
  moreover have "filter (\<lambda>q. is_waiting (m_heap (c_mpx c4) q)) (m_reqs (c_mpx c4)) = m_reqs (c_mpx c4)"
    using q(3) by (simp add: quiet_def list_all_iff)
  ultimately have "n \<noteq> 0" "\<exists>rest. m_write_buffer m = r_payload req @ rest"
    using prepare_write_parts(2,4) [OF q(2) m] q(5) by auto
  moreover have "c_mpx c' = m" using wr m by (auto simp: writer_loop_def Let_def split: if_splits)
  then show "\<exists>p. p \<in> set (m_reqs (c_mpx c')) \<and> \<not> is_waiting (m_heap (c_mpx c') p)"
    using prepare_write_parts(1,5) [OF q(2) m] q(3) qs by (auto simp: quiet_def list_all_iff)
  ultimately show "\<exists>ssl rest. g_writer g = Suspend (Async_write ssl
      (concat (map command_text (hello_commands (h_cfg (c_handshaker c)))) @ rest)) Writer_written"
    using wr by (auto simp: writer_loop_def m Let_def pay eq_commute [of _ "g_writer g"])
qed

lemma start_group_total:
  assumes "fresh_run c"
  shows "\<exists>c' g. start_group msg l try_send c = Inr (c', g)"
proof -
  have exec: "\<exists>c' p. async_exec req ad c = Inr (c', p)" if "supported_response_size ad = -1" for req ad and c :: "'a connection"
    using that by (cases "make_elem (c_mpx c) req (adapt_fn ad)") (auto simp: async_exec_def Let_def)
  have hello: "supported_response_size (hello_adapter :: 'a responses any_adapter) = -1"
    and ping: "supported_response_size (ping_adapter :: 'a responses any_adapter) = -1"
    by (simp_all add: hello_adapter_def ping_adapter_def any_vector_def)
  obtain h resp where h: "add_hello (c_handshaker c) (hello_resp (c_responses c)) = Inr (h, resp)"
    by (rule add_hello_ok)
  obtain c1 p where "async_exec (h_hello_req h) hello_adapter
      (c\<lparr>c_handshaker := h, c_responses := (c_responses c)\<lparr>hello_resp := resp\<rparr>\<rparr>) = Inr (c1, p)"
    using exec [OF hello] by blast
  with h have hello: "hello_op msg l Hello_start None c = Inr (c1, Suspend (Async_exec p) Hello_answered)" by simp
  obtain q req where first: "first_in_queue c1 q req" using hello_start(5) [OF assms hello] by blast
  have "\<exists>c2 out. ping_op msg l Ping_start None c1 = Inr (c2, out)"
    using exec [OF ping, of "hc_req (c_checker c1)" c1] by (auto simp: ping_loop_def)
  then obtain c2 out where ping: "ping_op msg l Ping_start None c1 = Inr (c2, out)" by blast
  obtain c3 check where check: "async_check_timeout msg l c2 = (c3, check)" by fastforce
  have "m_read_buffer (c_mpx c3) = []"
    using ping_start(1) [OF hello_start(1) [OF assms hello] ping first] check_start(2) [OF check] by (simp add: fresh_run_def)
  then have "reader_op msg l try_send Reader_start None [] c3 = Inr (reader_append c3)" by (simp add: is_data_needed_def)
  with hello ping check show ?thesis
    by (auto simp: start_group_def reader_append_def simp del: hello_op.simps ping_op.simps reader_op.simps split: prod.split)
qed

section \<open>The invariant holds\<close>

lemma enter_run_ok:
  assumes "conn_ok c" and "quiet (c_mpx c)" and "run_op msg l pc order ec0 ec1 ec2 ec3 c = (c', out)"
    and "enter_run msg try_send s (c', out) = Inr s'"
  shows "sys_ok s'"
proof -
  note run = run_op_ok [OF assms(1-3)]
  show ?thesis
  proof (cases "out = Suspend Parallel_group Run_group_ended")
    case True
    with assms(4) obtain c1 g where g: "start_group msg (s_logger s) try_send c' = Inr (c1, g)"
      and s': "s' = s\<lparr>s_conn := c1, s_run := Some out, s_group := Some g, s_write_open := c_open c1\<rparr>"
      by (auto simp: andThen_Inr_iff)
    from start_group_ok [OF run(4) [OF True] g] show ?thesis
      by (auto simp: s' True sys_ok_def group_ok_def suspended_def)
  next
    case False
    with assms(4) run(1,2) show ?thesis by (auto simp: sys_ok_def)
  qed
qed

lemma writer_written_ok:
  assumes "conn_ok c" and "group_ok c g w" and "g_writer g = Suspend (Async_write ssl buf) Writer_written"
    and "ec = None \<longrightarrow> w" and "writer_op msg l Writer_written ec c = (c', out)"
  shows "conn_ok c' \<and> group_ok c' (g\<lparr>g_writer := out\<rparr>) (c_open c')"
proof (cases "ec = None")
  case False
  let ?c = "cancel_run (do_call (Log (trace_error msg l ''writer_op (1)'' ec)) (do_call (Log (on_write msg l ec (m_write_buffer (c_mpx c)))) c))"
  have c': "c' = ?c" "out = Complete ec" using assms(5) False by (auto simp: Let_def)
  have "good c ?c" by (intro good_cancel_run good_call good_refl)
  moreover have "flagged ?c"
    by (rule cancel_run_flagged, rule goodD(1) [OF _ assms(1)]) (intro good_call good_refl)
  ultimately show ?thesis using assms(1,2) by (auto simp: c' good_def group_ok_def tame_def)
next
  case True
  let ?c = "(do_call (Log (on_write msg l ec (m_write_buffer (c_mpx c)))) c)\<lparr>c_mpx := fst (commit_write (c_mpx c))\<rparr>"
  have "good c ?c" using good_trans [OF good_do_call commit_write_good] by simp
  then have g: "conn_ok ?c" "tame c ?c" using assms(1) by (auto simp: good_def)
  show ?thesis
  proof (cases "c_open c")
    case open_: True
    with assms(5) True have wr: "writer_loop ?c = (c', out)" by (simp add: Let_def)
    from writer_loop_ok [OF g(1) wr] g(2) open_ assms(2) show ?thesis
      by (auto simp: group_ok_def tame_def suspended_def)
  next
    case closed: False
    with assms(5) True have c': "c' = do_call (Log (trace l ''writer_op (2): connection is closed.'')) ?c" "out = Complete None"
      by (auto simp: Let_def)
    have "good c c'" unfolding c' by (intro good_call) fact
    with assms closed True show ?thesis by (auto simp: good_def group_ok_def tame_def c'(2))
  qed
qed

lemma writer_woken_ok:
  assumes "conn_ok c" and "group_ok c g w" and "g_writer g = Suspend Writer_wait Writer_woken"
    and "writer_op msg l Writer_woken ec c = (c', out)"
  shows "conn_ok c' \<and> group_ok c' (g\<lparr>g_writer := out\<rparr>) (c_open c')"
proof (cases "c_open c")
  case True
  with assms(4) have wr: "writer_loop c = (c', out)" by simp
  from writer_loop_ok [OF assms(1) wr] True assms(2) show ?thesis
    by (auto simp: group_ok_def suspended_def)
next
  case False
  with assms(4) have c': "c' = do_call (Log (trace l ''writer_op (3): connection is closed.'')) c" "out = Complete None"
    by auto
  have "good c c'" unfolding c' by (rule good_do_call)
  with assms False show ?thesis by (auto simp: good_def group_ok_def tame_def c'(2))
qed

lemma exec_completed_cases:
  assumes "exec_completed msg p r s = Inr s'"
  obtains "s' = s"
  | g g' c where "s_group s = Some g" and "s' = s\<lparr>s_conn := c, s_group := Some g'\<rparr>" and "g_writer g' = g_writer g"
    and "good (s_conn s) c"
proof (cases "\<exists>ec n g. r = Some (ec, n) \<and> s_group s = Some g")
  case False
  then show thesis using assms that(1) by (auto simp: exec_completed_def split: option.splits)
next
  case True
  then obtain ec n g where rg: "r = Some (ec, n)" "s_group s = Some g" by blast
  consider (hello) "g_hello g = Suspend (Async_exec p) Hello_answered"
    | (ping) "g_hello g \<noteq> Suspend (Async_exec p) Hello_answered" "g_ping g = Suspend (Async_exec p) Ping_answered"
    | (user) "g_hello g \<noteq> Suspend (Async_exec p) Hello_answered" "g_ping g \<noteq> Suspend (Async_exec p) Ping_answered"
    by blast
  then show thesis
  proof cases
    case hello
    with assms rg obtain c out where op: "hello_op msg (s_logger s) Hello_answered ec (s_conn s) = Inr (c, out)"
      and s': "s' = s\<lparr>s_conn := c, s_group := Some (g\<lparr>g_hello := out\<rparr>)\<rparr>"
      by (auto simp: exec_completed_def andThen_Inr_iff simp del: hello_op.simps)
    show thesis by (rule that(2) [OF rg(2) s' _ hello_op_good [OF op]]) simp
  next
    case ping
    with assms rg obtain c out where op: "ping_op msg (s_logger s) Ping_answered ec (s_conn s) = Inr (c, out)"
      and s': "s' = s\<lparr>s_conn := c, s_group := Some (g\<lparr>g_ping := out\<rparr>)\<rparr>"
      by (auto simp: exec_completed_def andThen_Inr_iff simp del: ping_op.simps)
    show thesis by (rule that(2) [OF rg(2) s' _ ping_op_good [OF op]]) simp
  next
    case user
    with assms rg that(1) show thesis by (simp add: exec_completed_def)
  qed
qed

lemma exec_completed_ok:
  assumes "exec_completed msg p r s = Inr s'" and "sys_ok s"
  shows "sys_ok s'"
  using assms(1) by (rule exec_completed_cases) (use assms(2) in \<open>auto intro: sys_ok_good\<close>)

lemma async_run_ok:
  assumes "async_run cfg msg l c = Inr (c', l', out)"
  obtains c0 where "run_op msg l' Run_start [] None None None None c0 = (c', out)"
    and "conn_ok c \<longrightarrow> conn_ok c0" and "c_mpx c0 = c_mpx c" and "h_cfg (c_handshaker c0) = cfg"
proof -
  obtain hc where hc: "checker_set_config (c_checker c) cfg = Inr hc" "represents (hc_req hc) [(''PING'', [health_check_id cfg])]"
    by (rule checker_set_config_ok [of "c_checker c" cfg])
  let ?c0 = "c\<lparr>c_cfg := cfg, c_resv := resolver_set_config (c_resv c) cfg,
      c_ctor := connector_set_config (c_ctor c) cfg, c_checker := hc,
      c_handshaker := handshaker_set_config (c_handshaker c) cfg\<rparr>"
  have "run_op msg l' Run_start [] None None None None ?c0 = (c', out)"
    using assms hc(1) by (auto simp: async_run_def Let_def run_resolve_def)
  moreover have "conn_ok c \<longrightarrow> conn_ok ?c0"
    using hc(2) by (intro impI, elim conn_ok_frame) (simp_all add: handshaker_set_config_def represents_def)
  ultimately show thesis by (rule that) (simp_all add: handshaker_set_config_def)
qed

lemma sys_ok_idle:
  assumes "sys_ok s" and "s_run s \<noteq> Some (Suspend Parallel_group Run_group_ended)"
  shows "conn_ok (s_conn s)" and "quiet (c_mpx (s_conn s))"
  using assms by (auto simp: sys_ok_def split: option.splits)

text \<open>Every step of \<open>run_op\<close> is taken while no request is staged or written.\<close>

lemma run_step_ok:
  assumes "conn_ok c" and "quiet (c_mpx c)"
    and "enter_run msg try_send s (run_op msg l pc order ec0 ec1 ec2 ec3 c) = Inr s'"
  shows "sys_ok s'"
proof (cases "run_op msg l pc order ec0 ec1 ec2 ec3 c")
  case (Pair c' out)
  with assms(3) show ?thesis by (intro enter_run_ok [OF assms(1,2) Pair]) simp
qed

fun run_event :: "'u event \<Rightarrow> bool" where
  "run_event (Ev_run _ _) = True"
| "run_event (Ev_resolved _ _) = True"
| "run_event (Ev_connected _ _ _) = True"
| "run_event (Ev_handshaken _) = True"
| "run_event (Ev_group_ended _) = True"
| "run_event (Ev_reconnect _) = True"
| "run_event _ = False"

lemma sys_ok_run_event:
  assumes "sys_step msg try_send s ev s'" and "sys_ok s" and "run_event ev"
  shows "sys_ok s'"
  using assms
proof (cases rule: sys_step.cases)
  case (runs cfg l c l' out)
  have "s_run s \<noteq> Some (Suspend Parallel_group Run_group_ended)" using runs(2) by auto
  note idle = sys_ok_idle [OF assms(2) this]
  from runs(3) obtain c0 where c0: "run_op msg l' Run_start [] None None None None c0 = (c, out)"
      "conn_ok (s_conn s) \<longrightarrow> conn_ok c0" "c_mpx c0 = c_mpx (s_conn s)"
      "h_cfg (c_handshaker c0) = cfg"
    by (rule async_run_ok)
  with idle show ?thesis by (intro enter_run_ok [OF _ _ c0(1) runs(4)]) simp_all
next
  case (resolved io ec eps rs ec')
  with sys_ok_idle [OF assms(2)] show ?thesis
    by (intro run_step_ok [OF _ _ resolved(4)]) (auto intro: conn_ok_frame)
next
  case (connected io ec ep ct ec' opened)
  with sys_ok_idle [OF assms(2)] show ?thesis
    by (intro run_step_ok [OF _ _ connected(5)]) (auto intro: conn_ok_frame)
next
  case (handshaken io ec)
  with sys_ok_idle [OF assms(2)] show ?thesis by (intro run_step_ok [OF _ _ handshaken(3)]) auto
next
  case (reconnects io ec)
  with sys_ok_idle [OF assms(2)] show ?thesis by (intro run_step_ok [OF _ _ reconnects(3)]) auto
next
  case (group_ended io g order ec0 ec1 ec2 ec3 ec4)
  with assms(2) have "conn_ok (s_conn s)" "quiet (c_mpx (s_conn s))"
    by (auto simp: sys_ok_def group_ok_def suspended_def)
  then show ?thesis by (rule run_step_ok) fact
qed (use assms(3) in simp_all)

lemma sys_ok_other_event:
  assumes "sys_step msg try_send s ev s'" and "sys_ok s" and "\<not> run_event ev"
  shows "sys_ok s'"
  using assms
proof (cases rule: sys_step.cases)
  case (exec req adapter c p)
  with assms(2) show ?thesis by (auto intro: sys_ok_good async_exec_good)
next
  case (resume p pc cs c r)
  have "sys_ok (s\<lparr>s_conn := c\<rparr>)"
    using assms(2) resume_exec_good [OF resume(5,3)] by (auto intro: sys_ok_good)
  with resume(6) show ?thesis by (rule exec_completed_ok)
next
  case (cancels op)
  with assms(2) show ?thesis by (auto intro: sys_ok_good cancel_good)
next
  case receives
  with assms(2) show ?thesis by (auto intro: sys_ok_good good_do_call simp: async_receive_def)
next
  case (sets_receive response)
  have "good (s_conn s) (conn_set_receive_response response (s_conn s))"
    by (rule good_keeps)
      (auto simp: conn_set_receive_response_def set_receive_response_def tame_def quiet_def intro: keeps_same)
  with sets_receive assms(2) show ?thesis by (auto intro: sys_ok_good)
next
  case (ping g io pc ec c out)
  from sys_ok_good [OF assms(2) ping_op_good [OF ping(6)]] ping(1-4) show ?thesis by simp
next
  case (check g io pc ec c out)
  from sys_ok_good [OF assms(2) check_timeout_op_good [OF check(5)]] check(1-4) show ?thesis by simp
next
  case (read g io ec data c out)
  from sys_ok_good [OF assms(2) reader_op_good [OF read(5)]] read(1-4) show ?thesis by simp
next
  case (sent g io ec c out)
  from sys_ok_good [OF assms(2) reader_op_good [OF sent(5)]] sent(1-4) show ?thesis by simp
next
  case (wrote g ssl buf ec c out)
  have "conn_ok (s_conn s)" "group_ok (s_conn s) g (s_write_open s)"
    using assms(2) wrote(3) by (auto simp: sys_ok_def)
  from writer_written_ok [OF this wrote(4-6)] assms(2) wrote(1-3) show ?thesis by (auto simp: sys_ok_def)
next
  case (woken g ec c out)
  have "conn_ok (s_conn s)" "group_ok (s_conn s) g (s_write_open s)"
    using assms(2) woken(3) by (auto simp: sys_ok_def)
  from writer_woken_ok [OF this woken(4,5)] assms(2) woken(1-3) show ?thesis by (auto simp: sys_ok_def)
qed (use assms(3) in simp_all)

lemma sys_ok_step: "sys_step msg try_send s ev s' \<Longrightarrow> sys_ok s \<Longrightarrow> sys_ok s'"
  using sys_ok_run_event sys_ok_other_event by blast

interpretation connection_runs: step_invariant "sys_step msg try_send" sys_ok for msg try_send
  by unfold_locales (rule sys_ok_step)

lemma new_system_ok: "new_connection h user = Inr c \<Longrightarrow> sys_ok (new_system c l)"
  by (auto simp: new_connection_def new_health_checker_def push_eq check_cmd_def Let_def new_request_def has_response_def
      new_handshaker_def sys_ok_def new_system_def conn_ok_def quiet_def set_receive_response_def new_multiplexer_def
      default_request_config_def queue_ok_def)

end
