(* ===== verification/Connection_Properties.thy ===== *)
theory Connection_Properties
  imports Connection_Runs Multiplexer_Delivery
begin

text \<open>
  Properties of the connection, over the states that runs of a new connection reach, and of its
  operations one by one.
\<close>

section \<open>Lemmas\<close>

lemma reachable_ok:
  assumes "new_connection h user = Inr c0" and "steps (sys_step msg try_send) (new_system c0 l) evs s"
  shows "sys_ok s"
  using connection_runs.steps_keep [OF assms(2) new_system_ok [OF assms(1)]] .

lemma reachable_conn_ok:
  assumes "new_connection h user = Inr c0" and "steps (sys_step msg try_send) (new_system c0 l) evs s"
  shows "conn_ok (s_conn s)"
  using reachable_ok [OF assms] by (simp add: sys_ok_def)

text \<open>A group that has just been started writes the handshake first.\<close>

lemma enter_run_hello:
  assumes "conn_ok c" and "quiet (c_mpx c)" and "h_cfg (c_handshaker c) = cfg"
    and "enter_run msg try_send s (run_op msg l pc order ec0 ec1 ec2 ec3 c) = Inr s'" and "s_group s' = Some g"
  shows "\<exists>ssl rest. g_writer g = Suspend (Async_write ssl
      (concat (map command_text (hello_commands cfg)) @ rest)) Writer_written"
proof (cases "run_op msg l pc order ec0 ec1 ec2 ec3 c")
  case (Pair c' out)
  note run = run_op_ok [OF assms(1,2) Pair]
  have out: "out = Suspend Parallel_group Run_group_ended" using assms(4,5) Pair by (auto split: if_splits)
  then obtain c1 where "start_group msg (s_logger s) try_send c' = Inr (c1, g)"
    using assms(4,5) Pair by (auto simp: andThen_Inr_iff)
  from start_group_ok(4) [OF run(4) [OF out] this] assms(3) run(3) show ?thesis by simp
qed

lemma quiet_cancel_all:
  assumes "queue_ok m" and "quiet m \<or> \<not> m_cancel_run_called m"
  shows "m_reqs (fst (cancel_waiting (fst (cancel_on_conn_lost m)))) = []"
proof -
  obtain m1 n1 where m1: "cancel_on_conn_lost m = (m1, n1)" by fastforce
  obtain m2 n2 where m2: "cancel_unless (\<lambda>e. \<not> is_waiting e) m1 = (m2, n2)" by fastforce
  note k1 = cancel_on_conn_lost_keeps [OF assms(1) m1]
  have q1: "queue_ok m1" using k1(1) by (simp add: keeps_def)
  have "quiet m1" using k1(2) assms(2) .
  then show ?thesis
    using cancel_unless_parts(1) [OF q1 m2] by (simp add: m1 m2 cancel_waiting_def quiet_def list_all_iff filter_empty_conv)
qed

subsection \<open>A concrete run\<close>

text \<open>A connection that has resolved its address and connected, without SSL.\<close>

definition sample_heap :: "ptr \<Rightarrow> unit responses elem" where
  "sample_heap = (\<lambda>_. new_elem (new_request default_request_config) ignore_adapter)"

abbreviation silent :: messages where "silent \<equiv> (\<lambda>_. [])"
abbreviation accepting :: "call list \<Rightarrow> bool" where "accepting \<equiv> (\<lambda>_. True)"
abbreviation sample_logger :: logger where "sample_logger \<equiv> new_logger level_debug"

lemma sample_connection:
  obtains c0 where "new_connection sample_heap () = Inr c0" and "c_execs c0 = Map.empty" and "\<not> c_open c0"
    and "c_mpx c0 = new_multiplexer ignore sample_heap"
  by (simp add: new_connection_def new_health_checker_def push_eq set_receive_response_def adapter_wrapper_def
      ignore_adapter_def new_multiplexer_def)

lemma sample_connecting:
  assumes "new_connection sample_heap () = Inr c0"
  obtains s io where "steps (sys_step silent accepting) (new_system c0 sample_logger)
      [Ev_run default_config sample_logger, Ev_resolved None []] s"
    and "s_run s = Some (Suspend io Run_connected)" and "s_group s = None" and "c_cfg (s_conn s) = default_config"
    and "h_cfg (c_handshaker (s_conn s)) = default_config"
proof -
  let ?l = sample_logger and ?s0 = "new_system c0 sample_logger"
  obtain hc where hc: "checker_set_config (c_checker c0) default_config = Inr hc" by (rule checker_set_config_ok)
  let ?c1 = "c0\<lparr>c_cfg := default_config, c_resv := resolver_set_config (c_resv c0) default_config,
      c_ctor := connector_set_config (c_ctor c0) default_config, c_checker := hc,
      c_handshaker := handshaker_set_config (c_handshaker c0) default_config\<rparr>"
  let ?l1 = "set_prefix ?l (log_prefix default_config)"
  have run: "async_run default_config silent ?l c0 = Inr (?c1, ?l1, snd (run_resolve ?c1))"
    by (simp add: async_run_def hc Let_def run_resolve_def)
  let ?s1 = "?s0\<lparr>s_logger := ?l1, s_conn := ?c1, s_run := Some (snd (run_resolve ?c1)), s_group := None\<rparr>"
  have 1: "sys_step silent accepting ?s0 (Ev_run default_config ?l) ?s1"
    by (rule sys_step.runs) (use run in \<open>auto simp: new_system_def run_resolve_def\<close>)
  let ?rs = "(c_resv ?c1)\<lparr>rs_results := []\<rparr>"
  let ?r = "run_op silent ?l1 Run_resolved [0,0,0,0,0] None None None None (?c1\<lparr>c_resv := ?rs\<rparr>)"
  let ?s2 = "?s1\<lparr>s_conn := fst ?r, s_run := Some (snd ?r), s_group := None\<rparr>"
  have 2: "sys_step silent accepting ?s1 (Ev_resolved None []) ?s2"
    by (rule sys_step.resolved [where rs = ?rs and ec' = None and io = "case run_resolve ?c1 of (_, Suspend io _) \<Rightarrow> io"])
      (simp_all add: run_resolve_def resolve_op_def Let_def)
  from 1 2 have "steps (sys_step silent accepting) ?s0 [Ev_run default_config ?l, Ev_resolved None []] ?s2"
    by (auto intro: steps.intros)
  then show thesis by (rule that) (auto simp: Let_def handshaker_set_config_def)
qed

lemma sample_connected:
  assumes "new_connection sample_heap () = Inr c0" and "steps (sys_step silent accepting) (new_system c0 sample_logger) evs s"
    and "s_run s = Some (Suspend io Run_connected)" and "s_group s = None" and "c_cfg (s_conn s) = default_config"
  obtains s' g where "sys_step silent accepting s (Ev_connected None [] True) s'" and "s_group s' = Some g"
    and "\<exists>p. p \<in> set (m_reqs (c_mpx (s_conn s'))) \<and> \<not> is_waiting (m_heap (c_mpx (s_conn s')) p)"
proof -
  let ?c = "(s_conn s)\<lparr>c_ctor := (c_ctor (s_conn s))\<lparr>ct_endpoint := []\<rparr>, c_open := True\<rparr>"
  have ok: "conn_ok ?c" "quiet (c_mpx ?c)"
    using reachable_ok [OF assms(1,2)] assms(4) by (auto simp: sys_ok_def intro: conn_ok_frame)
  let ?r = "run_op silent (s_logger s) Run_connected [0,0,0,0,0] None None None None ?c"
  have r: "?r = (fst ?r, Suspend Parallel_group Run_group_ended)"
    using assms(5) by (simp add: Let_def run_established_def default_config_def)
  have fresh: "fresh_run (fst ?r)" by (rule run_op_ok(4) [OF ok r refl])
  from start_group_total [OF fresh] obtain c' g where g: "start_group silent (s_logger s) accepting (fst ?r) = Inr (c', g)" by blast
  have "enter_run silent accepting s ?r = Inr (s\<lparr>s_conn := c', s_run := Some (Suspend Parallel_group Run_group_ended),
      s_group := Some g, s_write_open := c_open c'\<rparr>)"
    by (subst r, simp only: enter_run.simps g if_True refl andThen.simps prod.case)
  with assms(3) have "sys_step silent accepting s (Ev_connected None [] True)
      (s\<lparr>s_conn := c', s_run := Some (Suspend Parallel_group Run_group_ended), s_group := Some g, s_write_open := c_open c'\<rparr>)"
    by (intro sys_step.connected) (auto simp: connect_op_def)
  then show thesis by (rule that) (use start_group_ok(5) [OF fresh g] in simp_all)
qed

section \<open>Requests\<close>

text \<open>
  C6: no request is lost.  In every state a connection can reach, for every operation started with
  \<open>async_exec\<close> that waits for its notification, the request is in the queue or the operation
  has been notified; and whenever such an operation is resumed, by its notification or by a
  terminal cancellation, it completes: in particular it never removes a request that is not in the
  queue, and it never waits again.
\<close>

theorem pending_exec_completes:
  assumes "new_connection h user = Inr c0" and "steps (sys_step msg try_send) (new_system c0 l) evs s"
    and "c_execs (s_conn s) p = Some pc" and "cs \<subseteq> {terminal}"
  shows "(pc = Exec_notified \<longrightarrow> p \<in> set (m_reqs (c_mpx (s_conn s))) \<or> 0 < e_done (m_heap (c_mpx (s_conn s)) p))
    \<and> (\<exists>c' r. resume_exec p cs (s_conn s) = Inr (c', Some r))"
  using conn_ok_exec(3) [OF reachable_conn_ok [OF assms(1,2)] assms(3)]
    resume_exec_completes [OF reachable_conn_ok [OF assms(1,2)] assms(3,4)]
  by (auto simp: settled_def)

lemma sample_exec:
  assumes "new_connection sample_heap () = Inr c0"
  obtains c where "async_exec (new_request default_request_config) any_ignore c0 = Inr (c, 0)"
    and "c_execs c 0 = Some Exec_notified" and "\<not> c_open c"
proof -
  obtain c1 where c1: "new_connection sample_heap () = Inr c1" "\<not> c_open c1" "c_mpx c1 = new_multiplexer ignore sample_heap"
    by (rule sample_connection)
  with assms have c0: "\<not> c_open c0" "c_mpx c0 = new_multiplexer ignore sample_heap" by simp_all
  then show thesis
    by (intro that [of "c0\<lparr>c_mpx := add (snd (make_elem (c_mpx c0) (new_request default_request_config) ignore_adapter)) 0,
        c_execs := (c_execs c0)(0 \<mapsto> Exec_notified)\<rparr>"])
      (simp_all add: async_exec_def any_ignore_def make_elem_def new_multiplexer_def Let_def new_elem_def new_request_def
        default_request_config_def trigger_write_def)
qed

theorem pending_exec_completes_witness:
  "\<exists>c0 s c' r. new_connection sample_heap () = Inr c0
    \<and> steps (sys_step silent accepting) (new_system c0 sample_logger) [Ev_exec (new_request default_request_config) any_ignore] s
    \<and> resume_exec 0 {terminal} (s_conn s) = Inr (c', Some r)"
proof -
  obtain c0 where c0: "new_connection sample_heap () = Inr c0" by (rule sample_connection)
  then obtain c where c: "async_exec (new_request default_request_config) any_ignore c0 = Inr (c, 0)"
      "c_execs c 0 = Some Exec_notified" by (rule sample_exec)
  let ?s0 = "new_system c0 sample_logger"
  have st: "steps (sys_step silent accepting) ?s0 [Ev_exec (new_request default_request_config) any_ignore] (?s0\<lparr>s_conn := c\<rparr>)"
    by (intro steps_one sys_step.exec) (simp add: new_system_def c(1))
  have "\<exists>c' r. resume_exec 0 {terminal} c = Inr (c', Some r)"
    using pending_exec_completes [OF c0 st, of 0 Exec_notified "{terminal}"] c(2) by simp
  with c0 st show ?thesis by force
qed

text \<open>
  C13: requests are in flight only while a writer is running.  In every reachable state in which a
  queued request is staged or written, the parallel group of the run is active, its writer has not
  completed and the run has not been given up.  So when a run ends, for whatever reason, every
  request that stays in the queue waits to be written by the next run.
\<close>

theorem in_flight_only_while_writing:
  assumes "new_connection h user = Inr c0" and "steps (sys_step msg try_send) (new_system c0 l) evs s"
    and "p \<in> set (m_reqs (c_mpx (s_conn s)))" and "\<not> is_waiting (m_heap (c_mpx (s_conn s)) p)"
  shows "\<exists>g io pc. s_group s = Some g \<and> g_writer g = Suspend io pc
    \<and> s_run s = Some (Suspend Parallel_group Run_group_ended) \<and> \<not> run_is_canceled (s_conn s)"
  using reachable_ok [OF assms(1,2)] assms(3,4)
  by (auto simp: sys_ok_def group_ok_def quiet_def list_all_iff suspended_def run_is_canceled_def split: option.splits)

theorem in_flight_only_while_writing_witness:
  "\<exists>c0 evs s p. new_connection sample_heap () = Inr c0
    \<and> steps (sys_step silent accepting) (new_system c0 sample_logger) evs s
    \<and> p \<in> set (m_reqs (c_mpx (s_conn s))) \<and> \<not> is_waiting (m_heap (c_mpx (s_conn s)) p)
    \<and> (\<exists>g io pc. s_group s = Some g \<and> g_writer g = Suspend io pc \<and> \<not> run_is_canceled (s_conn s))"
proof -
  obtain c0 where c0: "new_connection sample_heap () = Inr c0" by (rule sample_connection)
  then obtain s io where s: "steps (sys_step silent accepting) (new_system c0 sample_logger)
        [Ev_run default_config sample_logger, Ev_resolved None []] s"
      "s_run s = Some (Suspend io Run_connected)" "s_group s = None" "c_cfg (s_conn s) = default_config"
    by (rule sample_connecting)
  obtain s' g p where s': "sys_step silent accepting s (Ev_connected None [] True) s'"
      "p \<in> set (m_reqs (c_mpx (s_conn s')))" "\<not> is_waiting (m_heap (c_mpx (s_conn s')) p)"
    by (rule sample_connected [OF c0 s]) blast
  note st = steps_append [OF s(1) steps_one [where step = "sys_step silent accepting", OF s'(1)]]
  from in_flight_only_while_writing [OF c0 st s'(2,3)] c0 st s'(2,3) show ?thesis by blast
qed

text \<open>
  C5: the handshake is written before anything else.  Whenever a run starts its operations on a new
  connection, after any history, the first write consists of the commands of the handshake, HELLO
  and if configured SELECT, followed by the other requests: no other command can reach the server
  before the authentication.
\<close>

theorem hello_written_first:
  assumes "new_connection h user = Inr c0" and "steps (sys_step msg try_send) (new_system c0 l) evs s"
    and "sys_step msg try_send s ev s'" and "s_group s = None" and "s_group s' = Some g"
  shows "\<exists>ssl rest. g_writer g = Suspend (Async_write ssl
    (concat (map command_text (hello_commands (h_cfg (c_handshaker (s_conn s))))) @ rest)) Writer_written"
proof -
  have s: "conn_ok (s_conn s)" "quiet (c_mpx (s_conn s))"
    using reachable_ok [OF assms(1,2)] assms(4) by (auto simp: sys_ok_def)
  from assms(3) show ?thesis
  proof (cases rule: sys_step.cases)
    case (connected io ec ep ct ec' opened)
    show ?thesis
      by (rule enter_run_hello [OF _ _ _ connected(5) assms(5)]) (use s in \<open>auto intro: conn_ok_frame\<close>)
  next
    case (handshaken io ec)
    show ?thesis by (rule enter_run_hello [OF s refl handshaken(3) assms(5)])
  next
    case (resume p pc cs c r)
    with assms(4,5) show ?thesis by (auto simp: exec_completed_def split: option.splits)
  qed (use assms(4,5) in \<open>auto simp: run_resolve_def async_run_def andThen_Inr_iff Let_def split: if_splits\<close>)
qed

theorem hello_written_first_witness:
  "\<exists>c0 evs s s' g. new_connection sample_heap () = Inr c0
    \<and> steps (sys_step silent accepting) (new_system c0 sample_logger) evs s
    \<and> sys_step silent accepting s (Ev_connected None [] True) s' \<and> s_group s' = Some g
    \<and> (\<exists>ssl rest. g_writer g = Suspend (Async_write ssl
         (command_text (''HELLO'', [''3'', ''SETNAME'', ''Boost.Redis'']) @ rest)) Writer_written)"
proof -
  obtain c0 where c0: "new_connection sample_heap () = Inr c0" by (rule sample_connection)
  then obtain s io where s: "steps (sys_step silent accepting) (new_system c0 sample_logger)
        [Ev_run default_config sample_logger, Ev_resolved None []] s"
      "s_run s = Some (Suspend io Run_connected)" "s_group s = None" "c_cfg (s_conn s) = default_config"
      "h_cfg (c_handshaker (s_conn s)) = default_config"
    by (rule sample_connecting)
  obtain s' g where s': "sys_step silent accepting s (Ev_connected None [] True) s'" "s_group s' = Some g"
    by (rule sample_connected [OF c0 s(1-4)]) blast
  have hello: "concat (map command_text (hello_commands default_config)) = command_text (''HELLO'', [''3'', ''SETNAME'', ''Boost.Redis''])"
    by (simp add: hello_commands_def hello_command_def select_commands_def sends_auth_def default_config_def)
  from hello_written_first [OF c0 s(1) s'(1) s(3) s'(2), unfolded s(5) hello] c0 s(1) s' show ?thesis by blast
qed

text \<open>
  C10: cancelling everything leaves nothing behind.  In every reachable state \<open>cancel(operation::all)\<close>
  closes the socket, disables the reconnection and empties the queue, and every request that was
  queued is notified, so that its operation completes.
\<close>

theorem cancel_all_completes:
  assumes "new_connection h user = Inr c0" and "steps (sys_step msg try_send) (new_system c0 l) evs s"
    and "c = cancel op_all (s_conn s)"
  shows "m_reqs (c_mpx c) = [] \<and> \<not> c_open c \<and> \<not> will_reconnect c \<and> run_is_canceled c
    \<and> (\<forall>p \<in> set (m_reqs (c_mpx (s_conn s))). 0 < e_done (m_heap (c_mpx c) p))"
proof -
  have ok: "sys_ok s" by (rule reachable_ok [OF assms(1,2)])
  then have q: "queue_ok (c_mpx (s_conn s))" "quiet (c_mpx (s_conn s)) \<or> \<not> flagged (s_conn s)"
    by (auto simp: sys_ok_def conn_ok_def group_ok_def split: option.splits)
  let ?m = "c_mpx (s_conn s)"
  obtain m1 n1 where m1: "cancel_on_conn_lost ?m = (m1, n1)" by fastforce
  obtain m2 n2 where m2: "cancel_waiting m1 = (m2, n2)" by fastforce
  have mpx: "c_mpx c = m2"
    by (simp add: assms(3) conn_cancel_waiting_def checker_cancel_def no_reconnection_def resolver_cancel_def m1 m2)
  have empty: "m_reqs m2 = []" using quiet_cancel_all [OF q] by (simp add: m1 m2)
  note k1 = cancel_on_conn_lost_keeps [OF q(1) m1]
  have q1: "queue_ok m1" by (rule keepsD(1) [OF k1(1)])
  note k2 = cancel_unless_keeps [OF q1 m2 [unfolded cancel_waiting_def]]
  have "settled m2 p" if "p \<in> set (m_reqs ?m)" for p
  proof -
    have p: "p < m_brk ?m" by (rule queue_okD(1) [OF q(1) that])
    have "settled m1 p" using keepsD(3) [OF k1(1) p] that by (simp add: settled_def)
    with keepsD(3) [OF k2(1)] keepsD(2) [OF k1(1)] p show ?thesis by simp
  qed
  then have "0 < e_done (m_heap m2 p)" if "p \<in> set (m_reqs ?m)" for p
    using that empty by (auto simp: settled_def)
  moreover have "run_is_canceled c" using k1(3) k2(3) by (simp add: run_is_canceled_def mpx)
  moreover have "\<not> c_open c" "\<not> will_reconnect c"
    by (simp_all add: assms(3) will_reconnect_def conn_cancel_waiting_def checker_cancel_def no_reconnection_def
        resolver_cancel_def)
  ultimately show ?thesis using empty by (simp add: mpx)
qed

theorem cancel_all_completes_witness:
  "\<exists>c0 s. new_connection sample_heap () = Inr c0
    \<and> steps (sys_step silent accepting) (new_system c0 sample_logger) [Ev_exec (new_request default_request_config) any_ignore] s
    \<and> m_reqs (c_mpx (cancel op_all (s_conn s))) = [] \<and> \<not> will_reconnect (cancel op_all (s_conn s))"
proof -
  obtain c0 where c0: "new_connection sample_heap () = Inr c0" by (rule sample_connection)
  then obtain c where c: "async_exec (new_request default_request_config) any_ignore c0 = Inr (c, 0)" by (rule sample_exec)
  let ?s0 = "new_system c0 sample_logger"
  have st: "steps (sys_step silent accepting) ?s0 [Ev_exec (new_request default_request_config) any_ignore] (?s0\<lparr>s_conn := c\<rparr>)"
    by (intro steps_one sys_step.exec) (simp add: new_system_def c(1))
  from cancel_all_completes [OF c0 st refl] c0 st show ?thesis by blast
qed

section \<open>Reading\<close>

text \<open>One complete message at the front of the read buffer.\<close>

lemma reader_commit_message:
  assumes "commit_read (c_mpx c) (c_responses c) = Inr (m, s, None, Some b, n)" and "c_open c" and "\<forall>ks. try_send ks"
    and "c' = (if b then do_call (Try_send n) (c\<lparr>c_mpx := m, c_responses := s\<rparr>) else c\<lparr>c_mpx := m, c_responses := s\<rparr>)"
  shows "reader_commit msg l try_send c =
    (if m_read_buffer m = [] then Inr (reader_append c') else reader_commit msg l try_send c')"
  using assms by (subst reader_commit.simps) (auto simp: Let_def is_data_needed_def)

lemma reader_commit_dispatch:
  assumes "idle (c_mpx c)" and "m_read_buffer (c_mpx c) = concat (map encode ts) @ rest" and "ts \<noteq> []"
    and "list_all (wf_resp 0) ts" and "length (m_read_buffer (c_mpx c)) < 2 ^ 64" and "c_open c" and "\<forall>ks. try_send ks"
    and "dispatch (m_receive_adapter (c_mpx c)) (m_heap (c_mpx c)) (m_reqs (c_mpx c)) (c_responses c) ts = Some (h', qs', s')"
  shows "\<exists>c'. reader_commit msg l try_send c =
      (if rest = [] then Inr (reader_append c') else reader_commit msg l try_send c')
    \<and> idle (c_mpx c') \<and> m_heap (c_mpx c') = h' \<and> m_reqs (c_mpx c') = qs' \<and> m_read_buffer (c_mpx c') = rest
    \<and> c_responses c' = s' \<and> c_open c' \<and> c_execs c' = c_execs c \<and> m_write_buffer (c_mpx c') = m_write_buffer (c_mpx c)
    \<and> c_calls c' = c_calls c @ map (\<lambda>t. Try_send (length (encode t))) (filter is_push ts)"
  using assms
proof (induction ts arbitrary: c)
  case (Cons t ts)
  have "m_read_buffer (c_mpx c) = encode t @ concat (map encode ts) @ rest" "wf_resp 0 t" using Cons.prems by simp_all
  from dispatch_step [OF Cons.prems(1) this Cons.prems(5,8)] obtain m s where
    1: "commit_read (c_mpx c) (c_responses c) = Inr (m, s, None, Some (is_push t), length (encode t))" "idle m"
    "m_read_buffer m = concat (map encode ts) @ rest" "m_receive_adapter m = m_receive_adapter (c_mpx c)" "m_write_buffer m = m_write_buffer (c_mpx c)"
    "dispatch (m_receive_adapter (c_mpx c)) (m_heap m) (m_reqs m) s ts = Some (h', qs', s')"
    by blast
  let ?c = "c\<lparr>c_mpx := m, c_responses := s\<rparr>"
  define c1 where "c1 = (if is_push t then do_call (Try_send (length (encode t))) ?c else ?c)"
  have c1: "c_mpx c1 = m" "c_responses c1 = s" "c_open c1 = c_open c" "c_execs c1 = c_execs c"
    "c_calls c1 = c_calls c @ map (\<lambda>t. Try_send (length (encode t))) (filter is_push [t])"
    by (simp_all add: c1_def, simp add: do_call_def)
  note step = reader_commit_message [OF 1(1) Cons.prems(6,7) c1_def, of msg l]
  show ?case
  proof (cases "ts = []")
    case True
    with step 1 c1 Cons.prems(6) show ?thesis by (intro exI [of _ c1]) auto
  next
    case False
    then have "m_read_buffer m \<noteq> []" using 1(3) encode_nonempty by (cases ts) auto
    moreover have "length (m_read_buffer m) < 2 ^ 64" using Cons.prems(2,5) 1(3) by simp
    ultimately show ?thesis
      using step Cons.IH [of c1] 1 c1 False Cons.prems(4,6,7) by auto
  qed
qed simp


definition sample_push :: resp where
  "sample_push = Aggr push_t [Bulk blob_string_t ''a'']"

lemma sample_push_simps:
  "encode sample_push = ''>1'' @ sep @ ''$1'' @ sep @ ''a'' @ sep" "wf_resp 0 sample_push" "is_push sample_push"
  "feed_nodes ignore s (nodes 0 sample_push) = Inr (s, None)"
proof -
  show "encode sample_push = ''>1'' @ sep @ ''$1'' @ sep @ ''a'' @ sep" by code_simp
  show "wf_resp 0 sample_push" "is_push sample_push" by code_simp+
  show "feed_nodes ignore s (nodes 0 sample_push) = Inr (s, None)"
    by (simp add: sample_push_def ignore_def mk_node_def)
qed


text \<open>
  \<open>append_some_op\<close> appends what the stream delivers, and nothing else, to the buffer.  The
  hypotheses are what Asio documents of a dynamic buffer: \<open>grow\<close> appends an area of the requested
  size, \<open>shrink\<close> removes from the end, and the stream writes at most the area.  If the stream
  reports an error the area stays, so the buffer then ends with bytes that were never received.
\<close>

theorem append_some_appends:
  assumes "grow buf n = Inr buf'" and "length buf' = length buf + unat n" and "take (length buf) buf' = buf"
    and "\<And>b k. shrink b k = take (length b - k) b" and "length data \<le> unat n"
  shows "\<exists>tmp. append_some_start grow buf n = Inr (tmp, buf')
    \<and> append_some_resume shrink tmp buf' None data = (buf @ data, None, length data)
    \<and> (\<forall>ec. \<exists>junk. append_some_resume shrink tmp buf' (Some ec) data = (buf @ data @ junk, Some ec, 0)
         \<and> length (data @ junk) = unat n)"
  using assms by (simp add: append_some_start_def append_some_resume_def Let_def)

theorem append_some_appends_witness:
  "\<exists>tmp buf'. append_some_start (\<lambda>b n. Inr (b @ replicate (unat n) CHR 0x00)) ''ab'' 4 = Inr (tmp, buf')
    \<and> append_some_resume (\<lambda>b k. take (length b - k) b) tmp buf' None ''cd'' = (''abcd'', None, 2)"
  using append_some_appends [of "\<lambda>b n. Inr (b @ replicate (unat n) CHR 0x00)" "''ab''" 4
      "''ab'' @ replicate 4 CHR 0x00" "\<lambda>b k. take (length b - k) b" "''cd''"]
  by auto

section \<open>Runs that follow a failed one\<close>

text \<open>
  C33: a connection that has timed out once times out again.  When the health check finds no answer
  to a PING it marks the checker as having exited.  The next run starts \<open>ping_op\<close> before
  \<open>async_check_timeout\<close> clears the mark: \<open>ping_op\<close> completes at once, no PING is queued, and since
  nothing answers, the next expiry of the check reports a pong timeout on a healthy connection.
\<close>

theorem restart_after_pong_timeout:
  assumes "check_timeout_op msg l Check_waited None c0 = (c1, Complete (Some (make_error_code pong_timeout)))"
    and "fresh_run c" and "hc_checker_has_exited (c_checker c) = hc_checker_has_exited (c_checker c1)"
    and "ping_resp (c_responses c) = ping_resp (c_responses c1)" and "hc_ping_interval (c_checker c) \<noteq> 0"
    and "start_group msg l try_send c = Inr (c', g)"
  shows "g_ping g = Complete None \<and> (\<exists>p. m_reqs (c_mpx c') = p # m_reqs (c_mpx c))
    \<and> g_check g = Suspend Pong_wait Check_waited
    \<and> (\<forall>c''. ping_resp (c_responses c'') = ping_resp (c_responses c') \<longrightarrow>
         snd (check_timeout_op msg l Check_waited None c'') = Complete (Some (make_error_code pong_timeout)))"
proof -
  have t: "hc_checker_has_exited (c_checker c1)" "ping_resp (c_responses c1) = Inr []"
    using assms(1) by (auto simp: check_timeout_loop_def Let_def split: if_splits sum.splits list.splits)
  from assms(6) obtain c2 hello c3 ping c4 check c5 reader where
    hello: "hello_op msg l Hello_start None c = Inr (c2, hello)" and
    ping: "ping_op msg l Ping_start None c2 = Inr (c3, ping)" and
    check: "async_check_timeout msg l c3 = (c4, check)" and
    rd: "reader_op msg l try_send Reader_start None [] c4 = Inr (c5, reader)" and
    wr: "writer_loop c5 = (c', g_writer g)" and g: "g_ping g = ping" "g_check g = check"
    by (rule start_groupE)
  obtain q req where first: "first_in_queue c2 q req" using hello_start(5) [OF assms(2) hello] by blast
  note c2 = hello_start [OF assms(2) hello] and c3 = ping_start [OF hello_start(1) [OF assms(2) hello] ping first]
  have c3': "c_mpx c3 = c_mpx c2" "ping = Complete None"
    using ping t(1) assms(3,5) c2(3) by (simp_all add: ping_loop_def, auto)
  have check': "check = Suspend Pong_wait Check_waited"
    using check assms(5) c2(3) c3(5) by (auto simp: async_check_timeout_def check_timeout_loop_def)
  note c4 = check_start [OF check]
  have f4: "fresh_run c4" using fresh_run_good [OF c3(1) c4(1)] by (simp add: c4)
  then have c5: "c5 = c4" using rd by (simp add: is_data_needed_def fresh_run_def reader_append_def)
  have q5: "queue_ok (c_mpx c5)" using f4 by (simp add: c5 fresh_run_def conn_ok_def)
  have c': "m_reqs (c_mpx c') = m_reqs (c_mpx c5)" "c_responses c' = c_responses c5"
    using wr prepare_write_parts(1) [OF q5] by (auto simp: writer_loop_def Let_def split: prod.splits if_splits)
  have "ping_resp (c_responses c2) = ping_resp (c_responses c)" using arg_cong [OF c2(4), of ping_resp] by simp
  then have "ping_resp (c_responses c') = Inr []" using t(2) assms(4) by (simp add: c' c5 c4 c3)
  then show ?thesis using c2(6) c3' check' by (auto simp: g c' c5 c4 Let_def)
qed

lemma new_connection_fresh:
  assumes "new_connection h user = Inr c"
  shows "fresh_run c" and "c_responses c = \<lparr>hello_resp = Inr [], ping_resp = Inr [], user_resp = user\<rparr>"
    and "hc_ping_interval (c_checker c) = seconds 5"
  using new_system_ok [OF assms, of undefined] assms
  by (auto simp: sys_ok_def new_system_def fresh_run_def new_connection_def new_health_checker_def push_eq
      set_receive_response_def new_multiplexer_def)

theorem restart_after_pong_timeout_witness:
  "\<exists>c0 c' g. new_connection sample_heap () = Inr c0
    \<and> start_group silent sample_logger accepting (c0\<lparr>c_checker := (c_checker c0)\<lparr>hc_checker_has_exited := True\<rparr>\<rparr>) = Inr (c', g)
    \<and> g_ping g = Complete None \<and> length (m_reqs (c_mpx c')) = 1
    \<and> snd (check_timeout_op silent sample_logger Check_waited None c') = Complete (Some (make_error_code pong_timeout))"
proof -
  obtain c0 where c0: "new_connection sample_heap () = Inr c0" "c_mpx c0 = new_multiplexer ignore sample_heap"
    by (rule sample_connection)
  note new = new_connection_fresh [OF c0(1)]
  let ?c = "c0\<lparr>c_checker := (c_checker c0)\<lparr>hc_checker_has_exited := True\<rparr>\<rparr>"
  let ?t = "check_timeout_op silent sample_logger Check_waited None c0"
  have t: "?t = (fst ?t, Complete (Some (make_error_code pong_timeout)))" "hc_checker_has_exited (c_checker (fst ?t))"
    "ping_resp (c_responses (fst ?t)) = Inr []"
    using new(2) by (auto simp: Let_def)
  have fresh: "fresh_run ?c"
    by (rule fresh_run_good [OF new(1) good_frame]) simp_all
  from start_group_total [OF fresh] obtain c' g where sg: "start_group silent sample_logger accepting ?c = Inr (c', g)" by blast
  from restart_after_pong_timeout [OF t(1) fresh _ _ _ sg] t(2,3) new(2,3) c0(2) have "g_ping g = Complete None"
    "length (m_reqs (c_mpx c')) = 1"
    "snd (check_timeout_op silent sample_logger Check_waited None c') = Complete (Some (make_error_code pong_timeout))"
    by (auto simp: seconds_def new_multiplexer_def simp del: check_timeout_op.simps)
  with c0(1) sg show ?thesis by blast
qed

text \<open>
  C34: a connection whose handshake has failed cannot be used again.  A HELLO that the server refuses
  leaves its error in \<open>hello_resp_\<close>, which \<open>add_hello\<close> does not clear: the adapter of the HELLO of
  the next run throws on the first node of every reply that is not an error.
\<close>

theorem hello_after_failed_handshake:
  assumes "queue_ok (c_mpx c)" and "hello_resp (c_responses c) = Inl e"
    and "hello_op msg l Hello_start None c = Inr (c1, Suspend (Async_exec p) Hello_answered)"
    and "data_type nd \<notin> {simple_error_t, blob_error_t}"
  shows "elem_adapter (m_heap (c_mpx c1) p) (c_responses c1) nd = Inl Bad_Value_Access"
proof -
  obtain h resp where h: "add_hello (c_handshaker c) (Inl e) = Inr (h, resp)"
    and ex: "async_exec (h_hello_req h) hello_adapter
      (c\<lparr>c_handshaker := h, c_responses := (c_responses c)\<lparr>hello_resp := resp\<rparr>\<rparr>) = Inr (c1, p)"
    using assms(2,3) by (auto simp: andThen_Inr_iff Let_def)
  have "resp = Inl e" using h by (auto simp: add_hello_def Let_def andThen_Inr_iff)
  moreover note async_exec_parts [OF _ ex, simplified, OF assms(1)]
  ultimately show ?thesis
    using assms(4) by (simp add: elem_adapter_def new_elem_def hello_adapter_def any_vector_def vector_adapter_def
        general_aggregate_def)
qed

theorem hello_after_failed_handshake_witness:
  "\<exists>c0 e c1 p. new_connection sample_heap () = Inr c0
    \<and> hello_op silent sample_logger Hello_start None (c0\<lparr>c_responses := (c_responses c0)\<lparr>hello_resp := Inl e\<rparr>\<rparr>) =
        Inr (c1, Suspend (Async_exec p) Hello_answered)
    \<and> elem_adapter (m_heap (c_mpx c1) p) (c_responses c1) (mk_node map_t 7 0 []) = Inl Bad_Value_Access"
proof -
  obtain c0 where c0: "new_connection sample_heap () = Inr c0" by (rule sample_connection)
  let ?e = "\<lparr>err_data_type = simple_error_t, err_diagnostic = ''WRONGPASS''\<rparr>"
  let ?c = "c0\<lparr>c_responses := (c_responses c0)\<lparr>hello_resp := Inl ?e\<rparr>\<rparr>"
  have fresh: "fresh_run ?c"
    by (rule fresh_run_good [OF new_connection_fresh(1) [OF c0] good_frame]) simp_all
  from start_group_total [OF fresh] obtain c' g where "start_group silent sample_logger accepting ?c = Inr (c', g)" by blast
  then obtain c1 out where op: "hello_op silent sample_logger Hello_start None ?c = Inr (c1, out)" by (rule start_groupE)
  then obtain p where out: "out = Suspend (Async_exec p) Hello_answered" by (auto simp: andThen_Inr_iff Let_def)
  have "queue_ok (c_mpx ?c)" using fresh by (simp add: fresh_run_def conn_ok_def)
  from hello_after_failed_handshake [OF this _ op [unfolded out], of ?e "mk_node map_t 7 0 []"] c0 op out show ?thesis
    by (auto simp: mk_node_def simp del: hello_op.simps)
qed

end
