(* ===== verification/Runner.thy ===== *)
theory Runner
  imports Connection_Properties
begin

text \<open>
  The runner: \<^verbatim>\<open>include/boost/redis/detail/runner.hpp\<close>, a class that keeps a connection running from
  the outside.  Its operations are templates over the type of the connection; here this is the
  connection of the library.  They call a member \<open>reset()\<close> that the connection of the library
  does not have, which is the argument \<open>conn_reset\<close>.

  \<open>runner_op\<close> and \<open>hello_op\<close> are earlier forms of \<open>run_op\<close> and of the \<open>hello_op\<close> of the handshaker.  The
  theorem at the end says how they are related.  The response to HELLO is a member of the runner;
  as the adapter of the request writes to it, it is \<open>hello_resp\<close> of the response objects.
\<close>

section \<open>Definitions\<close>

record runner =
  rn_hello_req :: request
  rn_cfg :: config

definition new_runner :: "config \<Rightarrow> runner" where
  "new_runner cfg = \<lparr>rn_hello_req = new_request default_request_config, rn_cfg = cfg\<rparr>"

definition runner_set_config :: "runner \<Rightarrow> config \<Rightarrow> runner" where
  "runner_set_config r cfg = r\<lparr>rn_cfg := cfg\<rparr>"

definition runner_add_hello :: "runner \<Rightarrow> node list result \<Rightarrow> fault + runner \<times> node list result" where
  "runner_add_hello r old_resp =
     (let req = request_clear (rn_hello_req r);
          resp = (case old_resp of Inr _ \<Rightarrow> Inr [] | Inl e \<Rightarrow> Inl e)
      in andThen (push_hello (rn_cfg r) req) (\<lambda>req'. Inr (r\<lparr>rn_hello_req := req'\<rparr>, resp)))"

definition runner_has_error_in_response :: "node list result \<Rightarrow> bool" where
  "runner_has_error_in_response resp =
     (case resp of
        Inl _ \<Rightarrow> True
      | Inr ns \<Rightarrow> list_ex (\<lambda>e. case data_type e of simple_error_t \<Rightarrow> True | blob_error_t \<Rightarrow> True | _ \<Rightarrow> False) ns)"

fun runner_hello_op ::
  "messages \<Rightarrow> logger \<Rightarrow> hello_pc \<Rightarrow> error_code option \<Rightarrow> runner \<times> 'u connection
    \<Rightarrow> fault + (runner \<times> 'u connection) \<times> (hello_pc, error_code option) outcome" where
  "runner_hello_op msg l Hello_start ec (r, c) =
     andThen (runner_add_hello r (hello_resp (c_responses c))) (\<lambda>(r, resp).
       let c = c\<lparr>c_responses := (c_responses c)\<lparr>hello_resp := resp\<rparr>\<rparr>
       in andThen (async_exec (rn_hello_req r) hello_adapter c) (\<lambda>(c, p).
            Inr ((r, c), Suspend (Async_exec p) Hello_answered)))"
| "runner_hello_op msg l Hello_answered ec (r, c) =
     (let c = do_call (Log (on_hello msg l ec (hello_resp (c_responses c)))) c
      in if ec \<noteq> None then Inr ((r, cancel op_run c), Complete ec)
         else if runner_has_error_in_response (hello_resp (c_responses c))
         then Inr ((r, cancel op_run c), Complete (Some (make_error_code resp3_hello)))
         else Inr ((r, c), Complete None))"

fun runner_op ::
  "('u connection \<Rightarrow> 'u connection) \<Rightarrow> messages \<Rightarrow> logger \<Rightarrow> runner \<Rightarrow> run_pc \<Rightarrow> nat list \<Rightarrow> error_code option
    \<Rightarrow> error_code option \<Rightarrow> error_code option \<Rightarrow> error_code option \<Rightarrow> 'u connection
    \<Rightarrow> 'u connection \<times> (run_pc, error_code option) outcome" where
  "runner_op conn_reset msg l r Run_start order ec0 ec1 ec2 ec3 c = run_resolve c"
| "runner_op conn_reset msg l r Run_resolved order ec0 ec1 ec2 ec3 c =
     (let c = do_call (Log (on_resolve msg l ec0 (rs_results (c_resv c)))) c
      in if ec0 \<noteq> None then (c, Complete ec0)
         else (c, Suspend (Async_connect (rs_results (c_resv c)) (ct_timeout (c_ctor c))) Run_connected))"
| "runner_op conn_reset msg l r Run_connected order ec0 ec1 ec2 ec3 c =
     (let c = do_call (Log (on_connect msg l ec0 (ct_endpoint (c_ctor c)))) c
      in if ec0 \<noteq> None then (c, Complete ec0)
         else if use_ssl (c_cfg c)
         then (c, Suspend (Async_handshake (cfg_ssl_handshake_timeout (rn_cfg r))) Run_handshaken)
         else (conn_reset c, Suspend Parallel_group Run_group_ended))"
| "runner_op conn_reset msg l r Run_handshaken order ec0 ec1 ec2 ec3 c =
     (let c = do_call (Log (on_ssl_handshake msg l ec0)) c
      in if ec0 \<noteq> None then (c, Complete ec0) else (conn_reset c, Suspend Parallel_group Run_group_ended))"
| "runner_op conn_reset msg l r Run_group_ended order ec0 ec1 ec2 ec3 c =
     (if order ! 0 = 0 \<and> ec0 \<noteq> None then (c, Complete ec0)
      else if order ! 0 = 2 \<and> ec2 = Some (make_error_code pong_timeout) then (c, Complete ec1)
      else
        (let c = cancel op_receive c
         in if \<not> will_reconnect c then (cancel op_reconnection c, Complete ec3)
            else (do_call (Writer_timer_expires (reconnect_wait_interval (c_cfg c))) c,
                  Suspend Writer_wait Run_waited)))"
| "runner_op conn_reset msg l r Run_waited order ec0 ec1 ec2 ec3 c =
     (if ec0 \<noteq> None then (c, Complete ec0)
      else if \<not> will_reconnect c then (c, Complete (Some operation_aborted))
      else run_resolve (reset_stream c))"

definition runner_async_run ::
  "('u connection \<Rightarrow> 'u connection) \<Rightarrow> messages \<Rightarrow> logger \<Rightarrow> runner \<Rightarrow> 'u connection
    \<Rightarrow> 'u connection \<times> (run_pc, error_code option) outcome" where
  "runner_async_run conn_reset msg l r c = runner_op conn_reset msg l r Run_start [] None None None None c"

text \<open>The parallel group that \<open>runner_op\<close> starts when it suspends on it.\<close>

definition runner_start_group ::
  "messages \<Rightarrow> logger \<Rightarrow> (call list \<Rightarrow> bool) \<Rightarrow> runner \<times> 'u connection \<Rightarrow> fault + (runner \<times> 'u connection) \<times> group" where
  "runner_start_group msg l try_send rc =
     andThen (runner_hello_op msg l Hello_start None rc) (\<lambda>((r, c), hello).
     andThen (ping_op msg l Ping_start None c) (\<lambda>(c, ping).
     let (c, check) = async_check_timeout msg l c
     in andThen (reader_op msg l try_send Reader_start None [] c) (\<lambda>(c, reader).
        let (c, writer) = writer_op msg l Writer_start None c
        in Inr ((r, c), \<lparr>g_hello = hello, g_ping = ping, g_check = check, g_reader = reader, g_writer = writer\<rparr>))))"

section \<open>Specification\<close>

text \<open>The runner as the handshaker of its connection.\<close>

definition as_handshaker :: "runner \<Rightarrow> resp3_handshaker" where
  "as_handshaker r = \<lparr>h_hello_req = rn_hello_req r, h_cfg = rn_cfg r\<rparr>"

definition install :: "runner \<Rightarrow> 'u connection \<Rightarrow> 'u connection" where
  "install r c = c\<lparr>c_handshaker := as_handshaker r\<rparr>"

text \<open>The wait before a reconnection on the timer of \<open>run_op\<close> instead of the timer of the writer.\<close>

fun rename_call :: "call \<Rightarrow> call" where
  "rename_call (Writer_timer_expires d) = Reconnect_timer_expires d"
| "rename_call k = k"

definition rename_calls :: "'u connection \<Rightarrow> 'u connection" where
  "rename_calls c = c\<lparr>c_calls := map rename_call (c_calls c)\<rparr>"

fun rename_wait :: "(run_pc, 'r) outcome \<Rightarrow> (run_pc, 'r) outcome" where
  "rename_wait (Suspend Writer_wait Run_waited) = Suspend Reconnect_wait Run_waited"
| "rename_wait out = out"

definition reset_mpx :: "'u connection \<Rightarrow> 'u connection" where
  "reset_mpx c = c\<lparr>c_mpx := mpx_reset (c_mpx c)\<rparr>"

section \<open>Lemmas\<close>

lemma runner_error_eq: "runner_has_error_in_response = has_error_in_response"
  by (simp add: fun_eq_iff runner_has_error_in_response_def has_error_in_response_def)

text \<open>The operations of the connection other than the handshake do not use the handshaker.\<close>

definition lift_install :: "runner \<Rightarrow> fault + 'u connection \<times> 'a \<Rightarrow> fault + 'u connection \<times> 'a" where
  "lift_install r x = andThen x (\<lambda>(c, a). Inr (install r c, a))"

lemma lift_install_simps [simp]:
  "lift_install r (Inl f) = Inl f" "lift_install r (Inr x) = Inr (map_prod (install r) id x)"
  by (simp_all add: lift_install_def split: prod.split)

lemma install_fields [simp]:
  "c_cfg (install r c) = c_cfg c" "c_open (install r c) = c_open c" "c_checker (install r c) = c_checker c"
  "c_mpx (install r c) = c_mpx c" "c_responses (install r c) = c_responses c" "c_execs (install r c) = c_execs c"
  "c_calls (install r c) = c_calls c" "c_handshaker (install r c) = as_handshaker r"
  by (simp_all add: install_def)

lemma install_updates [simp]:
  "(install r c)\<lparr>c_mpx := m\<rparr> = install r (c\<lparr>c_mpx := m\<rparr>)"
  "(install r c)\<lparr>c_responses := s\<rparr> = install r (c\<lparr>c_responses := s\<rparr>)"
  "(install r c)\<lparr>c_execs := x\<rparr> = install r (c\<lparr>c_execs := x\<rparr>)"
  "(install r c)\<lparr>c_open := b\<rparr> = install r (c\<lparr>c_open := b\<rparr>)"
  "(install r c)\<lparr>c_checker := hc\<rparr> = install r (c\<lparr>c_checker := hc\<rparr>)"
  "do_call k (install r c) = install r (do_call k c)"
  "(install r c)\<lparr>c_handshaker := as_handshaker r'\<rparr> = install r' c"
  by (simp_all add: install_def do_call_def)

lemma cancel_run_install [simp]: "cancel_run (install r c) = install r (cancel_run c)"
  by (simp add: cancel_run_def close_def Let_def)

lemma async_exec_install [simp]: "async_exec req A (install r c) = lift_install r (async_exec req A c)"
  by (simp add: async_exec_def make_elem_def trigger_write_def Let_def)

lemma ping_loop_install [simp]: "ping_loop l (install r c) = lift_install r (ping_loop l c)"
  by (cases "async_exec (hc_req (c_checker c)) ping_adapter c") (auto simp: ping_loop_def)

lemma ping_op_install [simp]: "ping_op msg l pc ec (install r c) = lift_install r (ping_op msg l pc ec c)"
  by (cases pc) simp_all

lemma check_timeout_install [simp]:
  "async_check_timeout msg l (install r c) = map_prod (install r) id (async_check_timeout msg l c)"
  by (simp add: async_check_timeout_def check_timeout_loop_def)

lemma writer_loop_install [simp]: "writer_loop (install r c) = map_prod (install r) id (writer_loop c)"
  by (simp add: writer_loop_def Let_def split: prod.split)

lemma reader_append_install [simp]: "reader_append (install r c) = map_prod (install r) id (reader_append c)"
  by (simp add: reader_append_def)

lemma reader_commit_install [simp]:
  "reader_commit msg l try_send (install r c) = lift_install r (reader_commit msg l try_send c)"
proof (induction msg l try_send c rule: reader_commit.induct)
  case (1 msg l try_send c)
  show ?case
  proof (cases "commit_read (c_mpx c) (c_responses c)")
    case (Inl f)
    then show ?thesis by (simp add: reader_commit.simps [of msg l try_send])
  next
    case (Inr x)
    obtain m s ec res n where x: "x = (m, s, ec, res, n)" by (cases x)
    show ?thesis
      unfolding reader_commit.simps [of msg l try_send "install r c"] reader_commit.simps [of msg l try_send c]
      using 1 [OF Inr] Inr by (auto simp: x reader_fail_def Let_def)
  qed
qed

lemma hello_op_install:
  "hello_op msg l pc ec (install r c) =
     (case runner_hello_op msg l pc ec (r, c) of
        Inl f \<Rightarrow> Inl f
      | Inr ((r', c'), out) \<Rightarrow> Inr (install r' c', out))"
proof (cases pc)
  case Hello_start
  have add: "add_hello (as_handshaker r) old = (case runner_add_hello r old of
      Inl f \<Rightarrow> Inl f | Inr (r', resp) \<Rightarrow> Inr (as_handshaker r', resp))" for old
    by (cases "push_hello (rn_cfg r) (request_clear (rn_hello_req r))")
      (simp_all add: add_hello_def runner_add_hello_def as_handshaker_def Let_def)
  show ?thesis
  proof (cases "runner_add_hello r (hello_resp (c_responses c))")
    case (Inl f)
    then show ?thesis by (simp add: Hello_start add)
  next
    case (Inr x)
    obtain r' resp where x: "x = (r', resp)" by (cases x)
    have "h_hello_req (as_handshaker r') = rn_hello_req r'" by (simp add: as_handshaker_def)
    with Inr show ?thesis
      by (cases "async_exec (rn_hello_req r') hello_adapter (c\<lparr>c_responses := (c_responses c)\<lparr>hello_resp := resp\<rparr>\<rparr>)")
        (auto simp: Hello_start add x)
  qed
next
  case Hello_answered
  then show ?thesis by (simp add: runner_error_eq Let_def)
qed

lemma start_group_install:
  "start_group msg l try_send (install r c) =
     (case runner_start_group msg l try_send (r, c) of
        Inl f \<Rightarrow> Inl f
      | Inr ((r', c'), g) \<Rightarrow> Inr (install r' c', g))"
proof (cases "runner_hello_op msg l Hello_start None (r, c)")
  case (Inl f)
  then show ?thesis by (simp only: start_group_def runner_start_group_def hello_op_install) simp
next
  case (Inr x)
  obtain r' c1 hello where x: "x = ((r', c1), hello)" by (cases x) auto
  show ?thesis
  proof (cases "ping_op msg l Ping_start None c1")
    case Inl': (Inl f)
    with Inr show ?thesis
      by (simp only: start_group_def runner_start_group_def hello_op_install) (simp add: x del: ping_op.simps)
  next
    case Inr': (Inr y)
    obtain c2 ping where y: "y = (c2, ping)" by (cases y)
    obtain c3 check where check: "async_check_timeout msg l c2 = (c3, check)" by (cases "async_check_timeout msg l c2")
    have reader: "reader_op msg l try_send Reader_start None [] (install r' c3) =
        lift_install r' (reader_op msg l try_send Reader_start None [] c3)" by simp
    have writer: "writer_op msg l Writer_start None (install r' c4) =
        map_prod (install r') id (writer_op msg l Writer_start None c4)" for c4 :: "'a connection" by simp
    show ?thesis
      using Inr Inr' check reader writer
      by (cases "reader_op msg l try_send Reader_start None [] c3")
        (auto simp only: start_group_def runner_start_group_def hello_op_install x y Let_def andThen.simps sum.case
          prod.case ping_op_install lift_install_simps check_timeout_install map_prod_simp id_apply split: prod.splits)
  qed
qed

lemma runner_op_rename:
  assumes "cfg_ssl_handshake_timeout (rn_cfg r) = cfg_ssl_handshake_timeout (c_cfg c)"
  shows "run_op msg l pc order ec0 ec1 ec2 ec3 (rename_calls c) =
    map_prod rename_calls rename_wait (runner_op reset_mpx msg l r pc order ec0 ec1 ec2 ec3 c)"
  using assms
  by (cases pc) (simp_all add: rename_calls_def do_call_def run_resolve_def run_established_def reset_mpx_def
      will_reconnect_def no_reconnection_def reset_stream_def Let_def)

section \<open>Property\<close>



end
