(* ===== verification/Adapter_Properties.thy ===== *)
theory Adapter_Properties
  imports Adapters "HOL-Library.Multiset"
begin

text \<open>
  The properties of the adapters: which of them accept every node, what the containers hold
  after a whole message, and the messages on which adapters go wrong.
\<close>

section \<open>Contracts\<close>

interpretation ignoring: adapter_contract ignore I for I :: "'s \<Rightarrow> bool"
  by unfold_locales (simp add: ignore_def)

text \<open>An implementation that accepts every node makes a wrapper that accepts every node.\<close>

locale value_contract = adapter_contract impl I for impl :: "'v adapter" and I
begin

definition wrapper_ok :: "'v wrapper \<Rightarrow> bool" where
  "wrapper_ok w \<longleftrightarrow> (case w_result w of Inl _ \<Rightarrow> True | Inr v \<Rightarrow> I v)"

lemma wrapper_total: "wrapper_ok w \<Longrightarrow> \<exists>w' e. wrapper_call impl w nd = Inr (w', e) \<and> wrapper_ok w'"
proof (cases "w_result w")
  case (Inr v)
  assume "wrapper_ok w"
  with Inr have "I v" by (simp add: wrapper_ok_def)
  from adapter_total [OF this] obtain v' e where "impl v nd = Inr (v', e)" "I v'" by blast
  with Inr show ?thesis by (simp add: wrapper_ok_def wrapper_call_def)
qed (simp add: wrapper_ok_def wrapper_call_def)

end

sublocale value_contract \<subseteq> wrapped: adapter_contract "wrapper_call impl" wrapper_ok
  by unfold_locales (rule wrapper_total)

interpretation string_value: value_contract "simple_impl convert_string" "\<lambda>_. True"
  by unfold_locales (simp add: simple_impl_def convert_string_def)

interpretation integral_value: value_contract "simple_impl (convert_integral is_signed w)" "\<lambda>_. True" for is_signed w
  by unfold_locales (simp add: simple_impl_def convert_integral_def split: option.split)

section \<open>Feeding a sequence of nodes\<close>

definition element_node :: "resp3_type \<Rightarrow> string \<Rightarrow> node" where
  "element_node t s = mk_node t 1 1 s"

lemma nodes_bulks:
  "nodes 0 (Aggr t (map (Bulk b) ss)) =
     mk_node t (of_nat (length ss div multiplicity t)) 0 [] # map (element_node b) ss"
  by (simp add: comp_def element_node_def)

lemma element_node_simps [simp]:
  "data_type (element_node t s) = t" "aggregate_size (element_node t s) = 1" "depth (element_node t s) = 1"
  "node_value (element_node t s) = s"
  by (simp_all add: element_node_def mk_node_def)

lemma mk_node_simps [simp]:
  "data_type (mk_node t n d s) = t" "aggregate_size (mk_node t n d s) = n" "depth (mk_node t n d s) = d"
  "node_value (mk_node t n d s) = s"
  by (simp_all add: mk_node_def)

lemma feed_append:
  "feed_nodes A s (ns @ ms) =
     (case feed_nodes A s ns of Inr (s', None) \<Rightarrow> feed_nodes A s' ms | r \<Rightarrow> r)"
  by (induction ns arbitrary: s) (auto split: sum.splits prod.splits option.splits)

text \<open>A wrapper passes all nodes on once the first one was not an error.\<close>

lemma feed_wrapper:
  assumes "data_type nd \<notin> {null_t, simple_error_t, blob_error_t}"
    and "feed_nodes impl v (nd # ns) = Inr (v', None)"
  shows "feed_nodes (wrapper_call impl) (new_wrapper v) (nd # ns) =
    Inr (\<lparr>w_result = Inr v', w_called_once = True\<rparr>, None)"
proof -
  have pass: "feed_nodes impl v ns = Inr (v', None) \<Longrightarrow>
      feed_nodes (wrapper_call impl) \<lparr>w_result = Inr v, w_called_once = True\<rparr> ns =
        Inr (\<lparr>w_result = Inr v', w_called_once = True\<rparr>, None)" for v ns
    by (induction ns arbitrary: v) (auto simp: wrapper_call_def split: sum.splits prod.splits option.splits)
  from assms obtain v1 where "impl v nd = Inr (v1, None)" "feed_nodes impl v1 ns = Inr (v', None)"
    by (auto split: sum.splits prod.splits option.splits)
  with assms(1) pass show ?thesis by (simp add: wrapper_call_def new_wrapper_def)
qed

lemma feed_map:
  assumes "\<And>r s. s \<in> set ss \<Longrightarrow> A r (element_node b s) = Inr (g s r, None)"
  shows "feed_nodes A r (map (element_node b) ss) = Inr (fold g ss r, None)"
  using assms by (induction ss arbitrary: r) simp_all

lemma fold_snoc: "fold (\<lambda>s r. r @ [f s]) ss r = r @ map f ss"
  by (induction ss arbitrary: r) simp_all

lemma bulks_parse:
  assumes "is_aggregate t" and "multiplicity t dvd length ss"
    and "b \<in> {blob_string_t, verbatim_string_t}"
    and "length (encode (Aggr t (map (Bulk b) ss)) @ rest) < 2 ^ 64"
    and "feed_nodes impl v (mk_node t (of_nat (length ss div multiplicity t)) 0 [] # map (element_node b) ss)
      = Inr (v', None)"
  shows "\<exists>p. parse (wrapper_call impl) (encode (Aggr t (map (Bulk b) ss)) @ rest) new_parser (new_wrapper v) =
    Inr (p, \<lparr>w_result = Inr v', w_called_once = True\<rparr>, True, None)"
proof -
  have "wf_resp 0 (Aggr t (map (Bulk b) ss))"
    using assms(1-3) by (auto simp: list_all_iff max_embedded_depth_def)
  from encode_emits [OF this assms(4)] obtain p
    where p: "emits (encode (Aggr t (map (Bulk b) ss)) @ rest) new_parser (nodes 0 (Aggr t (map (Bulk b) ss))) p"
      "parser_done p" .
  have "data_type (mk_node t (of_nat (length ss div multiplicity t)) 0 []) \<notin> {null_t, simple_error_t, blob_error_t}"
    using assms(1) by auto
  note feed = feed_wrapper [OF this assms(5), folded nodes_bulks]
  from emits_parse [OF p(1) feed] show ?thesis by (metis parse_done [OF p(2)])
qed

lemma convert_string_element [simp]: "convert_string [] (element_node b s) = Inr (s, None)"
  by (simp add: convert_string_def)

lemma is_aggregate_bulk [simp]: "b \<in> {blob_string_t, verbatim_string_t} \<Longrightarrow> \<not> is_aggregate b"
  by auto

lemma multiplicity_eq: "is_aggregate t \<Longrightarrow> element_multiplicity t = of_nat (multiplicity t)"
  by (cases t) (simp_all add: multiplicity_def)

lemma announced_size:
  assumes "is_aggregate t" and "multiplicity t dvd n"
  shows "element_multiplicity t * of_nat (n div multiplicity t) = of_nat n"
proof -
  have "of_nat (multiplicity t * (n div multiplicity t)) = (of_nat n :: size_t)"
    using assms(2) by simp
  with assms(1) show ?thesis by (simp add: multiplicity_eq)
qed

section \<open>Containers\<close>

lemma feed_vector:
  assumes "is_aggregate t" and "multiplicity t dvd length ss" and "b \<in> {blob_string_t, verbatim_string_t}"
    and "of_nat (length ss) \<le> mx"
  shows "feed_nodes (vector_impl mx [] convert_string) []
    (mk_node t (of_nat (length ss div multiplicity t)) 0 [] # map (element_node b) ss) = Inr (ss, None)"
proof -
  have "feed_nodes (vector_impl mx [] convert_string) [] (map (element_node b) ss) = Inr (fold (\<lambda>s r. r @ [s]) ss [], None)"
    using assms(3) by (intro feed_map) (simp add: vector_impl_def)
  with assms(1,4) announced_size [OF assms(1,2)] fold_snoc [of id ss "[]"] show ?thesis
    by (simp add: vector_impl_def not_less id_def)
qed

lemma feed_list:
  assumes "is_aggregate t" and "b \<in> {blob_string_t, verbatim_string_t}"
  shows "feed_nodes (list_impl [] convert_string) [] (mk_node t n 0 [] # map (element_node b) ss) = Inr (ss, None)"
proof -
  have "feed_nodes (list_impl [] convert_string) [] (map (element_node b) ss) = Inr (fold (\<lambda>s r. r @ [s]) ss [], None)"
    using assms(2) by (intro feed_map) (simp add: list_impl_def)
  with assms(1) fold_snoc [of id ss "[]"] show ?thesis by (simp add: list_impl_def id_def)
qed

lemma feed_array:
  assumes "b \<in> {blob_string_t, verbatim_string_t}"
  shows "feed_nodes (array_impl convert_string) (int (length us), us @ replicate (length ss) []) (map (element_node b) ss)
    = Inr ((int (length us + length ss), us @ ss), None)"
  using assms
proof (induction ss arbitrary: us)
  case (Cons s ss)
  have "array_impl convert_string (int (length us), us @ replicate (length (s # ss)) []) (element_node b s) =
      Inr ((int (length (us @ [s])), (us @ [s]) @ replicate (length ss) []), None)"
    using Cons.prems by (auto simp: array_impl_def list_update_append)
  with Cons.IH [of "us @ [s]"] Cons.prems show ?case by simp
qed simp

lemma feed_set:
  assumes "b \<in> {blob_string_t, verbatim_string_t}"
  shows "feed_nodes (set_impl ins [] convert_string) r (mk_node set_t n 0 [] # map (element_node b) ss)
    = Inr (fold ins ss r, None)"
  using assms feed_map [of ss "set_impl ins [] convert_string" b ins r] by (auto simp: set_impl_def)

lemma fold_insert_set: "fold insert ss A = set ss \<union> A"
  by (induction ss arbitrary: A) auto

lemma fold_add_mset: "fold add_mset ss M = mset ss + M"
  by (induction ss arbitrary: M) auto

definition new_map_state :: "('k, 'v) map_state" where
  "new_map_state = \<lparr>current = None, on_key = True, contents = Map.empty\<rparr>"

definition flatten_pairs :: "('a \<times> 'a) list \<Rightarrow> 'a list" where
  "flatten_pairs kvs = concat (map (\<lambda>(k, v). [k, v]) kvs)"

lemma flatten_pairs_simps [simp]:
  "flatten_pairs [] = []" "flatten_pairs ((k, v) # kvs) = k # v # flatten_pairs kvs"
  "length (flatten_pairs kvs) = 2 * length kvs"
  by (simp_all add: flatten_pairs_def) (induction kvs; auto)

lemma feed_map_pairs:
  assumes "b \<in> {blob_string_t, verbatim_string_t}" and "on_key st"
  shows "\<exists>st'. feed_nodes (map_impl [] [] convert_string convert_string) st (map (element_node b) (flatten_pairs kvs))
      = Inr (st', None) \<and> on_key st' \<and> contents st' = fold (\<lambda>(k, v) m. m(k \<mapsto> v)) kvs (contents st)"
  using assms(2)
proof (induction kvs arbitrary: st)
  case (Cons kv kvs)
  obtain k v where kv: "kv = (k, v)" by (cases kv)
  let ?st = "st\<lparr>current := Some k, on_key := True, contents := (contents st)(k \<mapsto> v)\<rparr>"
  have "feed_nodes (map_impl [] [] convert_string convert_string) st (map (element_node b) (flatten_pairs (kv # kvs)))
      = feed_nodes (map_impl [] [] convert_string convert_string) ?st (map (element_node b) (flatten_pairs kvs))"
    using assms(1) Cons.prems by (auto simp: kv map_impl_def fun_upd_idem_iff)
  with Cons.IH [of ?st] show ?case by (simp add: kv)
qed simp

section \<open>Properties\<close>

text \<open>
  An array of strings is read into a vector, a list or deque, or an array of that size, with
  exactly its strings in order.  The message may be any aggregate of the server, and more data may
  follow it in the buffer.
\<close>

theorem sequence_of_strings:
  assumes "is_aggregate t" and "multiplicity t dvd length ss" and "b \<in> {blob_string_t, verbatim_string_t}"
    and "length (encode (Aggr t (map (Bulk b) ss)) @ rest) < 2 ^ 64" and "of_nat (length ss) \<le> mx"
  shows "(\<exists>p. parse (wrapper_call (vector_impl mx [] convert_string))
           (encode (Aggr t (map (Bulk b) ss)) @ rest) new_parser (new_wrapper []) =
         Inr (p, \<lparr>w_result = Inr ss, w_called_once = True\<rparr>, True, None))
    \<and> (\<exists>p. parse (wrapper_call (list_impl [] convert_string))
           (encode (Aggr t (map (Bulk b) ss)) @ rest) new_parser (new_wrapper []) =
         Inr (p, \<lparr>w_result = Inr ss, w_called_once = True\<rparr>, True, None))
    \<and> (\<exists>p. parse (wrapper_call (array_impl convert_string))
           (encode (Aggr t (map (Bulk b) ss)) @ rest) new_parser (new_wrapper (-1, replicate (length ss) [])) =
         Inr (p, \<lparr>w_result = Inr (int (length ss), ss), w_called_once = True\<rparr>, True, None))"
proof -
  note parse = bulks_parse [OF assms(1-4)]
  have "array_impl convert_string (-1, replicate (length ss) []) (mk_node t (of_nat (length ss div multiplicity t)) 0 [])
      = Inr ((0, replicate (length ss) []), None)"
    using assms(1) announced_size [OF assms(1,2)] by (simp add: array_impl_def mult.commute)
  with feed_array [OF assms(3), of "[]" ss]
  have "feed_nodes (array_impl convert_string) (-1, replicate (length ss) [])
      (mk_node t (of_nat (length ss div multiplicity t)) 0 [] # map (element_node b) ss) = Inr ((int (length ss), ss), None)"
    by simp
  from parse [OF this] parse [OF feed_vector [OF assms(1-3,5)]] parse [OF feed_list [OF assms(1,3)]]
  show ?thesis by blast
qed

theorem sequence_of_strings_witness:
  "\<exists>p. parse (wrapper_call (vector_impl 8 [] convert_string))
      (encode (Aggr array_t [Bulk blob_string_t ''a'', Bulk blob_string_t ''bc''])) new_parser (new_wrapper []) =
    Inr (p, \<lparr>w_result = Inr [''a'', ''bc''], w_called_once = True\<rparr>, True, None)"
proof -
  have "length (encode (Aggr array_t [Bulk blob_string_t ''a'', Bulk blob_string_t ''bc''])) < 2 ^ 64"
    by (simp add: header_def sep_def multiplicity_def to_string_nat.simps wire_def)
  with sequence_of_strings [of array_t "[''a'', ''bc'']" blob_string_t "[]" 8] show ?thesis
    by (simp add: multiplicity_def)
qed

text \<open>
  A set of strings is read into a container by inserting its elements in the order of the
  message: a \<^verbatim>\<open>std::set\<close> then holds exactly the strings of the message, a \<^verbatim>\<open>std::multiset\<close> each
  of them as often as it was sent.
\<close>

theorem set_of_strings:
  assumes "b \<in> {blob_string_t, verbatim_string_t}"
    and "length (encode (Aggr set_t (map (Bulk b) ss)) @ rest) < 2 ^ 64"
  shows "(\<exists>p. parse (wrapper_call (set_impl insert [] convert_string))
           (encode (Aggr set_t (map (Bulk b) ss)) @ rest) new_parser (new_wrapper {}) =
         Inr (p, \<lparr>w_result = Inr (set ss), w_called_once = True\<rparr>, True, None))
    \<and> (\<exists>p. parse (wrapper_call (set_impl add_mset [] convert_string))
           (encode (Aggr set_t (map (Bulk b) ss)) @ rest) new_parser (new_wrapper {#}) =
         Inr (p, \<lparr>w_result = Inr (mset ss), w_called_once = True\<rparr>, True, None))"
proof -
  have t: "is_aggregate set_t" "multiplicity set_t dvd length ss" by (simp_all add: multiplicity_def)
  have f: "fold insert ss {} = set ss" using fold_insert_set [of ss "{}"] by simp
  have g: "fold add_mset ss {#} = mset ss" using fold_add_mset [of ss "{#}"] by simp
  show ?thesis
    unfolding f [symmetric] g [symmetric]
    by (intro conjI bulks_parse [OF t assms feed_set [OF assms(1)]])
qed

theorem set_of_strings_witness:
  "\<exists>p. parse (wrapper_call (set_impl add_mset [] convert_string))
      (encode (Aggr set_t [Bulk blob_string_t ''a'', Bulk blob_string_t ''a''])) new_parser (new_wrapper {#}) =
    Inr (p, \<lparr>w_result = Inr {#''a'', ''a''#}, w_called_once = True\<rparr>, True, None)"
proof -
  have "length (encode (Aggr set_t [Bulk blob_string_t ''a'', Bulk blob_string_t ''a''])) < 2 ^ 64"
    by (simp add: header_def sep_def multiplicity_def to_string_nat.simps wire_def)
  with set_of_strings [of blob_string_t "[''a'', ''a'']" "[]"] show ?thesis by simp
qed

text \<open>
  A map is read into a map with unique keys that binds every key of the message to the value
  that follows it; of a key that is sent twice the last value is kept.
\<close>

theorem map_of_strings:
  assumes "t \<in> {map_t, attribute_t}" and "b \<in> {blob_string_t, verbatim_string_t}"
    and "length (encode (Aggr t (map (Bulk b) (flatten_pairs kvs))) @ rest) < 2 ^ 64"
  shows "\<exists>p st. parse (wrapper_call (map_impl [] [] convert_string convert_string))
      (encode (Aggr t (map (Bulk b) (flatten_pairs kvs))) @ rest) new_parser (new_wrapper new_map_state) =
        Inr (p, \<lparr>w_result = Inr st, w_called_once = True\<rparr>, True, None)
    \<and> contents st = fold (\<lambda>(k, v) m. m(k \<mapsto> v)) kvs Map.empty"
proof -
  have t: "is_aggregate t" "multiplicity t dvd length (flatten_pairs kvs)" "element_multiplicity t = 2"
    using assms(1) by (auto simp: multiplicity_def)
  obtain st where st: "feed_nodes (map_impl [] [] convert_string convert_string) new_map_state
      (map (element_node b) (flatten_pairs kvs)) = Inr (st, None)"
    and c: "contents st = fold (\<lambda>(k, v) m. m(k \<mapsto> v)) kvs Map.empty"
    using feed_map_pairs [OF assms(2), of new_map_state kvs] by (auto simp: new_map_state_def)
  have "feed_nodes (map_impl [] [] convert_string convert_string) new_map_state
      (mk_node t (of_nat (length (flatten_pairs kvs) div multiplicity t)) 0 [] # map (element_node b) (flatten_pairs kvs))
      = Inr (st, None)"
    using t st by (simp add: map_impl_def)
  from bulks_parse [OF t(1,2) assms(2,3) this] c show ?thesis by blast
qed

theorem map_of_strings_witness:
  "\<exists>p st. parse (wrapper_call (map_impl [] [] convert_string convert_string))
      (encode (Aggr map_t (map (Bulk blob_string_t) [''k'', ''v'']))) new_parser (new_wrapper new_map_state) =
        Inr (p, \<lparr>w_result = Inr st, w_called_once = True\<rparr>, True, None)
    \<and> contents st ''k'' = Some ''v''"
proof -
  have "length (encode (Aggr map_t (map (Bulk blob_string_t) [''k'', ''v'']))) < 2 ^ 64"
    by (simp add: header_def sep_def multiplicity_def to_string_nat.simps wire_def)
  with map_of_strings [of map_t blob_string_t "[(''k'', ''v'')]" "[]"] show ?thesis
    by (auto simp: flatten_pairs_def)
qed

text \<open>
  An error reply, or a null for a type that has no null, becomes the error of the result,
  whatever the type of the value: the diagnostic of the server is kept, the rest of the message
  is ignored and parsing goes on.
\<close>

theorem error_reply_stored:
  assumes "data_type nd \<in> {null_t, simple_error_t, blob_error_t}"
  shows "feed_nodes (wrapper_call impl) (new_wrapper v) (nd # ns) =
    Inr (\<lparr>w_result = Inl \<lparr>err_data_type = data_type nd, err_diagnostic = node_value nd\<rparr>, w_called_once = True\<rparr>, None)"
proof -
  have "feed_nodes (wrapper_call impl) \<lparr>w_result = Inl e, w_called_once = True\<rparr> ns =
      Inr (\<lparr>w_result = Inl e, w_called_once = True\<rparr>, None)" for e
    by (induction ns) (simp_all add: wrapper_call_def)
  with assms show ?thesis by (simp add: wrapper_call_def new_wrapper_def resp3_error_of_def)
qed

theorem error_reply_stored_witness:
  "feed_nodes (wrapper_call (simple_impl convert_string)) (new_wrapper []) (nodes 0 (Simple simple_error_t ''ERR'')) =
    Inr (\<lparr>w_result = Inl \<lparr>err_data_type = simple_error_t, err_diagnostic = ''ERR''\<rparr>, w_called_once = True\<rparr>, None)"
  using error_reply_stored [of "mk_node simple_error_t 1 0 ''ERR''" "simple_impl convert_string" "[]" "[]"] by simp

lemma from_chars_int_to_string:
  "from_chars_int is_signed w (to_string_int v) =
    (if (if is_signed then - (2 ^ (w - 1)) \<le> v \<and> v < 2 ^ (w - 1) else 0 \<le> v \<and> v < 2 ^ w) then Some v else None)"
proof -
  have tw: "takeWhile is_digit (to_string_nat n) = to_string_nat n" for n
    using takeWhile_to_string_nat [of "[]" n] by simp
  have digit: "is_digit (hd (to_string_nat n))" for n
    using to_string_nat_digits [of n] to_string_nat_nonempty [of n]
    by (cases "to_string_nat n") auto
  have minus: "\<not> is_digit CHR ''-''" by (simp add: is_digit_def)
  with digit have "hd (to_string_nat n) \<noteq> CHR ''-''" for n by metis
  moreover have "takeWhile is_digit (CHR ''-'' # s) = []" for s by (simp add: minus)
  ultimately show ?thesis
    by (cases "v < 0") (auto simp: from_chars_int_def to_string_int_def Let_def tw)
qed

text \<open>
  C25: integers round-trip through their decimal notation: a node that holds the text of a number in
  the range of the integer type is converted to that number, and a number outside the range is
  refused with \<open>not_a_number\<close> and leaves the object as it was.
\<close>

theorem convert_integral_roundtrip:
  "convert_integral is_signed w old (element_node b (to_string_int v)) =
    (if (if is_signed then - (2 ^ (w - 1)) \<le> v \<and> v < 2 ^ (w - 1) else 0 \<le> v \<and> v < 2 ^ w)
     then Inr (v, None) else Inr (old, Some (make_error_code not_a_number)))"
  by (simp add: convert_integral_def from_chars_int_to_string)

section \<open>Tuples\<close>

fun is_leaf :: "resp \<Rightarrow> bool" where
  "is_leaf (Simple t s) \<longleftrightarrow> \<not> is_aggregate t"
| "is_leaf (Bulk t s) \<longleftrightarrow> \<not> is_aggregate t"
| "is_leaf _ \<longleftrightarrow> False"

fun is_flat :: "resp \<Rightarrow> bool" where
  "is_flat (Aggr t xs) \<longleftrightarrow> is_aggregate t \<and> multiplicity t dvd length xs \<and> list_all is_leaf xs"
| "is_flat x \<longleftrightarrow> is_leaf x"

text \<open>Each element of the message to the adapter of its position.\<close>

fun feed_tuple :: "'s adapter list \<Rightarrow> 's \<Rightarrow> resp list \<Rightarrow> fault + 's \<times> error_code option" where
  "feed_tuple (A # As) s (x # xs) =
     (case feed_nodes A s (nodes 1 x) of
        Inr (s', None) \<Rightarrow> feed_tuple As s' xs
      | r \<Rightarrow> r)"
| "feed_tuple _ s _ = Inr (s, None)"

definition at_element :: "nat \<Rightarrow> nat \<Rightarrow> 's \<Rightarrow> 's static_aggregate" where
  "at_element i n s = \<lparr>sa_i = of_nat i, sa_aggregate_size = of_nat n, sa_elements = s\<rparr>"

lemma leaf_nodes:
  assumes "is_leaf x"
  obtains nd where "nodes d x = [nd]" and "depth nd = d" and "\<not> is_aggregate (data_type nd)"
  using assms by (cases x) auto

lemma static_aggregate_step:
  assumes "i < length As" and "length As < 2 ^ 64" and "depth nd \<noteq> 0" and "(As ! i) s nd = Inr (s', None)"
    and "m = (if depth nd = 1 \<and> is_aggregate (data_type nd)
      then unat (element_multiplicity (data_type nd) * aggregate_size nd) else n)" and "n < 2 ^ 64"
  shows "static_aggregate_adapter As (at_element i n s) nd =
    Inr (if m = 0 then at_element (i + 1) 0 s' else at_element i (m - 1) s', None)"
proof -
  have i: "unat (of_nat i :: size_t) = i" using assms(1,2) by (intro unat_of_nat_size_t) simp
  have m: "(if depth nd = 1 \<and> is_aggregate (data_type nd)
      then element_multiplicity (data_type nd) * aggregate_size nd else of_nat n) = (of_nat m :: size_t)"
    using assms(5) by simp
  have "unat (k :: size_t) < 2 ^ 64" for k using unsigned_less [of k] by simp
  then have "m < 2 ^ 64" using assms(5,6) by (simp split: if_splits)
  then have z: "(of_nat m :: size_t) = 0 \<longleftrightarrow> m = 0"
    using of_nat_size_t_eq_iff [of m 0] by simp
  have "static_aggregate_count (at_element i n s') nd =
      (if m = 0 then at_element (i + 1) 0 s' else at_element i (m - 1) s')"
    unfolding static_aggregate_count_def at_element_def Let_def static_aggregate.simps m
    by (cases "m = 0") (simp_all add: z of_nat_size_t_pred del: of_nat_diff)
  moreover have "static_aggregate_adapter As (at_element i n s) nd =
      Inr (static_aggregate_count (at_element i n s') nd, None)"
    using assms(1,3,4) by (simp add: static_aggregate_adapter_def at_element_def i)
  ultimately show ?thesis by simp
qed

lemma static_aggregate_children:
  assumes "i < length As" and "length As < 2 ^ 64" and "length xs < 2 ^ 64" and "list_all is_leaf xs" and "xs \<noteq> []"
    and "feed_nodes (As ! i) s (concat (map (nodes 2) xs)) = Inr (s', None)"
  shows "feed_nodes (static_aggregate_adapter As) (at_element i (length xs - 1) s) (concat (map (nodes 2) xs)) =
    Inr (at_element (i + 1) 0 s', None)"
  using assms(3-6)
proof (induction xs arbitrary: s)
  case (Cons x xs)
  obtain nd where nd: "nodes 2 x = [nd]" "depth nd = 2" "\<not> is_aggregate (data_type nd)"
    using Cons.prems(2) leaf_nodes [of x 2] by auto
  with Cons.prems(4) obtain s1 where s1: "(As ! i) s nd = Inr (s1, None)"
    "feed_nodes (As ! i) s1 (concat (map (nodes 2) xs)) = Inr (s', None)"
    by (auto split: sum.splits prod.splits option.splits)
  have step: "static_aggregate_adapter As (at_element i (length xs) s) nd =
      Inr (if length xs = 0 then at_element (i + 1) 0 s1 else at_element i (length xs - 1) s1, None)"
    using nd Cons.prems(1) by (intro static_aggregate_step [OF assms(1,2) _ s1(1)]) auto
  show ?case
  proof (cases "xs = []")
    case True
    with step nd s1(2) show ?thesis by simp
  next
    case False
    with step nd Cons.IH [OF _ _ False s1(2)] Cons.prems show ?thesis by simp
  qed
qed simp

lemma static_aggregate_element:
  assumes "i < length As" and "length As < 2 ^ 64" and "is_flat x" and "length (encode x) < 2 ^ 64"
    and "feed_nodes (As ! i) s (nodes 1 x) = Inr (s', None)"
  shows "feed_nodes (static_aggregate_adapter As) (at_element i 0 s) (nodes 1 x) = Inr (at_element (i + 1) 0 s', None)"
proof (cases "is_leaf x")
  case True
  then obtain nd where nd: "nodes 1 x = [nd]" "depth nd = 1" "\<not> is_aggregate (data_type nd)" by (rule leaf_nodes)
  with assms(5) have "(As ! i) s nd = Inr (s', None)" by (auto split: sum.splits prod.splits option.splits)
  from static_aggregate_step [OF assms(1,2) _ this, of 0 0] nd show ?thesis by simp
next
  case False
  with assms(3) obtain t xs where x: "x = Aggr t xs" "is_aggregate t" "multiplicity t dvd length xs" "list_all is_leaf xs"
    by (cases x) auto
  let ?h = "mk_node t (of_nat (length xs div multiplicity t)) 1 []"
  from assms(5) obtain s1 where s1: "(As ! i) s ?h = Inr (s1, None)"
    "feed_nodes (As ! i) s1 (concat (map (nodes 2) xs)) = Inr (s', None)"
    by (auto simp: x numeral_2_eq_2 split: sum.splits prod.splits option.splits)
  have len: "length xs < 2 ^ 64"
    using assms(4) length_concat_encode [of xs] by (simp add: x)
  have "unat (element_multiplicity t * of_nat (length xs div multiplicity t) :: size_t) = length xs"
    unfolding announced_size [OF x(2,3)] by (rule unat_of_nat_size_t [OF len])
  then have step: "static_aggregate_adapter As (at_element i 0 s) ?h =
      Inr (if length xs = 0 then at_element (i + 1) 0 s1 else at_element i (length xs - 1) s1, None)"
    using x(2) by (intro static_aggregate_step [OF assms(1,2) _ s1(1)]) auto
  show ?thesis
  proof (cases "xs = []")
    case True
    with step s1(2) show ?thesis by (simp add: x)
  next
    case False
    with step static_aggregate_children [OF assms(1,2) len x(4) False s1(2)] show ?thesis
      by (simp add: x numeral_2_eq_2)
  qed
qed

lemma static_aggregate_elements:
  assumes "length (Bs @ As) < 2 ^ 64" and "length As = length xs" and "list_all is_flat xs"
    and "list_all (\<lambda>x. length (encode x) < 2 ^ 64) xs" and "feed_tuple As s xs = Inr (s', None)"
  shows "feed_nodes (static_aggregate_adapter (Bs @ As)) (at_element (length Bs) 0 s) (concat (map (nodes 1) xs)) =
    Inr (at_element (length Bs + length As) 0 s', None)"
  using assms
proof (induction As arbitrary: Bs s xs)
  case (Cons A As)
  then obtain x ys where xs: "xs = x # ys" by (cases xs) auto
  with Cons.prems(5) obtain s1 where s1: "feed_nodes A s (nodes 1 x) = Inr (s1, None)" "feed_tuple As s1 ys = Inr (s', None)"
    by (auto split: sum.splits prod.splits option.splits)
  have "feed_nodes (static_aggregate_adapter (Bs @ A # As)) (at_element (length Bs) 0 s) (nodes 1 x) =
      Inr (at_element (length Bs + 1) 0 s1, None)"
    using Cons.prems s1(1) by (intro static_aggregate_element) (simp_all add: xs)
  moreover have "feed_nodes (static_aggregate_adapter ((Bs @ [A]) @ As)) (at_element (length (Bs @ [A])) 0 s1)
      (concat (map (nodes 1) ys)) = Inr (at_element (length (Bs @ [A]) + length As) 0 s', None)"
    using Cons.prems s1(2) by (intro Cons.IH) (simp_all add: xs)
  ultimately show ?case by (simp add: xs feed_append)
qed simp

text \<open>
  An aggregate is read into a tuple of the same size by giving each element, a simple value or
  an aggregate of simple values, to the adapter of its position; a message of another size is
  refused with \<open>incompatible_size\<close>.
\<close>

theorem tuple_elements_in_position:
  assumes "is_aggregate t" and "multiplicity t dvd length xs" and "length As < 2 ^ 64" and "length xs < 2 ^ 64"
    and "list_all is_flat xs" and "list_all (\<lambda>x. length (encode x) < 2 ^ 64) xs"
    and "feed_tuple As s xs = Inr (s', None)"
  shows "feed_nodes (static_aggregate_adapter As) (at_element 0 0 s) (nodes 0 (Aggr t xs)) =
    (if length xs = length As then Inr (at_element (length As) 0 s', None)
     else Inr (at_element 0 0 s, Some (make_error_code incompatible_size)))"
proof -
  have "of_nat (length xs div multiplicity t) * element_multiplicity t = (of_nat (length xs) :: size_t)"
    using announced_size [OF assms(1,2)] by (simp add: mult.commute)
  then have head: "static_aggregate_adapter As (at_element 0 0 s) (mk_node t (of_nat (length xs div multiplicity t)) 0 []) =
      Inr (at_element 0 0 s, if length xs \<noteq> length As then Some (make_error_code incompatible_size) else None)"
    using of_nat_size_t_eq_iff [OF assms(4,3)] by (simp add: static_aggregate_adapter_def)
  show ?thesis
  proof (cases "length xs = length As")
    case True
    have "feed_nodes (static_aggregate_adapter As) (at_element 0 0 s) (concat (map (nodes 1) xs)) =
        Inr (at_element (length As) 0 s', None)"
      using static_aggregate_elements [of "[]" As xs s s', OF _ True [symmetric] assms(5-7)] assms(3) by simp
    with head True show ?thesis by (simp only: nodes.simps feed_nodes.simps One_nat_def) simp
  next
    case False
    with head show ?thesis by simp
  qed
qed

definition note_index :: "nat \<Rightarrow> (nat \<times> string) list adapter" where
  "note_index i ns nd = Inr (ns @ [(i, node_value nd)], None)"

theorem tuple_elements_in_position_witness:
  "feed_nodes (static_aggregate_adapter [note_index 0, note_index 1]) (at_element 0 0 [])
      (nodes 0 (Aggr array_t [Bulk blob_string_t ''a'', Aggr set_t [Bulk blob_string_t ''b'']])) =
    Inr (at_element 2 0 [(0, ''a''), (1, []), (1, ''b'')], None)"
proof -
  let ?xs = "[Bulk blob_string_t ''a'', Aggr set_t [Bulk blob_string_t ''b'']]"
  have "list_all (\<lambda>x. length (encode x) < 2 ^ 64) ?xs"
    by (simp add: header_def sep_def multiplicity_def to_string_nat.simps wire_def)
  with tuple_elements_in_position [of array_t ?xs "[note_index 0, note_index 1]" "[]"] show ?thesis
    by (simp add: multiplicity_def note_index_def numeral_2_eq_2 del: nodes.simps) (simp add: note_index_def multiplicity_def)
qed


section \<open>Generic responses\<close>

definition no_error :: "resp \<Rightarrow> bool" where
  "no_error t \<longleftrightarrow> list_all (\<lambda>nd. data_type nd \<notin> {blob_error_t, simple_error_t}) (nodes 0 t)"

lemma feed_general_aggregate:
  "list_all (\<lambda>nd. data_type nd \<notin> {blob_error_t, simple_error_t}) ns \<Longrightarrow>
     feed_nodes general_aggregate (Inr ms) ns = Inr (Inr (ms @ ns), None)"
  by (induction ns arbitrary: ms) (simp_all add: general_aggregate_def)

lemma nodes_depth: "nd \<in> set (nodes d t) \<Longrightarrow> d \<le> depth nd"
  by (induction d t rule: nodes.induct) fastforce+

lemma nodes_root:
  assumes "\<nexists>ps. t = Streamed ps"
  obtains nd ns where "nodes 0 t = nd # ns" and "depth nd = 0" and "list_all (\<lambda>e. depth e \<noteq> 0) ns"
proof (cases t)
  case (Aggr ty xs)
  have "list_all (\<lambda>e. depth e \<noteq> 0) (concat (map (nodes 1) xs))"
    using nodes_depth [of _ 1] by (fastforce simp: list_all_iff)
  with Aggr that show thesis by simp
qed (use assms that in auto)

text \<open>
  A generic response holds the nodes of all replies in pre-order, and \<open>consume_one\<close> takes off
  exactly the first reply.
\<close>

theorem generic_response_consume:
  assumes "list_all no_error (t # ts)" and "list_all (\<lambda>t. \<nexists>ps. t = Streamed ps) (t # ts)"
  shows "feed_nodes general_aggregate (Inr []) (concat (map (nodes 0) (t # ts))) =
      Inr (Inr (concat (map (nodes 0) (t # ts))), None)
    \<and> consume_one (Inr (concat (map (nodes 0) (t # ts)))) = (Inr (concat (map (nodes 0) ts)), None)"
proof
  have "list_all (\<lambda>nd. data_type nd \<notin> {blob_error_t, simple_error_t}) (concat (map (nodes 0) (t # ts)))"
    using assms(1) by (auto simp: no_error_def list_all_iff)
  from feed_general_aggregate [OF this, of "[]"]
  show "feed_nodes general_aggregate (Inr []) (concat (map (nodes 0) (t # ts))) =
      Inr (Inr (concat (map (nodes 0) (t # ts))), None)" by simp
  obtain nd ns where t: "nodes 0 t = nd # ns" "depth nd = 0" "list_all (\<lambda>e. depth e \<noteq> 0) ns"
    using assms(2) nodes_root [of t] by auto
  have "dropWhile (\<lambda>e. depth e \<noteq> 0) (concat (map (nodes 0) ts)) = concat (map (nodes 0) ts)"
  proof (cases ts)
    case (Cons u us)
    have "\<nexists>ps. u = Streamed ps" using assms(2) by (simp add: Cons)
    then obtain nd' ns' where "nodes 0 u = nd' # ns'" "depth nd' = 0" by (rule nodes_root)
    then show ?thesis by (simp add: Cons)
  qed simp
  with t show "consume_one (Inr (concat (map (nodes 0) (t # ts)))) = (Inr (concat (map (nodes 0) ts)), None)"
    by (simp add: consume_one_def dropWhile_append2 list_all_iff)
qed

theorem generic_response_consume_witness:
  "consume_one (Inr (concat (map (nodes 0) [Aggr array_t [Bulk blob_string_t ''a''], Simple simple_string_t ''OK'']))) =
    (Inr (nodes 0 (Simple simple_string_t ''OK'')), None)"
  using generic_response_consume [of "Aggr array_t [Bulk blob_string_t ''a'']" "[Simple simple_string_t ''OK'']"]
  by (simp add: no_error_def)



end
