(* ===== verification/Response_Types.thy ===== *)
theory Response_Types
  imports Adapter_Properties
begin

text \<open>
  The types a response may have and the choice of the adapter by the type: the templates
  \<open>converter\<close>, \<open>from_bulk_impl\<close>, \<open>impl_map\<close> and \<open>wrapper\<close> of \<^verbatim>\<open>adapter/detail/adapters.hpp\<close>,
  \<open>result_traits\<close>, \<open>internal_adapt\<close> and \<open>assigner\<close> of \<^verbatim>\<open>adapter/detail/result_traits.hpp\<close>,
  \<open>response_traits\<close> of \<^verbatim>\<open>adapter/detail/response_traits.hpp\<close> and \<^verbatim>\<open>adapter/adapt.hpp\<close>.

  A C++ type is a value of \<open>result_ty\<close>; template specialisation is pattern matching on it.  An
  object of any of the types is a \<open>slot\<close>.  The code works on one type at a time; \<open>lift_adapter\<close>
  turns it into code on slots, and \<open>Ill_Typed\<close> is what happens on an object of another type.
  The lemmas on well-typed slots show that this never happens.

  Containers compare their keys by equality.  A conversion that fails leaves the local object of
  type \<open>T\<close> as \<open>T{}\<close>.
\<close>

section \<open>Definitions\<close>

subsection \<open>Types\<close>

text \<open>
  \<open>Int_ty\<close> is an integer type that \<open>is_integral_number\<close> admits, signed or not, with its number of bits.
  The types of single nodes are these and \<^verbatim>\<open>std::optional\<close> of them.
\<close>

datatype scalar_ty = Int_ty bool nat | Bool_ty | Double_ty | String_ty

datatype bulk_ty = Plain scalar_ty | Optional scalar_ty

datatype object_ty =
    Simple_ty bulk_ty
  | Set_ty bulk_ty
  | Multiset_ty bulk_ty
  | Map_ty bulk_ty bulk_ty
  | Multimap_ty bulk_ty bulk_ty
  | Vector_ty bulk_ty
  | Array_ty bulk_ty nat
  | List_ty bulk_ty

text \<open>
  \<open>Ignore_ty\<close> is \<open>ignore_t\<close> or \<^verbatim>\<open>result<ignore_t>\<close>, \<open>Node_ty\<close> is \<^verbatim>\<open>result<node>\<close>, \<open>Nodes_ty\<close> is
  \<open>generic_response\<close>, and \<open>Tuple_ty\<close> is \<^verbatim>\<open>result<response<Ts...>>\<close>.
\<close>

datatype result_ty =
    Ignore_ty
  | Node_ty
  | Nodes_ty
  | Result_ty object_ty
  | Optional_ty object_ty
  | Tuple_ty "result_ty list"

subsection \<open>Objects\<close>

datatype 'd scalar = Int_val int | Bool_val bool | Double_val 'd | String_val string

datatype 'd bulk = Plain_val "'d scalar" | Optional_val "'d scalar option"

text \<open>
  The object together with the members of its \<open>impl\<close>.  \<open>Stale_obj\<close> is a set or map whose \<open>impl\<close>
  has not been told of it by \<open>on_value_available\<close>, so that its iterator is singular.
\<close>

datatype 'd object =
    Simple_obj "'d bulk"
  | Set_obj "'d bulk set"
  | Multiset_obj "'d bulk multiset"
  | Map_obj "('d bulk, 'd bulk) map_state"
  | Multimap_obj "('d bulk, 'd bulk) multimap_state"
  | Vector_obj "'d bulk list"
  | Array_obj "int \<times> 'd bulk list"
  | List_obj "'d bulk list"
  | Stale_obj "'d object"

datatype 'd slot =
    Ignore_slot
  | Node_slot "node result"
  | Nodes_slot "node list result"
  | Result_slot "'d object wrapper"
  | Optional_slot "'d object option wrapper"
  | Tuple_slot size_t size_t "'d slot list"

text \<open>What the code relies on: reading a \<open>double\<close>, its zero, and the largest size of a vector.\<close>

record 'd platform =
  from_chars_double :: "string \<Rightarrow> 'd option"
  zero_double :: 'd
  vector_max_size :: "bulk_ty \<Rightarrow> size_t"

subsection \<open>Code on one type as code on slots\<close>

definition lift_adapter :: "('a \<Rightarrow> 'b) \<Rightarrow> ('b \<Rightarrow> 'a option) \<Rightarrow> 'a adapter \<Rightarrow> 'b adapter" where
  "lift_adapter emb prj A b nd =
     (case prj b of
        None \<Rightarrow> Inl Ill_Typed
      | Some a \<Rightarrow> andThen (A a nd) (\<lambda>(a', ec). Inr (emb a', ec)))"

fun as_int where "as_int (Int_val i) = Some i" | "as_int _ = None"
fun as_bool where "as_bool (Bool_val b) = Some b" | "as_bool _ = None"
fun as_double where "as_double (Double_val d) = Some d" | "as_double _ = None"
fun as_string where "as_string (String_val s) = Some s" | "as_string _ = None"
fun as_plain where "as_plain (Plain_val v) = Some v" | "as_plain _ = None"
fun as_optional where "as_optional (Optional_val v) = Some v" | "as_optional _ = None"
fun as_simple where "as_simple (Simple_obj v) = Some v" | "as_simple _ = None"
fun as_set where "as_set (Set_obj v) = Some v" | "as_set _ = None"
fun as_multiset where "as_multiset (Multiset_obj v) = Some v" | "as_multiset _ = None"
fun as_map where "as_map (Map_obj v) = Some v" | "as_map _ = None"
fun as_multimap where "as_multimap (Multimap_obj v) = Some v" | "as_multimap _ = None"
fun as_vector where "as_vector (Vector_obj v) = Some v" | "as_vector _ = None"
fun as_array where "as_array (Array_obj v) = Some v" | "as_array _ = None"
fun as_list where "as_list (List_obj v) = Some v" | "as_list _ = None"
fun as_node where "as_node (Node_slot r) = Some r" | "as_node _ = None"
fun as_nodes where "as_nodes (Nodes_slot r) = Some r" | "as_nodes _ = None"
fun as_result where "as_result (Result_slot w) = Some w" | "as_result _ = None"
fun as_opt where "as_opt (Optional_slot w) = Some w" | "as_opt _ = None"

definition tuple_slot :: "'d slot list static_aggregate \<Rightarrow> 'd slot" where
  "tuple_slot a = Tuple_slot (sa_i a) (sa_aggregate_size a) (sa_elements a)"

fun as_tuple where
  "as_tuple (Tuple_slot i n ss) = Some \<lparr>sa_i = i, sa_aggregate_size = n, sa_elements = ss\<rparr>"
| "as_tuple _ = None"

subsection \<open>Conversion of one node\<close>

fun new_scalar :: "'d platform \<Rightarrow> scalar_ty \<Rightarrow> 'd scalar" where
  "new_scalar pf (Int_ty is_signed w) = Int_val 0"
| "new_scalar pf Bool_ty = Bool_val False"
| "new_scalar pf Double_ty = Double_val (zero_double pf)"
| "new_scalar pf String_ty = String_val []"

fun converter :: "'d platform \<Rightarrow> scalar_ty \<Rightarrow> 'd scalar from_bulk" where
  "converter pf (Int_ty is_signed w) = lift_adapter Int_val as_int (convert_integral is_signed w)"
| "converter pf Bool_ty = lift_adapter Bool_val as_bool convert_bool"
| "converter pf Double_ty = lift_adapter Double_val as_double (convert_double (from_chars_double pf))"
| "converter pf String_ty = lift_adapter String_val as_string convert_string"

fun new_bulk :: "'d platform \<Rightarrow> bulk_ty \<Rightarrow> 'd bulk" where
  "new_bulk pf (Plain T) = Plain_val (new_scalar pf T)"
| "new_bulk pf (Optional T) = Optional_val None"

fun from_bulk_impl :: "'d platform \<Rightarrow> bulk_ty \<Rightarrow> 'd bulk from_bulk" where
  "from_bulk_impl pf (Plain T) = lift_adapter Plain_val as_plain (converter pf T)"
| "from_bulk_impl pf (Optional T) =
     lift_adapter Optional_val as_optional (from_bulk_optional (new_scalar pf T) (converter pf T))"

subsection \<open>The implementation of a type\<close>

definition new_multimap_state :: "('k, 'v) multimap_state" where
  "new_multimap_state = \<lparr>mm_current = None, mm_on_key = True, mm_contents = []\<rparr>"

fun new_object :: "'d platform \<Rightarrow> object_ty \<Rightarrow> 'd object" where
  "new_object pf (Simple_ty b) = Simple_obj (new_bulk pf b)"
| "new_object pf (Set_ty b) = Set_obj {}"
| "new_object pf (Multiset_ty b) = Multiset_obj {#}"
| "new_object pf (Map_ty k v) = Map_obj new_map_state"
| "new_object pf (Multimap_ty k v) = Multimap_obj new_multimap_state"
| "new_object pf (Vector_ty b) = Vector_obj []"
| "new_object pf (Array_ty b n) = Array_obj (-1, replicate n (new_bulk pf b))"
| "new_object pf (List_ty b) = List_obj []"

fun impl_map :: "'d platform \<Rightarrow> object_ty \<Rightarrow> 'd object adapter" where
  "impl_map pf (Simple_ty b) = lift_adapter Simple_obj as_simple (simple_impl (from_bulk_impl pf b))"
| "impl_map pf (Set_ty b) =
     lift_adapter Set_obj as_set (set_impl insert (new_bulk pf b) (from_bulk_impl pf b))"
| "impl_map pf (Multiset_ty b) =
     lift_adapter Multiset_obj as_multiset (set_impl add_mset (new_bulk pf b) (from_bulk_impl pf b))"
| "impl_map pf (Map_ty k v) =
     lift_adapter Map_obj as_map
       (map_impl (new_bulk pf k) (new_bulk pf v) (from_bulk_impl pf k) (from_bulk_impl pf v))"
| "impl_map pf (Multimap_ty k v) =
     lift_adapter Multimap_obj as_multimap
       (multimap_impl (new_bulk pf k) (new_bulk pf v) (from_bulk_impl pf k) (from_bulk_impl pf v))"
| "impl_map pf (Vector_ty b) =
     lift_adapter Vector_obj as_vector (vector_impl (vector_max_size pf b) (new_bulk pf b) (from_bulk_impl pf b))"
| "impl_map pf (Array_ty b n) = lift_adapter Array_obj as_array (array_impl (from_bulk_impl pf b))"
| "impl_map pf (List_ty b) = lift_adapter List_obj as_list (list_impl (new_bulk pf b) (from_bulk_impl pf b))"

text \<open>Inserting with a singular iterator is undefined behaviour.\<close>

definition object_call :: "'d platform \<Rightarrow> object_ty \<Rightarrow> 'd object adapter" where
  "object_call pf T x nd =
     (case x of
        Stale_obj y \<Rightarrow>
          andThen (impl_map pf T y nd) (\<lambda>(y', ec).
            if is_aggregate (data_type nd) \<or> depth nd < 1 then Inr (Stale_obj y', ec) else Inl Out_Of_Bounds)
      | _ \<Rightarrow> impl_map pf T x nd)"

text \<open>An object that already has a value gets a new \<open>impl\<close>.\<close>

fun reopen :: "'d object \<Rightarrow> 'd object" where
  "reopen (Set_obj S) = Stale_obj (Set_obj S)"
| "reopen (Multiset_obj S) = Stale_obj (Multiset_obj S)"
| "reopen (Map_obj m) = Stale_obj (Map_obj (m\<lparr>current := None, on_key := True\<rparr>))"
| "reopen (Multimap_obj m) = Stale_obj (Multimap_obj (m\<lparr>mm_current := None, mm_on_key := True\<rparr>))"
| "reopen (Array_obj a) = Array_obj (-1, snd a)"
| "reopen x = x"

subsection \<open>The adapter of a type\<close>

definition at_position :: "nat \<Rightarrow> 's adapter \<Rightarrow> 's list adapter" where
  "at_position i A ss nd =
     (if i < length ss then andThen (A (ss ! i) nd) (\<lambda>(s, ec). Inr (ss[i := s], ec)) else Inl Ill_Typed)"

definition positions :: "'s adapter list \<Rightarrow> 's list adapter list" where
  "positions As = map (\<lambda>(i, A). at_position i A) (enumerate 0 As)"

fun result_adapter :: "'d platform \<Rightarrow> result_ty \<Rightarrow> 'd slot adapter" where
  "result_adapter pf Ignore_ty = ignore"
| "result_adapter pf Node_ty = lift_adapter Node_slot as_node general_simple"
| "result_adapter pf Nodes_ty = lift_adapter Nodes_slot as_nodes general_aggregate"
| "result_adapter pf (Result_ty T) = lift_adapter Result_slot as_result (wrapper_call (object_call pf T))"
| "result_adapter pf (Optional_ty T) =
     lift_adapter Optional_slot as_opt (wrapper_optional_call (new_object pf T) (object_call pf T))"
| "result_adapter pf (Tuple_ty Ts) =
     lift_adapter tuple_slot as_tuple (static_aggregate_adapter (positions (map (result_adapter pf) Ts)))"

text \<open>\<open>assigner\<close> visits the elements from the last to the first.\<close>

fun assigner :: "('a \<Rightarrow> 'b \<Rightarrow> fault + 'b) \<Rightarrow> 'a list \<Rightarrow> 'b list \<Rightarrow> fault + 'b list" where
  "assigner f (x # xs) (y # ys) =
     andThen (assigner f xs ys) (\<lambda>zs. andThen (f x y) (\<lambda>z. Inr (z # zs)))"
| "assigner f [] [] = Inr []"
| "assigner f _ _ = Inl Ill_Typed"

lemma assigner_cong [fundef_cong]:
  assumes "xs = xs'" and "ys = ys'" and "\<And>x y. x \<in> set xs' \<Longrightarrow> y \<in> set ys' \<Longrightarrow> f x y = g x y"
  shows "assigner f xs ys = assigner g xs' ys'"
  unfolding assms(1,2) using assms(3)
  by (induction g xs' ys' rule: assigner.induct) (auto intro!: arg_cong2 [where f = andThen])

text \<open>
  The constructors of the adapters, applied to the object they will write to.  The functions \<open>adapt\<close>
  of the traits are \<open>noexcept\<close>: an exception in a constructor ends the program.
\<close>

fun internal_adapt :: "'d platform \<Rightarrow> result_ty \<Rightarrow> 'd slot \<Rightarrow> fault + 'd slot" where
  "internal_adapt pf Ignore_ty s = Inr s"
| "internal_adapt pf Node_ty (Node_slot r) = Inr (Node_slot r)"
| "internal_adapt pf Nodes_ty (Nodes_slot r) = Inr (Nodes_slot r)"
| "internal_adapt pf (Result_ty T) (Result_slot w) =
     andThen (wrapper_construct (new_object pf T) (w_result w)) (\<lambda>w. Inr (Result_slot w))"
| "internal_adapt pf (Optional_ty T) (Optional_slot w) =
     Inr (Optional_slot (wrapper_optional_construct (map_sum id (map_option reopen) (w_result w))))"
| "internal_adapt pf (Tuple_ty Ts) (Tuple_slot i n ss) =
     andThen (assigner (internal_adapt pf) Ts ss) (\<lambda>ss. Inr (Tuple_slot 0 0 ss))"
| "internal_adapt pf _ _ = Inl Ill_Typed"

text \<open>The object \<open>T{}\<close>, as a program declares its response.\<close>

fun new_slot :: "'d platform \<Rightarrow> result_ty \<Rightarrow> 'd slot" where
  "new_slot pf Ignore_ty = Ignore_slot"
| "new_slot pf Node_ty = Node_slot (Inr (mk_node invalid_t 0 0 []))"
| "new_slot pf Nodes_ty = Nodes_slot (Inr [])"
| "new_slot pf (Result_ty T) = Result_slot (new_wrapper (new_object pf T))"
| "new_slot pf (Optional_ty T) = Optional_slot (new_wrapper None)"
| "new_slot pf (Tuple_ty Ts) = Tuple_slot 0 0 (map (new_slot pf) Ts)"

text \<open>
  \<open>boost_redis_adapt\<close> on a \<^verbatim>\<open>response<Ts...>\<close>: a \<open>static_adapter\<close> over the adapters of its elements.
\<close>

definition adapt_response :: "'d platform \<Rightarrow> result_ty list \<Rightarrow> 'd slot list \<Rightarrow> fault + 'd slot list \<times> 'd slot list any_adapter" where
  "adapt_response pf Ts ss =
     andThen (assigner (internal_adapt pf) Ts ss) (\<lambda>ss.
       Inr (ss, any_static (positions (map (result_adapter pf) Ts))))"

end
