(* ===== verification/Response_Typing.thy ===== *)
theory Response_Typing
  imports Response_Types
begin

text \<open>
  Type soundness of the adapters: on an object of its type an adapter never meets an object of
  another type, and it leaves an object of that type.  In particular integers stay in the range
  of their type, arrays keep their size, and the iterator of a map points into it whenever the
  next element is a value.
\<close>

section \<open>Embeddings\<close>

text \<open>One type among the types of a slot: an injection and the partial function back.\<close>

locale embedding =
  fixes emb :: "'a \<Rightarrow> 'b" and prj :: "'b \<Rightarrow> 'a option"
  assumes prj_emb: "prj (emb a) = Some a" and emb_prj: "prj b = Some a \<Longrightarrow> b = emb a"
begin

lemma lift_emb: "lift_adapter emb prj A (emb a) nd = andThen (A a nd) (\<lambda>(a', ec). Inr (emb a', ec))"
  by (simp add: lift_adapter_def prj_emb)

lemma feed_lift:
  "feed_nodes A a ns = Inr (a', e) \<Longrightarrow> feed_nodes (lift_adapter emb prj A) (emb a) ns = Inr (emb a', e)"
  by (induction ns arbitrary: a) (auto simp: lift_emb split: sum.splits prod.splits option.splits)

end

interpretation int_emb: embedding Int_val as_int
  by unfold_locales (auto elim: as_int.elims)
interpretation bool_emb: embedding Bool_val as_bool
  by unfold_locales (auto elim: as_bool.elims)
interpretation double_emb: embedding Double_val as_double
  by unfold_locales (auto elim: as_double.elims)
interpretation string_emb: embedding String_val as_string
  by unfold_locales (auto elim: as_string.elims)
interpretation plain_emb: embedding Plain_val as_plain
  by unfold_locales (auto elim: as_plain.elims)
interpretation optional_emb: embedding Optional_val as_optional
  by unfold_locales (auto elim: as_optional.elims)
interpretation simple_emb: embedding Simple_obj as_simple
  by unfold_locales (auto elim: as_simple.elims)
interpretation set_emb: embedding Set_obj as_set
  by unfold_locales (auto elim: as_set.elims)
interpretation multiset_emb: embedding Multiset_obj as_multiset
  by unfold_locales (auto elim: as_multiset.elims)
interpretation map_emb: embedding Map_obj as_map
  by unfold_locales (auto elim: as_map.elims)
interpretation multimap_emb: embedding Multimap_obj as_multimap
  by unfold_locales (auto elim: as_multimap.elims)
interpretation vector_emb: embedding Vector_obj as_vector
  by unfold_locales (auto elim: as_vector.elims)
interpretation array_emb: embedding Array_obj as_array
  by unfold_locales (auto elim: as_array.elims)
interpretation list_emb: embedding List_obj as_list
  by unfold_locales (auto elim: as_list.elims)
interpretation node_emb: embedding Node_slot as_node
  by unfold_locales (auto elim: as_node.elims)
interpretation nodes_emb: embedding Nodes_slot as_nodes
  by unfold_locales (auto elim: as_nodes.elims)
interpretation result_emb: embedding Result_slot as_result
  by unfold_locales (auto elim: as_result.elims)
interpretation opt_emb: embedding Optional_slot as_opt
  by unfold_locales (auto elim: as_opt.elims)
interpretation tuple_emb: embedding tuple_slot as_tuple
  by unfold_locales (auto simp: tuple_slot_def elim: as_tuple.elims)

section \<open>Well-typed objects\<close>

definition int_range :: "bool \<Rightarrow> nat \<Rightarrow> int \<Rightarrow> bool" where
  "int_range is_signed w i \<longleftrightarrow>
     (if is_signed then - (2 ^ (w - 1)) \<le> i \<and> i < 2 ^ (w - 1) else 0 \<le> i \<and> i < 2 ^ w)"

text \<open>An object of the embedded type that satisfies \<open>P\<close>.\<close>

definition holds :: "('b \<Rightarrow> 'a option) \<Rightarrow> ('a \<Rightarrow> bool) \<Rightarrow> 'b \<Rightarrow> bool" where
  "holds prj P b \<longleftrightarrow> (case prj b of None \<Rightarrow> False | Some a \<Rightarrow> P a)"

definition optional_ok :: "('a \<Rightarrow> bool) \<Rightarrow> 'a option \<Rightarrow> bool" where
  "optional_ok P v \<longleftrightarrow> (case v of None \<Rightarrow> True | Some x \<Rightarrow> P x)"

definition result_ok :: "('a \<Rightarrow> bool) \<Rightarrow> 'a result \<Rightarrow> bool" where
  "result_ok P r \<longleftrightarrow> (case r of Inl _ \<Rightarrow> True | Inr x \<Rightarrow> P x)"

fun scalar_ok :: "scalar_ty \<Rightarrow> 'd scalar \<Rightarrow> bool" where
  "scalar_ok (Int_ty is_signed w) = holds as_int (int_range is_signed w)"
| "scalar_ok Bool_ty = holds as_bool (\<lambda>_. True)"
| "scalar_ok Double_ty = holds as_double (\<lambda>_. True)"
| "scalar_ok String_ty = holds as_string (\<lambda>_. True)"

fun bulk_ok :: "bulk_ty \<Rightarrow> 'd bulk \<Rightarrow> bool" where
  "bulk_ok (Plain T) = holds as_plain (scalar_ok T)"
| "bulk_ok (Optional T) = holds as_optional (optional_ok (scalar_ok T))"

definition map_ok :: "('k \<Rightarrow> bool) \<Rightarrow> ('v \<Rightarrow> bool) \<Rightarrow> ('k, 'v) map_state \<Rightarrow> bool" where
  "map_ok P Q m \<longleftrightarrow>
     (\<forall>k \<in> dom (contents m). P k) \<and> (\<forall>v \<in> ran (contents m). Q v)
     \<and> (case current m of None \<Rightarrow> on_key m | Some k \<Rightarrow> k \<in> dom (contents m))"

definition multimap_ok :: "('k \<Rightarrow> bool) \<Rightarrow> ('v \<Rightarrow> bool) \<Rightarrow> ('k, 'v) multimap_state \<Rightarrow> bool" where
  "multimap_ok P Q m \<longleftrightarrow>
     (\<forall>(k, v) \<in> set (mm_contents m). P k \<and> Q v)
     \<and> (case mm_current m of None \<Rightarrow> mm_on_key m | Some i \<Rightarrow> i < length (mm_contents m))"

definition array_ok :: "('a \<Rightarrow> bool) \<Rightarrow> nat \<Rightarrow> int \<times> 'a list \<Rightarrow> bool" where
  "array_ok P n a \<longleftrightarrow> length (snd a) = n \<and> list_all P (snd a)"

fun plain_ok :: "object_ty \<Rightarrow> 'd object \<Rightarrow> bool" where
  "plain_ok (Simple_ty b) = holds as_simple (bulk_ok b)"
| "plain_ok (Set_ty b) = holds as_set (\<lambda>S. \<forall>v \<in> S. bulk_ok b v)"
| "plain_ok (Multiset_ty b) = holds as_multiset (\<lambda>S. \<forall>v \<in># S. bulk_ok b v)"
| "plain_ok (Map_ty k v) = holds as_map (map_ok (bulk_ok k) (bulk_ok v))"
| "plain_ok (Multimap_ty k v) = holds as_multimap (multimap_ok (bulk_ok k) (bulk_ok v))"
| "plain_ok (Vector_ty b) = holds as_vector (list_all (bulk_ok b))"
| "plain_ok (Array_ty b n) = holds as_array (array_ok (bulk_ok b) n)"
| "plain_ok (List_ty b) = holds as_list (list_all (bulk_ok b))"

text \<open>The types whose \<open>impl\<close> keeps an iterator.\<close>

fun hinted :: "object_ty \<Rightarrow> bool" where
  "hinted (Set_ty b) \<longleftrightarrow> True"
| "hinted (Multiset_ty b) \<longleftrightarrow> True"
| "hinted (Map_ty k v) \<longleftrightarrow> True"
| "hinted (Multimap_ty k v) \<longleftrightarrow> True"
| "hinted _ \<longleftrightarrow> False"

definition object_ok :: "object_ty \<Rightarrow> 'd object \<Rightarrow> bool" where
  "object_ok T x \<longleftrightarrow> (case x of Stale_obj y \<Rightarrow> hinted T \<and> plain_ok T y | _ \<Rightarrow> plain_ok T x)"

fun slot_ok :: "result_ty \<Rightarrow> 'd slot \<Rightarrow> bool" where
  "slot_ok Ignore_ty s \<longleftrightarrow> s = Ignore_slot"
| "slot_ok Node_ty s \<longleftrightarrow> holds as_node (\<lambda>_. True) s"
| "slot_ok Nodes_ty s \<longleftrightarrow> holds as_nodes (\<lambda>_. True) s"
| "slot_ok (Result_ty T) s \<longleftrightarrow> holds as_result (\<lambda>w. result_ok (object_ok T) (w_result w)) s"
| "slot_ok (Optional_ty T) s \<longleftrightarrow> holds as_opt (\<lambda>w. result_ok (optional_ok (object_ok T)) (w_result w)) s"
| "slot_ok (Tuple_ty Ts) s \<longleftrightarrow> holds as_tuple (\<lambda>a. list_all2 slot_ok Ts (sa_elements a)) s"

section \<open>Soundness\<close>

text \<open>
  \<open>safe P x\<close>: an outcome that is no type error and whose object, if any, satisfies \<open>P\<close>.
  \<open>sound P A\<close>: the code \<open>A\<close> is safe on the objects that satisfy \<open>P\<close>.
\<close>

definition safe :: "('s \<Rightarrow> bool) \<Rightarrow> fault + 's \<times> error_code option \<Rightarrow> bool" where
  "safe P x \<longleftrightarrow> (case x of Inl f \<Rightarrow> f \<noteq> Ill_Typed | Inr (s, _) \<Rightarrow> P s)"

definition sound :: "('s \<Rightarrow> bool) \<Rightarrow> 's adapter \<Rightarrow> bool" where
  "sound P A \<longleftrightarrow> (\<forall>s nd. P s \<longrightarrow> safe P (A s nd))"

lemma safe_simps [simp]: "safe P (Inr (s, e)) \<longleftrightarrow> P s" "safe P (Inl f) \<longleftrightarrow> f \<noteq> Ill_Typed"
  by (simp_all add: safe_def)

lemma soundI: "(\<And>s nd. P s \<Longrightarrow> safe P (A s nd)) \<Longrightarrow> sound P A"
  by (simp add: sound_def)

lemma soundD: "sound P A \<Longrightarrow> P s \<Longrightarrow> safe P (A s nd)"
  by (simp add: sound_def)

lemma sound_andThen:
  assumes "sound P A" and "P s" and "\<And>s' e. P s' \<Longrightarrow> safe Q (f (s', e))"
  shows "safe Q (andThen (A s nd) f)"
  using soundD [OF assms(1,2), of nd] assms(3) by (cases "A s nd") auto

context embedding
begin

lemma sound_lift:
  assumes "sound P A"
  shows "sound (holds prj P) (lift_adapter emb prj A)"
proof (rule soundI)
  fix b nd assume "holds prj P b"
  then obtain a where a: "b = emb a" "P a" by (auto simp: holds_def dest: emb_prj split: option.splits)
  show "safe (holds prj P) (lift_adapter emb prj A b nd)"
    unfolding a(1) lift_emb by (rule sound_andThen [OF assms a(2)]) (simp add: holds_def prj_emb)
qed

end

lemma sound_convert_integral: "sound (int_range is_signed w) (convert_integral is_signed w)"
  by (rule soundI)
    (auto simp: convert_integral_def from_chars_int_def int_range_def Let_def split: option.splits if_splits)

lemma sound_convert_bool: "sound (\<lambda>_. True) convert_bool"
  by (rule soundI) (simp add: convert_bool_def split: list.split)

lemma sound_convert_double: "sound (\<lambda>_. True) (convert_double f)"
  by (rule soundI) (simp add: convert_double_def split: option.split)

lemma sound_convert_string: "sound (\<lambda>_. True) convert_string"
  by (rule soundI) (simp add: convert_string_def)

lemma sound_converter: "sound (scalar_ok T) (converter pf T)"
  by (cases T) (simp_all add: int_emb.sound_lift sound_convert_integral bool_emb.sound_lift sound_convert_bool
      double_emb.sound_lift sound_convert_double string_emb.sound_lift sound_convert_string)

lemma new_scalar_ok: "scalar_ok T (new_scalar pf T)"
  by (cases T) (simp_all add: holds_def int_range_def)

lemma new_bulk_ok: "bulk_ok b (new_bulk pf b)"
  by (cases b) (simp_all add: holds_def new_scalar_ok optional_ok_def)

lemma sound_from_bulk_optional:
  assumes "sound P conv" and "P init"
  shows "sound (optional_ok P) (from_bulk_optional init conv)"
proof (rule soundI)
  fix v nd assume "optional_ok P v"
  moreover have "safe (optional_ok P) (andThen (conv init nd) (\<lambda>(v, ec). Inr (Some v, ec)))"
    by (rule sound_andThen [OF assms]) (simp add: optional_ok_def)
  ultimately show "safe (optional_ok P) (from_bulk_optional init conv v nd)" by (simp add: from_bulk_optional_def)
qed

lemma sound_from_bulk: "sound (bulk_ok b) (from_bulk_impl pf b)"
  by (cases b) (simp_all add: plain_emb.sound_lift sound_converter optional_emb.sound_lift
      sound_from_bulk_optional new_scalar_ok)

text \<open>The containers, over any conversion that is sound for its elements.\<close>

lemma sound_simple_impl: "sound P conv \<Longrightarrow> sound P (simple_impl conv)"
  by (simp add: sound_def simple_impl_def)

lemma sound_set_impl:
  assumes "sound P conv" and "P obj" and "\<And>v r. P v \<Longrightarrow> Q r \<Longrightarrow> Q (ins v r)"
  shows "sound Q (set_impl ins obj conv)"
proof (rule soundI)
  fix r nd assume "Q r"
  then have "safe Q (andThen (conv obj nd) (\<lambda>(v, ec). Inr (ins v r, ec)))"
    by (intro sound_andThen [OF assms(1,2)]) (simp add: assms(3))
  with \<open>Q r\<close> show "safe Q (set_impl ins obj conv r nd)" by (simp add: set_impl_def)
qed

lemma sound_push_back:
  "sound P conv \<Longrightarrow> P init \<Longrightarrow> list_all P r \<Longrightarrow>
     safe (list_all P) (andThen (conv init nd) (\<lambda>(v, ec). Inr (r @ [v], ec)))"
  by (rule sound_andThen) simp_all

lemma sound_vector_impl: "sound P conv \<Longrightarrow> P init \<Longrightarrow> sound (list_all P) (vector_impl mx init conv)"
  by (rule soundI) (simp add: vector_impl_def sound_push_back)

lemma sound_list_impl: "sound P conv \<Longrightarrow> P init \<Longrightarrow> sound (list_all P) (list_impl init conv)"
  by (rule soundI) (simp add: list_impl_def sound_push_back)

lemma sound_array_impl:
  assumes "sound P conv"
  shows "sound (array_ok P n) (array_impl conv)"
proof (rule soundI)
  fix a nd assume a: "array_ok P n a"
  obtain i r where ir: "a = (i, r)" by (cases a)
  have "safe (array_ok P n) (andThen (conv (r ! nat i) nd) (\<lambda>(v, ec). Inr ((i + 1, r[nat i := v]), ec)))"
    if "nat i < length r"
    by (rule sound_andThen [OF assms])
      (use a that in \<open>auto simp: array_ok_def ir list_all_length nth_list_update\<close>)
  with a show "safe (array_ok P n) (array_impl conv a nd)" by (simp add: ir array_impl_def array_ok_def)
qed

lemma sound_map_impl:
  assumes "sound P conv_k" and "sound Q conv_v" and "P k0" and "Q v0"
  shows "sound (map_ok P Q) (map_impl k0 v0 conv_k conv_v)"
proof (rule soundI)
  fix st nd assume st: "map_ok P Q st"
  have key: "safe (map_ok P Q) (andThen (conv_k k0 nd) (\<lambda>(k, ec).
      Inr (st\<lparr>current := Some k, on_key := False,
        contents := (if contents st k = None then (contents st)(k \<mapsto> v0) else contents st)\<rparr>, ec)))"
    by (rule sound_andThen [OF assms(1,3)])
      (use st assms(4) in \<open>auto simp: map_ok_def ran_def split: option.splits\<close>)
  have val: "safe (map_ok P Q) (andThen (conv_v v0 nd) (\<lambda>(v, ec).
      Inr (st\<lparr>on_key := True, contents := (contents st)(k \<mapsto> v)\<rparr>, ec)))" if "current st = Some k" for k
    by (rule sound_andThen [OF assms(2,4)])
      (use st that in \<open>auto simp: map_ok_def ran_def split: option.splits\<close>)
  from st key val show "safe (map_ok P Q) (map_impl k0 v0 conv_k conv_v st nd)"
    by (simp add: map_impl_def split: option.split)
qed

lemma sound_multimap_impl:
  assumes "sound P conv_k" and "sound Q conv_v" and "P k0" and "Q v0"
  shows "sound (multimap_ok P Q) (multimap_impl k0 v0 conv_k conv_v)"
proof (rule soundI)
  fix st nd assume st: "multimap_ok P Q st"
  have key: "safe (multimap_ok P Q) (andThen (conv_k k0 nd) (\<lambda>(k, ec).
      Inr (st\<lparr>mm_current := Some (length (mm_contents st)), mm_on_key := False,
        mm_contents := mm_contents st @ [(k, v0)]\<rparr>, ec)))"
    by (rule sound_andThen [OF assms(1,3)]) (use st assms(4) in \<open>auto simp: multimap_ok_def\<close>)
  have val: "safe (multimap_ok P Q) (andThen (conv_v v0 nd) (\<lambda>(v, ec).
      Inr (st\<lparr>mm_on_key := True, mm_contents := (mm_contents st)[i := (fst (mm_contents st ! i), v)]\<rparr>, ec)))"
    if "mm_current st = Some i" for i
  proof (rule sound_andThen [OF assms(2,4)])
    fix v e assume v: "Q v"
    have i: "i < length (mm_contents st)" using st that by (simp add: multimap_ok_def)
    then have "P (fst (mm_contents st ! i))" using st nth_mem [OF i] by (auto simp: multimap_ok_def case_prod_beta)
    with st v i that show "safe (multimap_ok P Q) (case (v, e) of (v, ec) \<Rightarrow>
        Inr (st\<lparr>mm_on_key := True, mm_contents := (mm_contents st)[i := (fst (mm_contents st ! i), v)]\<rparr>, ec))"
      using set_update_subset_insert [of "mm_contents st" i "(fst (mm_contents st ! i), v)"]
      by (auto simp: multimap_ok_def)
  qed
  from st key val show "safe (multimap_ok P Q) (multimap_impl k0 v0 conv_k conv_v st nd)"
    by (simp add: multimap_impl_def split: option.split)
qed

lemma sound_insert: "sound (\<lambda>S. \<forall>v \<in> S. bulk_ok b v) (set_impl insert (new_bulk pf b) (from_bulk_impl pf b))"
  by (rule sound_set_impl [OF sound_from_bulk new_bulk_ok]) simp

lemma sound_add_mset: "sound (\<lambda>S. \<forall>v \<in># S. bulk_ok b v) (set_impl add_mset (new_bulk pf b) (from_bulk_impl pf b))"
  by (rule sound_set_impl [OF sound_from_bulk new_bulk_ok]) simp

lemma sound_impl_map: "sound (plain_ok T) (impl_map pf T)"
  by (cases T) (simp_all only: impl_map.simps plain_ok.simps
      simple_emb.sound_lift [OF sound_simple_impl [OF sound_from_bulk]]
      set_emb.sound_lift [OF sound_insert] multiset_emb.sound_lift [OF sound_add_mset]
      map_emb.sound_lift [OF sound_map_impl [OF sound_from_bulk sound_from_bulk new_bulk_ok new_bulk_ok]]
      multimap_emb.sound_lift [OF sound_multimap_impl [OF sound_from_bulk sound_from_bulk new_bulk_ok new_bulk_ok]]
      vector_emb.sound_lift [OF sound_vector_impl [OF sound_from_bulk new_bulk_ok]]
      array_emb.sound_lift [OF sound_array_impl [OF sound_from_bulk]]
      list_emb.sound_lift [OF sound_list_impl [OF sound_from_bulk new_bulk_ok]])

lemma plain_not_stale: "\<not> plain_ok T (Stale_obj x)"
  by (cases T) (simp_all add: holds_def)

lemma plain_object_ok: "plain_ok T x \<Longrightarrow> object_ok T x"
  by (cases x) (simp_all add: object_ok_def plain_not_stale)

lemma new_object_ok: "plain_ok T (new_object pf T)"
  by (cases T) (simp_all add: holds_def new_bulk_ok map_ok_def new_map_state_def multimap_ok_def
      new_multimap_state_def array_ok_def list_all_iff)

lemma sound_object_call: "sound (object_ok T) (object_call (pf :: 'a platform) T)"
proof (rule soundI)
  fix x :: "'a object" and nd assume x: "object_ok T x"
  show "safe (object_ok T) (object_call pf T x nd)"
  proof (cases "\<exists>y. x = Stale_obj y")
    case True
    then obtain y where y: "x = Stale_obj y" by blast
    with x have "plain_ok T y" "hinted T" by (simp_all add: object_ok_def)
    then have "safe (object_ok T) (andThen (impl_map pf T y nd) (\<lambda>(y', ec).
        if is_aggregate (data_type nd) \<or> depth nd < 1 then Inr (Stale_obj y', ec) else Inl Out_Of_Bounds))"
      by (intro sound_andThen [OF sound_impl_map]) (simp_all add: object_ok_def)
    then show ?thesis by (simp add: y object_call_def)
  next
    case False
    with x have "plain_ok T x" by (cases x) (auto simp: object_ok_def)
    from soundD [OF sound_impl_map this, of pf nd] have "safe (object_ok T) (impl_map pf T x nd)"
      by (cases "impl_map pf T x nd") (auto intro: plain_object_ok)
    with False show ?thesis by (cases x) (auto simp: object_call_def)
  qed
qed

lemma sound_wrapper:
  assumes "sound (P :: 'a \<Rightarrow> bool) impl"
  shows "sound (\<lambda>w. result_ok P (w_result w)) (wrapper_call impl)"
proof (rule soundI)
  fix w :: "'a wrapper" and nd assume w: "result_ok P (w_result w)"
  have "safe (\<lambda>w. result_ok P (w_result w)) (andThen (impl v nd) (\<lambda>(v', ec).
      Inr (w\<lparr>w_result := Inr v', w_called_once := True\<rparr>, ec)))" if "P v" for v
    by (rule sound_andThen [OF assms that]) (simp add: result_ok_def)
  with w show "safe (\<lambda>w. result_ok P (w_result w)) (wrapper_call impl w nd)"
    by (cases "w_result w") (simp_all add: wrapper_call_def result_ok_def)
qed

lemma sound_wrapper_optional:
  assumes "sound (P :: 'a \<Rightarrow> bool) impl" and "P v0"
  shows "sound (\<lambda>w. result_ok (optional_ok P) (w_result w)) (wrapper_optional_call v0 impl)"
proof (rule soundI)
  fix w :: "'a option wrapper" and nd assume w: "result_ok (optional_ok P) (w_result w)"
  have "safe (\<lambda>w. result_ok (optional_ok P) (w_result w)) (andThen (impl v nd) (\<lambda>(v', ec).
      Inr (w\<lparr>w_result := Inr (Some v'), w_called_once := True\<rparr>, ec)))" if "P v" for v
    by (rule sound_andThen [OF assms(1) that]) (simp add: result_ok_def optional_ok_def)
  with w assms(2) show "safe (\<lambda>w. result_ok (optional_ok P) (w_result w)) (wrapper_optional_call v0 impl w nd)"
    by (cases "w_result w") (auto simp: wrapper_optional_call_def result_ok_def optional_ok_def split: option.splits)
qed

lemma positions_nth: "i < length As \<Longrightarrow> positions As ! i = at_position i (As ! i)"
  by (simp add: positions_def nth_enumerate_eq)

lemma length_positions [simp]: "length (positions As) = length As"
  by (simp add: positions_def)

lemma sound_tuple:
  assumes "\<And>T. T \<in> set Ts \<Longrightarrow> sound (slot_ok T) (result_adapter (pf :: 'a platform) T)"
  shows "sound (\<lambda>a. list_all2 slot_ok Ts (sa_elements a))
    (static_aggregate_adapter (positions (map (result_adapter pf) Ts)))"
proof (rule soundI)
  fix a :: "'a slot list static_aggregate" and nd assume a: "list_all2 slot_ok Ts (sa_elements a)"
  let ?As = "positions (map (result_adapter pf) Ts)" and ?i = "unat (sa_i a)"
  let ?Q = "\<lambda>a. list_all2 slot_ok Ts (sa_elements a)"
  have count: "sa_elements (static_aggregate_count b nd) = sa_elements b" for b :: "'a slot list static_aggregate"
    by (simp add: static_aggregate_count_def Let_def)
  have "safe ?Q (andThen ((?As ! ?i) (sa_elements a) nd) (\<lambda>(s, ec).
      Inr (static_aggregate_count (a\<lparr>sa_elements := s\<rparr>) nd, ec)))" if i: "?i < length Ts"
  proof (rule sound_andThen)
    show "sound (list_all2 slot_ok Ts) (?As ! ?i)"
    proof (rule soundI)
      fix ss :: "'a slot list" and nd' assume ss: "list_all2 slot_ok Ts ss"
      then have len: "?i < length ss" and ok: "slot_ok (Ts ! ?i) (ss ! ?i)"
        using i by (simp_all add: list_all2_conv_all_nth)
      have "safe (list_all2 slot_ok Ts) (andThen (result_adapter pf (Ts ! ?i) (ss ! ?i) nd') (\<lambda>(s, ec). Inr (ss[?i := s], ec)))"
        by (rule sound_andThen [OF assms ok]) (use i ss in \<open>auto simp: list_all2_conv_all_nth nth_list_update\<close>)
      with i len show "safe (list_all2 slot_ok Ts) ((?As ! ?i) ss nd')"
        by (simp add: positions_nth at_position_def)
    qed
  qed (simp_all add: a count)
  with a show "safe ?Q (static_aggregate_adapter ?As a nd)" by (simp add: static_aggregate_adapter_def)
qed

lemma sound_result_adapter: "sound (slot_ok T) (result_adapter pf T)"
proof (induction T)
  case Ignore_ty
  show ?case by (rule soundI) (simp add: ignore_def)
next
  case Node_ty
  have "sound (\<lambda>_. True) general_simple" by (rule soundI) (simp add: general_simple_def split: sum.split)
  then show ?case by (simp add: node_emb.sound_lift)
next
  case Nodes_ty
  have "sound (\<lambda>_. True) general_aggregate" by (rule soundI) (simp add: general_aggregate_def split: sum.split)
  then show ?case by (simp add: nodes_emb.sound_lift)
next
  case (Result_ty T)
  show ?case by (simp add: result_emb.sound_lift sound_wrapper sound_object_call)
next
  case (Optional_ty T)
  show ?case
    by (simp add: opt_emb.sound_lift sound_wrapper_optional sound_object_call plain_object_ok new_object_ok)
next
  case (Tuple_ty Ts)
  then show ?case by (simp add: tuple_emb.sound_lift sound_tuple)
qed

lemma sound_feed: "sound P A \<Longrightarrow> P s \<Longrightarrow> safe P (feed_nodes A s ns)"
proof (induction ns arbitrary: s)
  case (Cons nd ns)
  from soundD [OF Cons.prems, of nd] Cons.IH [OF Cons.prems(1)] show ?case
    by (cases "A s nd") (auto split: option.split)
qed simp

section \<open>Constructing the adapters\<close>

lemma reopen_ok: "object_ok T x \<Longrightarrow> object_ok T (reopen x)"
  by (cases x; cases T)
    (auto simp: object_ok_def holds_def map_ok_def multimap_ok_def array_ok_def split: option.splits)

lemma assigner_ok:
  assumes "list_all2 P xs ys"
    and "\<And>x y. x \<in> set xs \<Longrightarrow> P x y \<Longrightarrow> f x y = Inl Bad_Value_Access \<or> (\<exists>z. f x y = Inr z \<and> P x z)"
  shows "assigner f xs ys = Inl Bad_Value_Access \<or> (\<exists>zs. assigner f xs ys = Inr zs \<and> list_all2 P xs zs)"
  using assms
proof (induction xs ys rule: list_all2_induct)
  case (Cons x xs y ys)
  then have "assigner f xs ys = Inl Bad_Value_Access \<or> (\<exists>zs. assigner f xs ys = Inr zs \<and> list_all2 P xs zs)"
    by auto
  moreover have "f x y = Inl Bad_Value_Access \<or> (\<exists>z. f x y = Inr z \<and> P x z)" using Cons by auto
  ultimately show ?case by auto
qed simp

lemma internal_adapt_ok:
  "slot_ok T s \<Longrightarrow> internal_adapt pf T s = Inl Bad_Value_Access \<or> (\<exists>s'. internal_adapt pf T s = Inr s' \<and> slot_ok T s')"
proof (induction T arbitrary: s)
  case (Result_ty T)
  then show ?case
    by (cases s) (auto simp: holds_def wrapper_construct_def result_ok_def new_wrapper_def
        plain_object_ok new_object_ok split: sum.split)
next
  case (Optional_ty T)
  then show ?case
    by (cases s) (auto simp: holds_def wrapper_optional_construct_def result_ok_def optional_ok_def
        reopen_ok split: sum.splits option.splits)
next
  case (Tuple_ty Ts)
  then obtain i n ss where s: "s = Tuple_slot i n ss" "list_all2 slot_ok Ts ss"
    by (cases s) (auto simp: holds_def)
  from assigner_ok [OF s(2), of "internal_adapt pf"] Tuple_ty.IH show ?case by (auto simp: s(1) holds_def)
next
  case Node_ty
  then show ?case by (cases s) (simp_all add: holds_def)
next
  case Nodes_ty
  then show ?case by (cases s) (simp_all add: holds_def)
qed simp

lemma new_slot_ok: "slot_ok T (new_slot pf T)"
  by (induction T) (auto simp: holds_def new_wrapper_def result_ok_def plain_object_ok new_object_ok optional_ok_def
      list_all2_map2 intro!: list.rel_refl_strong)

section \<open>Properties\<close>


text \<open>A platform for the examples: one without floating point numbers.\<close>

definition plain_platform :: "unit platform" where
  "plain_platform = \<lparr>from_chars_double = (\<lambda>_. None), zero_double = (), vector_max_size = (\<lambda>_. - 1)\<rparr>"

definition bytes_ty :: result_ty where
  "bytes_ty = Result_ty (Array_ty (Plain (Int_ty False 8)) 2)"


end
