(* ===== verification/Response_Decoding.thy ===== *)
theory Response_Decoding
  imports Response_Typing
begin

text \<open>
  What a reply means for a response type, as a function on the tree of the message, and the proof
  that the adapters, which see the nodes of the tree one at a time, compute the same value.
\<close>

section \<open>The value of a reply\<close>

text \<open>The value a program reads from its response object; the members of \<open>impl\<close> are left out.\<close>

datatype 'd reply =
    Ignored_reply
  | Node_reply node
  | Nodes_reply "node list"
  | Null_reply
  | Bulk_reply "'d bulk"
  | Set_reply "'d bulk set"
  | Multiset_reply "'d bulk multiset"
  | Map_reply "'d bulk \<rightharpoonup> 'd bulk"
  | Multimap_reply "('d bulk \<times> 'd bulk) list"
  | Sequence_reply "'d bulk list"
  | Tuple_reply "'d reply list"

fun object_value :: "'d object \<Rightarrow> 'd reply" where
  "object_value (Simple_obj v) = Bulk_reply v"
| "object_value (Set_obj S) = Set_reply S"
| "object_value (Multiset_obj S) = Multiset_reply S"
| "object_value (Map_obj m) = Map_reply (contents m)"
| "object_value (Multimap_obj m) = Multimap_reply (mm_contents m)"
| "object_value (Vector_obj vs) = Sequence_reply vs"
| "object_value (Array_obj a) = Sequence_reply (snd a)"
| "object_value (List_obj vs) = Sequence_reply vs"
| "object_value (Stale_obj x) = object_value x"

text \<open>The value of the result, if it does not hold an error.\<close>

fun slot_value :: "'d slot \<Rightarrow> 'd reply option" where
  "slot_value Ignore_slot = Some Ignored_reply"
| "slot_value (Node_slot r) = (case r of Inl _ \<Rightarrow> None | Inr nd \<Rightarrow> Some (Node_reply nd))"
| "slot_value (Nodes_slot r) = (case r of Inl _ \<Rightarrow> None | Inr ns \<Rightarrow> Some (Nodes_reply ns))"
| "slot_value (Result_slot w) = (case w_result w of Inl _ \<Rightarrow> None | Inr x \<Rightarrow> Some (object_value x))"
| "slot_value (Optional_slot w) =
     (case w_result w of
        Inl _ \<Rightarrow> None
      | Inr None \<Rightarrow> Some Null_reply
      | Inr (Some x) \<Rightarrow> Some (object_value x))"
| "slot_value (Tuple_slot i n ss) = map_option Tuple_reply (those (map slot_value ss))"

section \<open>Decoding the tree of a message\<close>

fun leaf :: "resp \<Rightarrow> (resp3_type \<times> string) option" where
  "leaf (Simple t s) = Some (t, s)"
| "leaf (Bulk t s) = Some (t, s)"
| "leaf _ = None"

definition is_null :: "resp \<Rightarrow> bool" where
  "is_null m \<longleftrightarrow> map_option fst (leaf m) = Some null_t"

fun decode_scalar :: "'d platform \<Rightarrow> scalar_ty \<Rightarrow> string \<Rightarrow> 'd scalar option" where
  "decode_scalar pf (Int_ty is_signed w) s = map_option Int_val (from_chars_int is_signed w s)"
| "decode_scalar pf Bool_ty s = (case s of [] \<Rightarrow> None | c # _ \<Rightarrow> Some (Bool_val (c = CHR ''t'')))"
| "decode_scalar pf Double_ty s = map_option Double_val (from_chars_double pf s)"
| "decode_scalar pf String_ty s = Some (String_val s)"

fun decode_bulk :: "'d platform \<Rightarrow> bulk_ty \<Rightarrow> resp \<Rightarrow> 'd bulk option" where
  "decode_bulk pf (Plain T) m =
     (case leaf m of
        None \<Rightarrow> None
      | Some (t, s) \<Rightarrow>
          if t \<in> {null_t, simple_error_t, blob_error_t} then None
          else map_option Plain_val (decode_scalar pf T s))"
| "decode_bulk pf (Optional T) m =
     (case leaf m of
        None \<Rightarrow> None
      | Some (t, s) \<Rightarrow>
          if t \<in> {simple_error_t, blob_error_t} then None
          else if t = null_t then Some (Optional_val None)
          else map_option (\<lambda>v. Optional_val (Some v)) (decode_scalar pf T s))"

definition decode_bulks :: "'d platform \<Rightarrow> bulk_ty \<Rightarrow> resp list \<Rightarrow> 'd bulk list option" where
  "decode_bulks pf b ms = those (map (decode_bulk pf b) ms)"

fun decode_pairs :: "'d platform \<Rightarrow> bulk_ty \<Rightarrow> bulk_ty \<Rightarrow> resp list \<Rightarrow> ('d bulk \<times> 'd bulk) list option" where
  "decode_pairs pf k v [] = Some []"
| "decode_pairs pf k v (x # y # ms) =
     (case (decode_bulk pf k x, decode_bulk pf v y, decode_pairs pf k v ms) of
        (Some a, Some b, Some kvs) \<Rightarrow> Some ((a, b) # kvs)
      | _ \<Rightarrow> None)"
| "decode_pairs pf k v [x] = None"

fun decode_object :: "'d platform \<Rightarrow> object_ty \<Rightarrow> resp \<Rightarrow> 'd reply option" where
  "decode_object pf (Set_ty b) (Aggr t ms) =
     (if t = set_t then map_option (\<lambda>vs. Set_reply (set vs)) (decode_bulks pf b ms) else None)"
| "decode_object pf (Multiset_ty b) (Aggr t ms) =
     (if t = set_t then map_option (\<lambda>vs. Multiset_reply (mset vs)) (decode_bulks pf b ms) else None)"
| "decode_object pf (Map_ty k v) (Aggr t ms) =
     (if multiplicity t = 2 then map_option (\<lambda>kvs. Map_reply (map_of (rev kvs))) (decode_pairs pf k v ms) else None)"
| "decode_object pf (Multimap_ty k v) (Aggr t ms) =
     (if multiplicity t = 2 then map_option Multimap_reply (decode_pairs pf k v ms) else None)"
| "decode_object pf (Vector_ty b) (Aggr t ms) =
     (if of_nat (length ms) \<le> vector_max_size pf b then map_option Sequence_reply (decode_bulks pf b ms) else None)"
| "decode_object pf (Array_ty b n) (Aggr t ms) =
     (if length ms = n then map_option Sequence_reply (decode_bulks pf b ms) else None)"
| "decode_object pf (List_ty b) (Aggr t ms) = map_option Sequence_reply (decode_bulks pf b ms)"
| "decode_object pf (Simple_ty b) (Streamed ps) =
     (if b = Plain String_ty then Some (Bulk_reply (Plain_val (String_val (concat ps)))) else None)"
| "decode_object pf (Simple_ty b) m = map_option Bulk_reply (decode_bulk pf b m)"
| "decode_object pf _ _ = None"

text \<open>
  The value of a message at nesting depth \<open>d\<close>.  A tuple takes a whole reply, and its elements are
  simple values or aggregates of simple values.
\<close>

fun decode_result :: "'d platform \<Rightarrow> nat \<Rightarrow> result_ty \<Rightarrow> resp \<Rightarrow> 'd reply option"
  and decode_results :: "'d platform \<Rightarrow> result_ty list \<Rightarrow> resp list \<Rightarrow> 'd reply list option" where
  "decode_result pf d Ignore_ty m =
     (if list_all (\<lambda>nd. data_type nd \<notin> {null_t, simple_error_t, blob_error_t}) (nodes d m)
      then Some Ignored_reply else None)"
| "decode_result pf d Node_ty m =
     (case leaf m of
        None \<Rightarrow> None
      | Some (t, s) \<Rightarrow> if t \<in> {simple_error_t, blob_error_t} then None else Some (Node_reply (mk_node t 1 d s)))"
| "decode_result pf d Nodes_ty m =
     (if list_all (\<lambda>nd. data_type nd \<notin> {blob_error_t, simple_error_t}) (nodes d m)
      then Some (Nodes_reply (nodes d m)) else None)"
| "decode_result pf d (Result_ty T) m =
     (if is_null m then None else decode_object pf T m)"
| "decode_result pf d (Optional_ty T) m =
     (if is_null m then Some Null_reply else decode_object pf T m)"
| "decode_result pf d (Tuple_ty Ts) m =
     (case m of
        Aggr t ms \<Rightarrow> if d = 0 \<and> list_all is_flat ms then map_option Tuple_reply (decode_results pf Ts ms) else None
      | _ \<Rightarrow> None)"
| "decode_results pf [] [] = Some []"
| "decode_results pf (T # Ts) (m # ms) =
     (case decode_result pf 1 T m of
        None \<Rightarrow> None
      | Some r \<Rightarrow> map_option (Cons r) (decode_results pf Ts ms))"
| "decode_results pf _ _ = None"

section \<open>Elements of containers\<close>

text \<open>A node that holds the value \<open>v\<close> of type \<open>b\<close>.\<close>

definition reads :: "'d platform \<Rightarrow> bulk_ty \<Rightarrow> nat \<Rightarrow> node \<Rightarrow> 'd bulk \<Rightarrow> bool" where
  "reads pf b d nd v \<longleftrightarrow>
     \<not> is_aggregate (data_type nd) \<and> data_type nd \<notin> {simple_error_t, blob_error_t}
     \<and> aggregate_size nd = 1 \<and> depth nd = d \<and> from_bulk_impl pf b (new_bulk pf b) nd = Inr (v, None)"

lemma leaf_node:
  assumes "leaf m = Some (t, s)" and "wf_resp d' m"
  shows "nodes d m = [mk_node t 1 d s]" and "\<not> is_aggregate t"
  using assms by (cases m; auto simp: simple_ok_def)+

lemma converter_decode:
  "decode_scalar pf T s = Some v \<Longrightarrow> converter pf T (new_scalar pf T) (mk_node t n d s) = Inr (v, None)"
  by (cases T) (auto simp: int_emb.lift_emb convert_integral_def bool_emb.lift_emb convert_bool_def
      double_emb.lift_emb convert_double_def string_emb.lift_emb convert_string_def split: list.splits)

lemma decode_bulk_reads:
  assumes "decode_bulk pf b m = Some v" and "wf_resp d' m"
  obtains nd where "nodes d m = [nd]" and "reads pf b d nd v" and "data_type nd = null_t \<Longrightarrow> is_null m"
proof -
  from assms(1) obtain t s where l: "leaf m = Some (t, s)" by (cases b) (auto split: option.splits)
  note node = leaf_node [OF this assms(2)]
  show thesis
  proof (rule that [of "mk_node t 1 d s"])
    show "reads pf b d (mk_node t 1 d s) v"
      using assms(1) l node(2) converter_decode [of pf _ s _ t 1 d]
      by (cases b) (auto simp: reads_def plain_emb.lift_emb optional_emb.lift_emb from_bulk_optional_def split: if_splits)
  qed (simp_all add: node l is_null_def)
qed

lemma decode_bulks_Cons:
  "decode_bulks pf b (m # ms) = Some vs \<longleftrightarrow>
     (\<exists>w ws. vs = w # ws \<and> decode_bulk pf b m = Some w \<and> decode_bulks pf b ms = Some ws)"
  by (auto simp: decode_bulks_def split: option.splits)

lemma decode_bulks_Nil [simp]: "decode_bulks pf b [] = Some vs \<longleftrightarrow> vs = []"
  by (auto simp: decode_bulks_def)

lemma feed_bulks:
  assumes "decode_bulks pf b ms = Some vs" and "list_all (wf_resp d') ms"
    and "\<And>r nd v. reads pf b d nd v \<Longrightarrow> A r nd = Inr (ins v r, None)"
  shows "feed_nodes A r (concat (map (nodes d) ms)) = Inr (fold ins vs r, None)"
  using assms(1,2)
proof (induction ms arbitrary: vs r)
  case (Cons m ms)
  then obtain w ws where vs: "vs = w # ws" "decode_bulk pf b m = Some w" "decode_bulks pf b ms = Some ws"
    by (auto simp: decode_bulks_Cons)
  obtain nd where "nodes d m = [nd]" "reads pf b d nd w"
    using Cons.prems(2) by (auto elim: decode_bulk_reads [OF vs(2)])
  with assms(3) Cons.IH [OF vs(3)] Cons.prems(2) show ?case by (simp add: vs(1))
qed simp

lemma length_decode_bulks: "decode_bulks pf b ms = Some vs \<Longrightarrow> length vs = length ms"
  by (induction ms arbitrary: vs) (auto simp: decode_bulks_Cons)

lemma feed_array_bulks:
  assumes "decode_bulks pf b ms = Some vs" and "list_all (wf_resp d') ms"
  shows "feed_nodes (array_impl (from_bulk_impl pf b)) (int (length us), us @ replicate (length ms) (new_bulk pf b))
      (concat (map (nodes d) ms)) = Inr ((int (length us + length ms), us @ vs), None)"
  using assms
proof (induction ms arbitrary: us vs)
  case (Cons m ms)
  then obtain w ws where vs: "vs = w # ws" "decode_bulk pf b m = Some w" "decode_bulks pf b ms = Some ws"
    by (auto simp: decode_bulks_Cons)
  obtain nd where nd: "nodes d m = [nd]" "reads pf b d nd w"
    using Cons.prems(2) by (auto elim: decode_bulk_reads [OF vs(2)])
  have "array_impl (from_bulk_impl pf b) (int (length us), us @ replicate (length (m # ms)) (new_bulk pf b)) nd =
      Inr ((int (length (us @ [w])), (us @ [w]) @ replicate (length ms) (new_bulk pf b)), None)"
    using nd(2) by (simp add: reads_def array_impl_def nth_append list_update_append)
  with Cons.IH [OF vs(3), of "us @ [w]"] Cons.prems(2) show ?case by (simp add: nd(1) vs(1))
qed simp

lemma feed_map_bulks:
  assumes "decode_pairs pf k v ms = Some kvs" and "list_all (wf_resp d') ms" and "on_key st" and "1 \<le> d"
  shows "\<exists>st'. feed_nodes (map_impl (new_bulk pf k) (new_bulk pf v) (from_bulk_impl pf k) (from_bulk_impl pf v))
      st (concat (map (nodes d) ms)) = Inr (st', None) \<and> on_key st' \<and> contents st' = contents st ++ map_of (rev kvs)"
  using assms(1-3)
proof (induction pf k v ms arbitrary: kvs st rule: decode_pairs.induct)
  case (2 pf k v x y ms)
  then obtain a b kvs' where kvs: "decode_bulk pf k x = Some a" "decode_bulk pf v y = Some b"
      "decode_pairs pf k v ms = Some kvs'" "kvs = (a, b) # kvs'"
    by (auto split: option.splits)
  obtain nx where nx: "nodes d x = [nx]" "reads pf k d nx a"
    using 2(3) by (auto elim: decode_bulk_reads [OF kvs(1)])
  obtain ny where ny: "nodes d y = [ny]" "reads pf v d ny b"
    using 2(3) by (auto elim: decode_bulk_reads [OF kvs(2)])
  let ?A = "map_impl (new_bulk pf k) (new_bulk pf v) (from_bulk_impl pf k) (from_bulk_impl pf v)"
  let ?st = "st\<lparr>current := Some a, on_key := True, contents := (contents st)(a \<mapsto> b)\<rparr>"
  have "feed_nodes ?A st [nx, ny] = Inr (?st, None)"
    using nx(2) ny(2) 2(4) assms(4) by (simp add: reads_def map_impl_def fun_upd_idem_iff)
  then have step: "feed_nodes ?A st (concat (map (nodes d) (x # y # ms))) = feed_nodes ?A ?st (concat (map (nodes d) ms))"
    by (auto simp: nx(1) ny(1) split: sum.splits prod.splits option.splits)
  have sum: "contents st ++ map_of (rev kvs) = contents ?st ++ map_of (rev kvs')"
    by (auto simp: kvs(4) map_add_def fun_eq_iff split: option.split)
  have "on_key ?st" "list_all (wf_resp d') ms" using 2(3) by simp_all
  from 2(1) [OF kvs(3) this(2,1)] show ?case unfolding step sum .
qed auto

lemma feed_multimap_bulks:
  assumes "decode_pairs pf k v ms = Some kvs" and "list_all (wf_resp d') ms" and "mm_on_key st" and "1 \<le> d"
  shows "\<exists>st'. feed_nodes (multimap_impl (new_bulk pf k) (new_bulk pf v) (from_bulk_impl pf k) (from_bulk_impl pf v))
      st (concat (map (nodes d) ms)) = Inr (st', None) \<and> mm_on_key st' \<and> mm_contents st' = mm_contents st @ kvs"
  using assms(1-3)
proof (induction pf k v ms arbitrary: kvs st rule: decode_pairs.induct)
  case (2 pf k v x y ms)
  then obtain a b kvs' where kvs: "decode_bulk pf k x = Some a" "decode_bulk pf v y = Some b"
      "decode_pairs pf k v ms = Some kvs'" "kvs = (a, b) # kvs'"
    by (auto split: option.splits)
  obtain nx where nx: "nodes d x = [nx]" "reads pf k d nx a"
    using 2(3) by (auto elim: decode_bulk_reads [OF kvs(1)])
  obtain ny where ny: "nodes d y = [ny]" "reads pf v d ny b"
    using 2(3) by (auto elim: decode_bulk_reads [OF kvs(2)])
  let ?A = "multimap_impl (new_bulk pf k) (new_bulk pf v) (from_bulk_impl pf k) (from_bulk_impl pf v)"
  let ?st = "st\<lparr>mm_current := Some (length (mm_contents st)), mm_on_key := True, mm_contents := mm_contents st @ [(a, b)]\<rparr>"
  have "feed_nodes ?A st [nx, ny] = Inr (?st, None)"
    using nx(2) ny(2) 2(4) assms(4) by (simp add: reads_def multimap_impl_def)
  then have "feed_nodes ?A st (concat (map (nodes d) (x # y # ms))) = feed_nodes ?A ?st (concat (map (nodes d) ms))"
    by (auto simp: nx(1) ny(1) split: sum.splits prod.splits option.splits)
  with 2(1) [OF kvs(3), of ?st] 2(3) show ?case by (simp add: kvs(4))
qed auto

section \<open>Objects\<close>

lemma feed_object_call:
  assumes "plain_ok T x"
  shows "feed_nodes (object_call pf T) x ns = feed_nodes (impl_map pf T) x ns"
  using assms
proof (induction ns arbitrary: x)
  case (Cons nd ns)
  have "object_call pf T x nd = impl_map pf T x nd"
    using Cons.prems plain_not_stale by (cases x) (auto simp: object_call_def)
  with Cons.IH soundD [OF sound_impl_map Cons.prems, of pf nd] show ?case
    by (cases "impl_map pf T x nd") (auto split: option.split)
qed simp

lemma feed_streamed:
  "feed_nodes (simple_impl (from_bulk_impl pf (Plain String_ty))) (Plain_val (String_val s)) (nodes d (Streamed ps)) =
     Inr (Plain_val (String_val (s @ concat ps)), None)"
proof -
  have step: "simple_impl (from_bulk_impl pf (Plain String_ty)) (Plain_val (String_val s)) nd =
      Inr (Plain_val (String_val (s @ node_value nd)), None)" if "\<not> is_aggregate (data_type nd)" for s nd
    using that by (simp add: simple_impl_def plain_emb.lift_emb string_emb.lift_emb convert_string_def)
  have "feed_nodes (simple_impl (from_bulk_impl pf (Plain String_ty))) (Plain_val (String_val s))
      (map (mk_node streamed_string_part_t 1 (Suc d)) ps @ [mk_node streamed_string_part_t 1 (Suc d) []]) =
      Inr (Plain_val (String_val (s @ concat ps)), None)" for s
    by (induction ps arbitrary: s) (simp_all add: step del: from_bulk_impl.simps)
  then show ?thesis by (simp add: step del: from_bulk_impl.simps)
qed

text \<open>The header of an aggregate and its elements.\<close>

lemma feed_aggregate:
  assumes "A r (mk_node t (of_nat (length ms div multiplicity t)) d []) = Inr (r1, None)"
    and "feed_nodes A r1 (concat (map (nodes (Suc d)) ms)) = Inr (r2, None)"
  shows "feed_nodes A r (nodes d (Aggr t ms)) = Inr (r2, None)"
  using assms by simp

lemma multiplicity_2 [simp]: "is_aggregate t \<Longrightarrow> element_multiplicity t = 2 \<longleftrightarrow> multiplicity t = 2"
  by (cases t) (simp_all add: multiplicity_def)

lemma feed_set_bulks:
  assumes "decode_bulks pf b ms = Some vs" and "list_all (wf_resp d') ms"
  shows "feed_nodes (set_impl ins (new_bulk pf b) (from_bulk_impl pf b)) r (nodes d (Aggr set_t ms)) =
    Inr (fold ins vs r, None)"
  by (rule feed_aggregate [OF _ feed_bulks [OF assms]]) (simp_all add: set_impl_def reads_def)

lemma feed_sequence_bulks:
  assumes "decode_bulks pf b ms = Some vs" and "list_all (wf_resp d') ms" and "is_aggregate t"
    and "multiplicity t dvd length ms"
  shows "of_nat (length ms) \<le> mx \<Longrightarrow>
      feed_nodes (vector_impl mx (new_bulk pf b) (from_bulk_impl pf b)) [] (nodes d (Aggr t ms)) = Inr (vs, None)"
    and "feed_nodes (list_impl (new_bulk pf b) (from_bulk_impl pf b)) [] (nodes d (Aggr t ms)) = Inr (vs, None)"
    and "feed_nodes (array_impl (from_bulk_impl pf b)) (-1, replicate (length ms) (new_bulk pf b)) (nodes d (Aggr t ms)) =
      Inr ((int (length ms), vs), None)"
proof -
  have snoc: "fold (\<lambda>v r. r @ [v]) vs [] = vs" using fold_snoc [of id vs "[]"] by simp
  note size = announced_size [OF assms(3,4)]
  show "feed_nodes (vector_impl mx (new_bulk pf b) (from_bulk_impl pf b)) [] (nodes d (Aggr t ms)) = Inr (vs, None)"
    if "of_nat (length ms) \<le> mx"
    by (rule feed_aggregate [OF _ feed_bulks [OF assms(1,2), where ins = "\<lambda>v r. r @ [v]" and r = "[]", unfolded snoc]])
      (use assms(3) size that in \<open>simp_all add: vector_impl_def reads_def not_less\<close>)
  show "feed_nodes (list_impl (new_bulk pf b) (from_bulk_impl pf b)) [] (nodes d (Aggr t ms)) = Inr (vs, None)"
    by (rule feed_aggregate [OF _ feed_bulks [OF assms(1,2), where ins = "\<lambda>v r. r @ [v]" and r = "[]", unfolded snoc]])
      (use assms(3) in \<open>simp_all add: list_impl_def reads_def\<close>)
  show "feed_nodes (array_impl (from_bulk_impl pf b)) (-1, replicate (length ms) (new_bulk pf b)) (nodes d (Aggr t ms)) =
      Inr ((int (length ms), vs), None)"
    by (rule feed_aggregate [OF _ feed_array_bulks [OF assms(1,2), of "[]", simplified]])
      (use assms(3) size in \<open>simp add: array_impl_def mult.commute\<close>)
qed

lemma aggregate_wf:
  assumes "wf_resp d' (Aggr t ms)"
  shows "is_aggregate t" and "multiplicity t dvd length ms" and "list_all (wf_resp (Suc d')) ms"
  using assms by simp_all

lemma feed_map_object:
  assumes "decode_pairs pf k v ms = Some kvs" and "wf_resp d' (Aggr t ms)" and "multiplicity t = 2"
  shows "\<exists>x. feed_nodes (impl_map pf (Map_ty k v)) (Map_obj new_map_state) (nodes d (Aggr t ms)) = Inr (x, None)
    \<and> object_value x = Map_reply (map_of (rev kvs))"
proof -
  let ?A = "map_impl (new_bulk pf k) (new_bulk pf v) (from_bulk_impl pf k) (from_bulk_impl pf v)"
  have "on_key (new_map_state :: ('a bulk, 'a bulk) map_state)" by (simp add: new_map_state_def)
  from feed_map_bulks [OF assms(1) aggregate_wf(3) [OF assms(2)] this, of "Suc d"] obtain st
    where st: "feed_nodes ?A new_map_state (concat (map (nodes (Suc d)) ms)) = Inr (st, None)"
      "contents st = map_of (rev kvs)" by (auto simp: new_map_state_def)
  have "feed_nodes ?A new_map_state (nodes d (Aggr t ms)) = Inr (st, None)"
    by (rule feed_aggregate [OF _ st(1)]) (use aggregate_wf(1) [OF assms(2)] assms(3) in \<open>simp add: map_impl_def\<close>)
  with st(2) show ?thesis by (auto dest: map_emb.feed_lift simp del: nodes.simps)
qed

lemma feed_multimap_object:
  assumes "decode_pairs pf k v ms = Some kvs" and "wf_resp d' (Aggr t ms)" and "multiplicity t = 2"
  shows "\<exists>x. feed_nodes (impl_map pf (Multimap_ty k v)) (Multimap_obj new_multimap_state) (nodes d (Aggr t ms)) = Inr (x, None)
    \<and> object_value x = Multimap_reply kvs"
proof -
  let ?A = "multimap_impl (new_bulk pf k) (new_bulk pf v) (from_bulk_impl pf k) (from_bulk_impl pf v)"
  have "mm_on_key (new_multimap_state :: ('a bulk, 'a bulk) multimap_state)" by (simp add: new_multimap_state_def)
  from feed_multimap_bulks [OF assms(1) aggregate_wf(3) [OF assms(2)] this, of "Suc d"] obtain st
    where st: "feed_nodes ?A new_multimap_state (concat (map (nodes (Suc d)) ms)) = Inr (st, None)"
      "mm_contents st = kvs" by (auto simp: new_multimap_state_def)
  have "feed_nodes ?A new_multimap_state (nodes d (Aggr t ms)) = Inr (st, None)"
    by (rule feed_aggregate [OF _ st(1)]) (use aggregate_wf(1) [OF assms(2)] assms(3) in \<open>simp add: multimap_impl_def\<close>)
  with st(2) show ?thesis by (auto dest: multimap_emb.feed_lift simp del: nodes.simps)
qed

lemma feed_simple_object:
  assumes "decode_object pf (Simple_ty b) m = Some r" and "wf_resp d' m"
  shows "\<exists>v. feed_nodes (simple_impl (from_bulk_impl pf b)) (new_bulk pf b) (nodes d m) = Inr (v, None)
    \<and> r = Bulk_reply v"
proof (cases "\<exists>ps. m = Streamed ps")
  case True
  with assms(1) feed_streamed [of pf "[]" d] show ?thesis
    by (auto split: if_splits simp del: nodes.simps from_bulk_impl.simps)
next
  case False
  with assms(1) obtain v where v: "decode_bulk pf b m = Some v" "r = Bulk_reply v" by (cases m) auto
  obtain nd where "nodes d m = [nd]" "reads pf b d nd v" by (rule decode_bulk_reads [OF v(1) assms(2)])
  then show ?thesis using v(2) by (simp add: reads_def simple_impl_def)
qed

lemma feed_sequence_object:
  assumes "decode_object pf T (Aggr t ms) = Some r" and "wf_resp d' (Aggr t ms)"
    and "T = Vector_ty b \<or> T = Array_ty b n \<or> T = List_ty b"
  shows "\<exists>x. feed_nodes (impl_map pf T) (new_object pf T) (nodes d (Aggr t ms)) = Inr (x, None) \<and> object_value x = r"
proof -
  from assms(1,3) obtain vs where vs: "decode_bulks pf b ms = Some vs" "r = Sequence_reply vs"
    by (auto split: if_splits)
  note wf = aggregate_wf [OF assms(2)]
  note feed = feed_sequence_bulks [OF vs(1) wf(3,1,2), where d = d]
  from assms(3) show ?thesis
  proof (elim disjE)
    assume "T = Vector_ty b"
    with assms(1) vs vector_emb.feed_lift [OF feed(1) [of "vector_max_size pf b"]] show ?thesis
      by (simp del: nodes.simps split: if_splits)
  next
    assume "T = Array_ty b n"
    with assms(1) vs array_emb.feed_lift [OF feed(3)] show ?thesis by (auto simp del: nodes.simps split: if_splits)
  next
    assume "T = List_ty b"
    with vs list_emb.feed_lift [OF feed(2)] show ?thesis by (simp del: nodes.simps)
  qed
qed

lemma feed_set_object:
  assumes "decode_object pf T (Aggr t ms) = Some r" and "wf_resp d' (Aggr t ms)"
    and "T = Set_ty b \<or> T = Multiset_ty b"
  shows "\<exists>x. feed_nodes (impl_map pf T) (new_object pf T) (nodes d (Aggr t ms)) = Inr (x, None) \<and> object_value x = r"
proof -
  from assms(1,3) obtain vs where vs: "decode_bulks pf b ms = Some vs" "t = set_t"
    by (auto split: if_splits)
  note feed = feed_set_bulks [OF vs(1) aggregate_wf(3) [OF assms(2)], where d = d]
  from assms(3) show ?thesis
  proof
    assume "T = Set_ty b"
    with assms(1) vs set_emb.feed_lift [OF feed [of insert "{}"]] show ?thesis
      by (simp add: fold_insert_set del: nodes.simps)
  next
    assume "T = Multiset_ty b"
    with assms(1) vs multiset_emb.feed_lift [OF feed [of add_mset "{#}"]] show ?thesis
      by (simp add: fold_add_mset del: nodes.simps)
  qed
qed

lemma decode_object_feed:
  assumes "decode_object pf T m = Some r" and "wf_resp d' m"
  shows "\<exists>x. feed_nodes (impl_map pf T) (new_object pf T) (nodes d m) = Inr (x, None) \<and> object_value x = r"
proof (cases "\<exists>b. T = Simple_ty b")
  case True
  then obtain b where T: "T = Simple_ty b" by blast
  from feed_simple_object [OF assms(1) [unfolded T] assms(2), of d] show ?thesis
    by (auto simp: T dest: simple_emb.feed_lift)
next
  case False
  with assms(1) obtain t ms where m: "m = Aggr t ms" by (cases T; cases m) auto
  note assms = assms [unfolded m]
  show ?thesis unfolding m
  proof (cases T)
    case (Map_ty k v)
    with assms feed_map_object [of pf k v ms _ d' t d]
    show "\<exists>x. feed_nodes (impl_map pf T) (new_object pf T) (nodes d (Aggr t ms)) = Inr (x, None) \<and> object_value x = r"
      by (auto simp del: nodes.simps impl_map.simps split: if_splits)
  next
    case (Multimap_ty k v)
    with assms feed_multimap_object [of pf k v ms _ d' t d]
    show "\<exists>x. feed_nodes (impl_map pf T) (new_object pf T) (nodes d (Aggr t ms)) = Inr (x, None) \<and> object_value x = r"
      by (auto simp del: nodes.simps impl_map.simps split: if_splits)
  qed (use False feed_sequence_object [OF assms] feed_set_object [OF assms] in blast)+
qed

section \<open>Results\<close>

abbreviation error_free :: "node list \<Rightarrow> bool" where
  "error_free ns \<equiv> list_all (\<lambda>nd. data_type nd \<notin> {simple_error_t, blob_error_t}) ns"

lemma decode_bulk_Aggr [simp]: "decode_bulk pf b (Aggr t ms) = None"
  by (cases b) simp_all

lemma decode_bulk_error_free:
  assumes "decode_bulk pf b m = Some v" and "wf_resp d' m"
  shows "error_free (nodes d m)"
  using assms by (auto elim: decode_bulk_reads [of pf b m v d' d] simp: reads_def)

lemma decode_bulks_error_free:
  "decode_bulks pf b ms = Some vs \<Longrightarrow> list_all (wf_resp d') ms \<Longrightarrow> error_free (concat (map (nodes d) ms))"
  by (induction ms arbitrary: vs) (auto simp: decode_bulks_Cons dest: decode_bulk_error_free)

lemma decode_pairs_error_free:
  "decode_pairs pf k v ms = Some kvs \<Longrightarrow> list_all (wf_resp d') ms \<Longrightarrow> error_free (concat (map (nodes d) ms))"
  by (induction pf k v ms arbitrary: kvs rule: decode_pairs.induct)
    (auto split: option.splits dest: decode_bulk_error_free)

lemma decode_object_nodes:
  assumes "decode_object pf T m = Some r" and "wf_resp d' m" and "\<not> is_null m"
  obtains nd ns where "nodes d m = nd # ns" and "data_type nd \<noteq> null_t" and "error_free (nd # ns)"
proof (cases m)
  case (Aggr t ms)
  note wf = aggregate_wf [OF assms(2) [unfolded Aggr]]
  from assms(1) wf(3) have "error_free (concat (map (nodes (Suc d)) ms))"
    by (cases T) (auto simp: Aggr split: if_splits dest: decode_bulks_error_free decode_pairs_error_free)
  moreover have "t \<notin> {null_t, simple_error_t, blob_error_t}" using wf(1) by auto
  ultimately show thesis using that by (simp add: Aggr)
next
  case (Streamed ps)
  then show thesis using that by (simp add: list_all_iff)
next
  case (Simple t s)
  then obtain b v where b: "decode_bulk pf b m = Some v" using assms(1) by (cases T) auto
  show thesis
    by (rule decode_bulk_reads [OF b assms(2), of d]) (use that assms(3) in \<open>auto simp: reads_def\<close>)
next
  case (Bulk t s)
  then obtain b v where b: "decode_bulk pf b m = Some v" using assms(1) by (cases T) auto
  show thesis
    by (rule decode_bulk_reads [OF b assms(2), of d]) (use that assms(3) in \<open>auto simp: reads_def\<close>)
qed

lemma feed_wrapper_optional:
  assumes "data_type nd \<noteq> null_t" and "error_free (nd # ns)" and "feed_nodes impl v (nd # ns) = Inr (v', None)"
  shows "feed_nodes (wrapper_optional_call v impl) (new_wrapper None) (nd # ns) =
    Inr (\<lparr>w_result = Inr (Some v'), w_called_once = True\<rparr>, None)"
proof -
  have pass: "feed_nodes impl x ns = Inr (v', None) \<Longrightarrow> error_free ns \<Longrightarrow>
      feed_nodes (wrapper_optional_call v impl) \<lparr>w_result = Inr (Some x), w_called_once = True\<rparr> ns =
        Inr (\<lparr>w_result = Inr (Some v'), w_called_once = True\<rparr>, None)" for x ns
    by (induction ns arbitrary: x) (auto simp: wrapper_optional_call_def split: sum.splits prod.splits option.splits)
  from assms(3) obtain x where "impl v nd = Inr (x, None)" "feed_nodes impl x ns = Inr (v', None)"
    by (auto split: sum.splits prod.splits option.splits)
  with assms(1,2) pass show ?thesis by (simp add: wrapper_optional_call_def new_wrapper_def)
qed

lemma decode_object_call:
  assumes "decode_object pf T m = Some r" and "wf_resp d' m" and "\<not> is_null m"
  obtains nd ns x where "nodes d m = nd # ns" and "data_type nd \<noteq> null_t" and "error_free (nd # ns)"
    and "feed_nodes (object_call pf T) (new_object pf T) (nd # ns) = Inr (x, None)" and "object_value x = r"
proof -
  obtain nd ns where n: "nodes d m = nd # ns" "data_type nd \<noteq> null_t" "error_free (nd # ns)"
    by (rule decode_object_nodes [OF assms])
  with decode_object_feed [OF assms(1,2), of d] that show thesis
    by (auto simp: feed_object_call new_object_ok simp del: feed_nodes.simps)
qed

lemma decode_element_feed:
  assumes "decode_result pf d T m = Some r" and "wf_resp d' m" and "\<nexists>Ts. T = Tuple_ty Ts"
  shows "\<exists>s. feed_nodes (result_adapter pf T) (new_slot pf T) (nodes d m) = Inr (s, None) \<and> slot_value s = Some r"
proof (cases T)
  case Ignore_ty
  have "list_all (\<lambda>nd. data_type nd \<notin> {null_t, simple_error_t, blob_error_t}) ns \<Longrightarrow>
      feed_nodes ignore s ns = Inr (s, None)" for s :: "'a slot" and ns
    by (induction ns) (auto simp: ignore_def split: resp3_type.splits)
  with assms(1) show ?thesis by (auto simp: Ignore_ty split: if_splits)
next
  case Node_ty
  with assms obtain t s where "leaf m = Some (t, s)" "t \<notin> {simple_error_t, blob_error_t}"
    "r = Node_reply (mk_node t 1 d s)" by (auto split: option.splits if_splits)
  with leaf_node(1) [of m t s d' d] assms(2) show ?thesis
    by (simp add: Node_ty node_emb.lift_emb general_simple_def mk_node_def)
next
  case Nodes_ty
  with assms(1) nodes_emb.feed_lift [OF feed_general_aggregate [of "nodes d m" "[]"]] show ?thesis
    by (auto split: if_splits)
next
  case (Result_ty U)
  then have dec: "decode_object pf U m = Some r" "\<not> is_null m" using assms(1) by (simp_all split: if_splits)
  obtain nd ns x where n: "nodes d m = nd # ns" "data_type nd \<noteq> null_t" "error_free (nd # ns)"
    "feed_nodes (object_call pf U) (new_object pf U) (nd # ns) = Inr (x, None)" "object_value x = r"
    by (rule decode_object_call [OF dec(1) assms(2) dec(2)])
  from result_emb.feed_lift [OF feed_wrapper [OF _ n(4)]] n show ?thesis
    by (simp add: Result_ty del: feed_nodes.simps)
next
  case (Optional_ty U)
  show ?thesis
  proof (cases "is_null m")
    case True
    then obtain s where l: "leaf m = Some (null_t, s)" by (auto simp: is_null_def)
    from assms(1) leaf_node(1) [OF l assms(2), of d] True show ?thesis
      by (simp add: Optional_ty opt_emb.lift_emb wrapper_optional_call_def new_wrapper_def)
  next
    case False
    then have dec: "decode_object pf U m = Some r" using assms(1) Optional_ty by simp
    obtain nd ns x where n: "nodes d m = nd # ns" "data_type nd \<noteq> null_t" "error_free (nd # ns)"
      "feed_nodes (object_call pf U) (new_object pf U) (nd # ns) = Inr (x, None)" "object_value x = r"
      by (rule decode_object_call [OF dec assms(2) False])
    from opt_emb.feed_lift [OF feed_wrapper_optional [OF n(2-4)]] n(1,5) show ?thesis
      by (simp add: Optional_ty del: feed_nodes.simps)
  qed
qed (use assms(3) in simp)

text \<open>The elements of a tuple, each by the adapter of its position.\<close>

lemma feed_at_position:
  assumes "feed_nodes A (ss ! i) ns = Inr (s, None)" and "i < length ss"
  shows "feed_nodes (at_position i A) ss ns = Inr (ss[i := s], None)"
  using assms
proof (induction ns arbitrary: ss)
  case (Cons nd ns)
  then obtain s1 where s1: "A (ss ! i) nd = Inr (s1, None)" "feed_nodes A s1 ns = Inr (s, None)"
    by (auto split: sum.splits prod.splits option.splits)
  with Cons.IH [of "ss[i := s1]"] Cons.prems(2) show ?case by (simp add: at_position_def)
next
  case Nil
  then show ?case by auto
qed

lemma feed_tuple_positions:
  assumes "length As = length xs" and "length ss = length xs"
    and "list_all2 (\<lambda>(A, s, x) s'. feed_nodes A s (nodes 1 x) = Inr (s', None)) (zip As (zip ss xs)) ss'"
  shows "feed_tuple (map (\<lambda>(i, A). at_position i A) (enumerate (length ps) As)) (ps @ ss) xs = Inr (ps @ ss', None)"
  using assms
proof (induction xs arbitrary: As ss ss' ps)
  case (Cons x xs)
  then obtain A As' s ss1 where eq: "As = A # As'" "ss = s # ss1" by (cases As; cases ss) auto
  with Cons.prems(3) obtain s' ss2 where eq': "ss' = s' # ss2" "feed_nodes A s (nodes 1 x) = Inr (s', None)"
    "list_all2 (\<lambda>(A, s, x) s'. feed_nodes A s (nodes 1 x) = Inr (s', None)) (zip As' (zip ss1 xs)) ss2"
    by (auto simp: list_all2_Cons1)
  have "feed_nodes (at_position (length ps) A) (ps @ s # ss1) (nodes 1 x) = Inr (ps @ s' # ss1, None)"
    using feed_at_position [of A "ps @ s # ss1" "length ps" "nodes 1 x" s'] eq' by simp
  with Cons.IH [OF _ _ eq'(3), of "ps @ [s']"] Cons.prems eq eq'(1) show ?case by simp
qed simp

lemma decode_results_feed:
  assumes "decode_results pf Ts ms = Some rs" and "list_all (wf_resp d') ms"
  shows "length Ts = length ms \<and> (\<exists>ss. list_all2 (\<lambda>(A, s, x) s'. feed_nodes A s (nodes 1 x) = Inr (s', None))
      (zip (map (result_adapter pf) Ts) (zip (map (new_slot pf) Ts) ms)) ss \<and> those (map slot_value ss) = Some rs)"
  using assms
proof (induction ms arbitrary: Ts rs)
  case (Cons m ms)
  then obtain T Us r rs' where eq: "Ts = T # Us" "rs = r # rs'" "decode_result pf 1 T m = Some r"
      "decode_results pf Us ms = Some rs'"
    by (cases Ts) (auto split: option.splits)
  have "\<nexists>Ts. T = Tuple_ty Ts" using eq(3) by (auto split: resp.splits)
  from decode_element_feed [OF eq(3) _ this] Cons.prems(2) obtain s
    where "feed_nodes (result_adapter pf T) (new_slot pf T) (nodes 1 m) = Inr (s, None)" "slot_value s = Some r"
    by auto
  with Cons.IH [OF eq(4)] Cons.prems(2) show ?case by (fastforce simp: eq(1,2) list_all2_Cons1)
next
  case Nil
  then show ?case by (cases Ts) auto
qed

lemma elements_shorter:
  assumes "length (encode (Aggr t ms)) < n"
  shows "length ms < n" and "list_all (\<lambda>x. length (encode x) < n) ms"
proof -
  have total: "length (concat (map encode ms)) < n" using assms by simp
  with length_concat_encode [of ms] show "length ms < n" by linarith
  have "length (encode x) \<le> length (concat (map encode ms))" if "x \<in> set ms" for x
    using member_le_sum_list [of "length (encode x)" "map (length \<circ> encode) ms"] that
    by (auto simp: length_concat comp_def)
  with total show "list_all (\<lambda>x. length (encode x) < n) ms" by (fastforce simp: list_all_iff)
qed

lemma decode_tuple_feed:
  assumes "decode_result pf 0 (Tuple_ty Ts) m = Some r" and "wf_resp 0 m" and "length (encode m) < 2 ^ 64"
  shows "\<exists>s. feed_nodes (result_adapter pf (Tuple_ty Ts)) (new_slot pf (Tuple_ty Ts)) (nodes 0 m) = Inr (s, None)
    \<and> slot_value s = Some r"
proof -
  from assms(1) obtain t ms rs where m: "m = Aggr t ms" "list_all is_flat ms" "decode_results pf Ts ms = Some rs"
    "r = Tuple_reply rs" by (cases m) (auto split: if_splits)
  note wf = aggregate_wf [OF assms(2) [unfolded m(1)]]
  from decode_results_feed [OF m(3) wf(3)] obtain ss where len: "length Ts = length ms"
    and ss: "list_all2 (\<lambda>(A, s, x) s'. feed_nodes A s (nodes 1 x) = Inr (s', None))
      (zip (map (result_adapter pf) Ts) (zip (map (new_slot pf) Ts) ms)) ss" "those (map slot_value ss) = Some rs" by blast
  let ?As = "positions (map (result_adapter pf) Ts)"
  note size = elements_shorter [OF assms(3) [unfolded m(1)]]
  have "feed_tuple ?As (map (new_slot pf) Ts) ms = Inr (ss, None)"
    using feed_tuple_positions [OF _ _ ss(1), of "[]"] len by (simp add: positions_def)
  then have "feed_nodes (static_aggregate_adapter ?As) (at_element 0 0 (map (new_slot pf) Ts)) (nodes 0 m) =
      Inr (at_element (length ms) 0 ss, None)"
    using tuple_elements_in_position [OF wf(1,2) _ size(1) m(2) size(2), of ?As] size(1) len by (simp add: m(1))
  from tuple_emb.feed_lift [OF this] ss(2) show ?thesis
    by (simp add: at_element_def tuple_slot_def m(4))
qed

lemma decode_result_feed:
  assumes "decode_result pf 0 T m = Some r" and "wf_resp 0 m" and "length (encode m) < 2 ^ 64"
  shows "\<exists>s. feed_nodes (result_adapter pf T) (new_slot pf T) (nodes 0 m) = Inr (s, None) \<and> slot_value s = Some r"
  using decode_tuple_feed [OF _ assms(2,3)] decode_element_feed [OF assms(1,2)] assms(1) by (cases T) auto

lemma assigner_id: "(\<And>x. x \<in> set xs \<Longrightarrow> f x (g x) = Inr (g x)) \<Longrightarrow> assigner f xs (map g xs) = Inr (map g xs)"
  by (induction xs) auto

lemma internal_adapt_new: "internal_adapt pf T (new_slot pf T) = Inr (new_slot pf T)"
  by (induction T) (simp_all add: wrapper_construct_def wrapper_optional_construct_def new_wrapper_def assigner_id)

section \<open>Properties\<close>

text \<open>
  C3: reading a reply into a response of any supported type.  If the message, as a tree, has the
  value \<open>r\<close> for the type \<open>T\<close>, then the adapter that the library selects for \<open>T\<close>, constructed on a
  new object and fed by the parser, accepts the message whatever data follows it, consumes
  exactly its bytes, and leaves the object with the value \<open>r\<close>.
\<close>

theorem response_decodes:
  assumes "decode_result pf 0 T m = Some r" and "wf_resp 0 m" and "length (encode m @ rest) < 2 ^ 64"
  shows "internal_adapt pf T (new_slot pf T) = Inr (new_slot pf T)
    \<and> (\<exists>p s. parse (result_adapter pf T) (encode m @ rest) new_parser (new_slot pf T) = Inr (p, s, True, None)
        \<and> get_consumed p = length (encode m) \<and> slot_value s = Some r)"
proof -
  obtain p where p: "emits (encode m @ rest) new_parser (nodes 0 m) p" "parser_done p" "get_consumed p = length (encode m)"
    using encode_emits [OF assms(2,3)] .
  have "length (encode m) < 2 ^ 64" using assms(3) by simp
  from decode_result_feed [OF assms(1,2) this] obtain s
    where s: "feed_nodes (result_adapter pf T) (new_slot pf T) (nodes 0 m) = Inr (s, None)" "slot_value s = Some r" by blast
  have "parse (result_adapter pf T) (encode m @ rest) new_parser (new_slot pf T) = Inr (p, s, True, None)"
    using emits_parse [OF p(1) s(1)] parse_done [OF p(2)] by simp
  with p(3) s(2) show ?thesis by (auto simp: internal_adapt_new)
qed

text \<open>The reply of a transaction, as an example.\<close>

definition exec_ty :: result_ty where
  "exec_ty = Tuple_ty [Optional_ty (Vector_ty (Plain (Int_ty True 32))),
     Optional_ty (Map_ty (Plain String_ty) (Plain String_ty)),
     Optional_ty (Vector_ty (Optional String_ty)), Result_ty (Set_ty (Plain String_ty))]"

definition exec_message :: resp where
  "exec_message = Aggr array_t
     [Aggr array_t [Bulk blob_string_t ''1'', Bulk blob_string_t ''-20''],
      Aggr map_t [Bulk blob_string_t ''k'', Bulk blob_string_t ''v''],
      Aggr array_t [Bulk blob_string_t ''x'', Simple null_t []],
      Aggr set_t [Bulk blob_string_t ''a'', Bulk blob_string_t ''a'']]"

definition exec_value :: "unit reply" where
  "exec_value = Tuple_reply
     [Sequence_reply [Plain_val (Int_val 1), Plain_val (Int_val (-20))],
      Map_reply [Plain_val (String_val ''k'') \<mapsto> Plain_val (String_val ''v'')],
      Sequence_reply [Optional_val (Some (String_val ''x'')), Optional_val None],
      Set_reply {Plain_val (String_val ''a'')}]"

lemma exec_example:
  "decode_result plain_platform 0 exec_ty exec_message = Some exec_value" "wf_resp 0 exec_message"
  "length (encode exec_message @ []) < 2 ^ 64"
proof -
  have digits: "from_chars_int True 32 ''1'' = Some 1" "from_chars_int True 32 ''-20'' = Some (-20)" by code_simp+
  show "decode_result plain_platform 0 exec_ty exec_message = Some exec_value"
    by (simp add: exec_ty_def exec_message_def exec_value_def plain_platform_def is_null_def decode_bulks_def
        multiplicity_def digits)
  show "wf_resp 0 exec_message" by code_simp
  have "length (encode exec_message) \<le> 200" by code_simp
  then show "length (encode exec_message @ []) < 2 ^ 64" by simp
qed

theorem response_decodes_witness:
  "\<exists>p s. parse (result_adapter plain_platform exec_ty) (encode exec_message) new_parser (new_slot plain_platform exec_ty)
      = Inr (p, s, True, None) \<and> slot_value s = Some exec_value"
  using response_decodes [OF exec_example] by auto

text \<open>
  C35: a response that holds an error cannot be used again.  After a reply that is an error, or null
  for a type that is not optional, the object holds the error; passing it to another
  \<open>async_exec\<close> makes the constructor of the adapter call \<open>value()\<close> on it, which throws out of
  functions declared \<open>noexcept\<close>.
\<close>

theorem error_response_not_reusable:
  assumes "data_type nd \<in> {null_t, simple_error_t, blob_error_t}"
  shows "\<exists>s. feed_nodes (result_adapter pf (Result_ty T)) (new_slot pf (Result_ty T)) (nd # ns) = Inr (s, None)
    \<and> slot_value s = None \<and> internal_adapt pf (Result_ty T) s = Inl Bad_Value_Access"
proof -
  let ?w = "\<lparr>w_result = Inl (resp3_error_of nd), w_called_once = True\<rparr> :: 'a object wrapper"
  have "feed_nodes (wrapper_call (object_call pf T)) ?w ns = Inr (?w, None)"
    by (induction ns) (simp_all add: wrapper_call_def)
  with assms have "feed_nodes (wrapper_call (object_call pf T)) (new_wrapper (new_object pf T)) (nd # ns) = Inr (?w, None)"
    by (simp add: wrapper_call_def new_wrapper_def)
  from result_emb.feed_lift [OF this] show ?thesis by (simp add: wrapper_construct_def)
qed

theorem error_response_not_reusable_witness:
  "\<exists>s. feed_nodes (result_adapter plain_platform (Result_ty (Simple_ty (Plain String_ty))))
      (new_slot plain_platform (Result_ty (Simple_ty (Plain String_ty)))) (nodes 0 (Simple simple_error_t ''ERR'')) = Inr (s, None)
    \<and> internal_adapt plain_platform (Result_ty (Simple_ty (Plain String_ty))) s = Inl Bad_Value_Access"
  using error_response_not_reusable [of "mk_node simple_error_t 1 0 ''ERR''" plain_platform "Simple_ty (Plain String_ty)" "[]"]
  by auto

text \<open>
  C36: a response of type \<^verbatim>\<open>std::optional<std::string>\<close> that is used again keeps its old value.  The
  constructor of its adapter does not clear it: the next string is appended to the old one, and
  a null reply leaves the old one in place.
\<close>

theorem optional_response_keeps_value:
  assumes "T = Optional_ty (Simple_ty (Plain String_ty))" and "slot_ok T s"
    and "slot_value s = Some (Bulk_reply (Plain_val (String_val old)))" and "t \<in> {blob_string_t, simple_string_t}"
  shows "\<exists>s1 s2 s3. internal_adapt pf T s = Inr s1
    \<and> feed_nodes (result_adapter pf T) s1 [mk_node t 1 0 new] = Inr (s2, None)
    \<and> slot_value s2 = Some (Bulk_reply (Plain_val (String_val (old @ new))))
    \<and> feed_nodes (result_adapter pf T) s1 [mk_node null_t 1 0 []] = Inr (s3, None)
    \<and> slot_value s3 = Some (Bulk_reply (Plain_val (String_val old)))"
proof -
  let ?x = "Simple_obj (Plain_val (String_val old)) :: 'a object"
  from assms(1-3) obtain w where s: "s = Optional_slot w" "w_result w = Inr (Some ?x)"
    by (cases s) (auto simp: holds_def result_ok_def optional_ok_def object_ok_def split: sum.splits option.splits object.splits)
  let ?s1 = "Optional_slot \<lparr>w_result = Inr (Some ?x), w_called_once = False\<rparr>"
  let ?s2 = "Optional_slot \<lparr>w_result = Inr (Some (Simple_obj (Plain_val (String_val (old @ new))))), w_called_once = True\<rparr>"
  let ?s3 = "Optional_slot \<lparr>w_result = Inr (Some ?x), w_called_once = True\<rparr>"
  have "internal_adapt pf T s = Inr ?s1" using s by (simp add: assms(1) wrapper_optional_construct_def)
  moreover have "feed_nodes (result_adapter pf T) ?s1 [mk_node t 1 0 new] = Inr (?s2, None)"
    using assms(4) by (auto simp: assms(1) opt_emb.lift_emb wrapper_optional_call_def object_call_def
        simple_emb.lift_emb simple_impl_def plain_emb.lift_emb string_emb.lift_emb convert_string_def)
  moreover have "feed_nodes (result_adapter pf T) ?s1 [mk_node null_t 1 0 []] = Inr (?s3, None)"
    by (simp add: assms(1) opt_emb.lift_emb wrapper_optional_call_def)
  moreover have "slot_value ?s2 = Some (Bulk_reply (Plain_val (String_val (old @ new))))"
    "slot_value ?s3 = Some (Bulk_reply (Plain_val (String_val old)))" by simp_all
  ultimately show ?thesis by blast
qed

theorem optional_response_keeps_value_witness:
  "\<exists>s1 s2. internal_adapt plain_platform (Optional_ty (Simple_ty (Plain String_ty)))
        (Optional_slot \<lparr>w_result = Inr (Some (Simple_obj (Plain_val (String_val ''a'')))), w_called_once = True\<rparr>) = Inr s1
    \<and> feed_nodes (result_adapter plain_platform (Optional_ty (Simple_ty (Plain String_ty)))) s1 [mk_node blob_string_t 1 0 ''b''] =
        Inr (s2, None)
    \<and> slot_value s2 = Some (Bulk_reply (Plain_val (String_val ''ab'')))"
  using optional_response_keeps_value [of "Optional_ty (Simple_ty (Plain String_ty))"
      "Optional_slot \<lparr>w_result = Inr (Some (Simple_obj (Plain_val (String_val ''a'')))), w_called_once = True\<rparr>"
      "''a''" blob_string_t plain_platform "''b''"]
  by (auto simp: holds_def result_ok_def optional_ok_def object_ok_def)

end
