(* ===== verification/Execution.thy ===== *)
theory Execution
  imports Connection_Properties Response_Decoding
begin

text \<open>
  A request with a typed response, from the call of \<open>async_exec\<close> to its completion: the overloads of
  \<open>async_exec\<close> that take a response object (\<^verbatim>\<open>include/boost/redis/connection.hpp\<close>), the type-erased
  class \<open>connection\<close> of the same file and \<^verbatim>\<open>impl/connection.ipp\<close>, and \<^verbatim>\<open>detail/write.hpp\<close>.

  The last theorem composes all the components: the request is queued, written, answered, parsed,
  converted to the types of the response and reported to the caller.
\<close>

section \<open>Definitions\<close>

text \<open>An adapter of the response objects of the users, as an adapter of all response objects.\<close>

definition user_adapter :: "'u any_adapter \<Rightarrow> 'u responses any_adapter" where
  "user_adapter A =
     \<lparr>adapt_fn = (\<lambda>i s nd. andThen (adapt_fn A i (user_resp s) nd) (\<lambda>(r, ec). Inr (s\<lparr>user_resp := r\<rparr>, ec))),
      supported_response_size = supported_response_size A\<rparr>"

definition get_usage :: "'u connection \<Rightarrow> usage" where
  "get_usage c = m_usage (c_mpx c)"

text \<open>\<open>async_exec\<close> with a \<^verbatim>\<open>response<Ts...>\<close>, which is the response object of the users.\<close>

definition async_exec_response ::
  "'d platform \<Rightarrow> result_ty list \<Rightarrow> request \<Rightarrow> 'd slot list connection \<Rightarrow> fault + 'd slot list connection \<times> ptr" where
  "async_exec_response pf Ts req c =
     andThen (adapt_response pf Ts (user_resp (c_responses c))) (\<lambda>(ss, A).
       async_exec req (user_adapter A) (c\<lparr>c_responses := (c_responses c)\<lparr>user_resp := ss\<rparr>\<rparr>))"

subsection \<open>The type-erased connection\<close>

record 'u erased_connection =
  impl :: "'u connection"

definition erased_new :: "(ptr \<Rightarrow> 'u responses elem) \<Rightarrow> 'u \<Rightarrow> fault + 'u erased_connection" where
  "erased_new h user = andThen (new_connection h user) (\<lambda>c. Inr \<lparr>impl = c\<rparr>)"

definition async_run_impl ::
  "config \<Rightarrow> messages \<Rightarrow> logger \<Rightarrow> 'u erased_connection
    \<Rightarrow> fault + 'u erased_connection \<times> logger \<times> (run_pc, error_code option) outcome" where
  "async_run_impl cfg msg l e =
     andThen (async_run cfg msg l (impl e)) (\<lambda>(c, l, out). Inr (e\<lparr>impl := c\<rparr>, l, out))"

definition erased_async_run ::
  "config \<Rightarrow> messages \<Rightarrow> logger \<Rightarrow> 'u erased_connection
    \<Rightarrow> fault + 'u erased_connection \<times> logger \<times> (run_pc, error_code option) outcome" where
  "erased_async_run cfg msg l e = async_run_impl cfg msg l e"

definition erased_async_receive :: "'u erased_connection \<Rightarrow> 'u erased_connection" where
  "erased_async_receive e = e\<lparr>impl := async_receive (impl e)\<rparr>"

definition erased_receive ::
  "(call list \<Rightarrow> (error_code option \<times> nat) option) \<Rightarrow> error_code option \<Rightarrow> 'u erased_connection
    \<Rightarrow> 'u erased_connection \<times> nat \<times> error_code option" where
  "erased_receive try_receive ec e =
     (let (c, n, ec) = receive try_receive ec (impl e) in (e\<lparr>impl := c\<rparr>, n, ec))"

definition async_exec_impl ::
  "request \<Rightarrow> 'u responses any_adapter \<Rightarrow> 'u erased_connection \<Rightarrow> fault + 'u erased_connection \<times> ptr" where
  "async_exec_impl req A e = andThen (async_exec req A (impl e)) (\<lambda>(c, p). Inr (e\<lparr>impl := c\<rparr>, p))"

definition erased_async_exec ::
  "request \<Rightarrow> 'u responses any_adapter \<Rightarrow> 'u erased_connection \<Rightarrow> fault + 'u erased_connection \<times> ptr" where
  "erased_async_exec req A e = async_exec_impl req A e"

definition erased_async_exec_response ::
  "'d platform \<Rightarrow> result_ty list \<Rightarrow> request \<Rightarrow> 'd slot list erased_connection
    \<Rightarrow> fault + 'd slot list erased_connection \<times> ptr" where
  "erased_async_exec_response pf Ts req e =
     andThen (adapt_response pf Ts (user_resp (c_responses (impl e)))) (\<lambda>(ss, A).
       let c = impl e
       in erased_async_exec req (user_adapter A) (e\<lparr>impl := c\<lparr>c_responses := (c_responses c)\<lparr>user_resp := ss\<rparr>\<rparr>\<rparr>))"

definition erased_cancel :: "operation \<Rightarrow> 'u erased_connection \<Rightarrow> 'u erased_connection" where
  "erased_cancel op e = e\<lparr>impl := cancel op (impl e)\<rparr>"

definition erased_will_reconnect :: "'u erased_connection \<Rightarrow> bool" where
  "erased_will_reconnect e = will_reconnect (impl e)"

definition erased_reset_stream :: "'u erased_connection \<Rightarrow> 'u erased_connection" where
  "erased_reset_stream e = e\<lparr>impl := reset_stream (impl e)\<rparr>"

definition erased_set_receive_response ::
  "(size_t \<Rightarrow> 'u responses adapter) \<Rightarrow> 'u erased_connection \<Rightarrow> 'u erased_connection" where
  "erased_set_receive_response response e = e\<lparr>impl := conn_set_receive_response response (impl e)\<rparr>"

definition erased_get_usage :: "'u erased_connection \<Rightarrow> usage" where
  "erased_get_usage e = get_usage (impl e)"

subsection \<open>Writing a request to a stream\<close>

text \<open>\<open>asio_write\<close> and \<open>asio_async_write\<close> are the functions of Asio, on the bytes to be written.\<close>

definition write_request :: "('t \<Rightarrow> string \<Rightarrow> 'r) \<Rightarrow> 't \<Rightarrow> request \<Rightarrow> 'r" where
  "write_request asio_write stream req = asio_write stream (r_payload req)"

definition write_request_ec :: "('t \<Rightarrow> string \<Rightarrow> error_code option \<Rightarrow> 'r) \<Rightarrow> 't \<Rightarrow> request \<Rightarrow> error_code option \<Rightarrow> 'r" where
  "write_request_ec asio_write stream req ec = asio_write stream (r_payload req) ec"

definition async_write_request :: "('t \<Rightarrow> string \<Rightarrow> 'k \<Rightarrow> 'r) \<Rightarrow> 't \<Rightarrow> request \<Rightarrow> 'k \<Rightarrow> 'r" where
  "async_write_request asio_async_write stream req token = asio_async_write stream (r_payload req) token"

subsection \<open>Programs\<close>

text \<open>A response object that a program declares is a new object in the place of the response objects of the users.\<close>

definition declare_response ::
  "'d platform \<Rightarrow> result_ty list \<Rightarrow> 'd slot list erased_connection \<Rightarrow> 'd slot list erased_connection" where
  "declare_response pf Ts e =
     (let c = impl e
      in e\<lparr>impl := c\<lparr>c_responses := (c_responses c)\<lparr>user_resp := map (new_slot pf) Ts\<rparr>\<rparr>\<rparr>)"

text \<open>\<open>resp.value().at(i).value\<close> of a generic response.\<close>

definition node_at :: "node list result \<Rightarrow> nat \<Rightarrow> fault + string" where
  "node_at resp i =
     (case resp of
        Inl _ \<Rightarrow> Inl Bad_Value_Access
      | Inr ns \<Rightarrow> if i < length ns then Inr (node_value (ns ! i)) else Inl Out_Of_Range)"

definition newline :: string where
  "newline = [CHR 0x0A]"

abbreviation string_ty :: bulk_ty where "string_ty \<equiv> Plain String_ty"

text \<open>The type of the reply to PING, \<^verbatim>\<open>std::string\<close>.\<close>

definition ping_ty :: result_ty where
  "ping_ty = Result_ty (Simple_ty (Plain String_ty))"

section \<open>Typed replies\<close>

text \<open>The values of the replies to the commands of a request.\<close>

fun decode_replies :: "'d platform \<Rightarrow> result_ty list \<Rightarrow> resp list \<Rightarrow> 'd reply list option" where
  "decode_replies pf [] [] = Some []"
| "decode_replies pf (T # Ts) (m # ms) =
     (case decode_result pf 0 T m of
        None \<Rightarrow> None
      | Some r \<Rightarrow> map_option (Cons r) (decode_replies pf Ts ms))"
| "decode_replies pf _ _ = None"

lemma length_decode_replies: "decode_replies pf Ts ms = Some rs \<Longrightarrow> length Ts = length ms \<and> length rs = length ms"
  by (induction pf Ts ms arbitrary: rs rule: decode_replies.induct) (auto split: option.splits)

lemma feed_user_adapter:
  assumes "feed_nodes (adapt_fn A i) (user_resp s) ns = Inr (r, e)"
  shows "feed_nodes (adapt_fn (user_adapter A) i) s ns = Inr (s\<lparr>user_resp := r\<rparr>, e)"
  using assms
  by (induction ns arbitrary: s) (auto simp: user_adapter_def split: sum.splits prod.splits option.splits)

lemma feed_replies_user_adapter:
  assumes "feed_replies (adapt_fn A) i (user_resp s) ms = Inr (r, None)"
  shows "feed_replies (adapt_fn (user_adapter A)) i s ms = Inr (s\<lparr>user_resp := r\<rparr>, None)"
  using assms
proof (induction ms arbitrary: i s)
  case (Cons m ms)
  then obtain r1 where r1: "feed_nodes (adapt_fn A i) (user_resp s) (nodes 0 m) = Inr (r1, None)"
      "feed_replies (adapt_fn A) (i + 1) r1 ms = Inr (r, None)"
    by (auto split: sum.splits prod.splits option.splits)
  with feed_user_adapter [OF r1(1)] Cons.IH [of "i + 1" "s\<lparr>user_resp := r1\<rparr>"] show ?case by simp
qed simp

lemma positions_append:
  "positions (As @ A # Bs) ! length As = at_position (length As) A"
  by (simp add: positions_nth)

lemma feed_replies_typed:
  assumes "decode_replies pf Ts ms = Some rs" and "list_all (wf_resp 0) ms" and "length (concat (map encode ms)) < 2 ^ 64"
    and "length (Us @ Ts) < 2 ^ 64" and "length ps = length Us"
  shows "\<exists>ss. feed_replies (static_adapter (positions (map (result_adapter pf) (Us @ Ts)))) (of_nat (length Us))
      (ps @ map (new_slot pf) Ts) ms = Inr (ps @ ss, None) \<and> those (map slot_value ss) = Some rs \<and> list_all2 slot_ok Ts ss"
  using assms
proof (induction pf Ts ms arbitrary: rs Us ps rule: decode_replies.induct)
  case (2 pf T Ts m ms)
  let ?A = "static_adapter (positions (map (result_adapter pf) (Us @ T # Ts)))" and ?i = "of_nat (length Us) :: size_t"
  from 2(2) obtain r rs' where rs: "decode_result pf 0 T m = Some r" "decode_replies pf Ts ms = Some rs'" "rs = r # rs'"
    by (auto split: option.splits)
  have i: "unat ?i = length Us" using 2(5) by (intro unat_of_nat_size_t) simp
  obtain s where s: "feed_nodes (result_adapter pf T) (new_slot pf T) (nodes 0 m) = Inr (s, None)" "slot_value s = Some r"
    using decode_result_feed [OF rs(1)] 2(3,4) by auto
  then have ok: "slot_ok T s" using sound_feed [OF sound_result_adapter [of T pf] new_slot_ok [of T pf], of "nodes 0 m"] by (simp add: safe_def)
  have "?A ?i = at_position (length Us) (result_adapter pf T)"
    by (simp add: fun_eq_iff static_adapter_def i positions_nth nth_append)
  then have "feed_nodes (?A ?i) (ps @ new_slot pf T # map (new_slot pf) Ts) (nodes 0 m) =
      Inr (ps @ s # map (new_slot pf) Ts, None)"
    using feed_at_position [of _ "ps @ new_slot pf T # map (new_slot pf) Ts" "length Us", OF _] s(1) 2(6)
    by (simp add: nth_append list_update_append)
  moreover obtain ss where "feed_replies ?A (?i + 1) (ps @ s # map (new_slot pf) Ts) ms = Inr (ps @ s # ss, None)"
      "those (map slot_value ss) = Some rs'" "list_all2 slot_ok Ts ss"
    using 2(1) [OF rs(1,2), of "Us @ [T]" "ps @ [s]"] 2(3-6) by (auto simp: add.commute)
  ultimately show ?case by (intro exI [of _ "s # ss"]) (simp add: rs(3) s(2) ok)
qed simp_all

text \<open>The reply to a command that has no value.\<close>

abbreviation status_reply :: "string \<Rightarrow> resp" where
  "status_reply s \<equiv> Simple simple_string_t s"

lemma those_eq_Some: "those xs = Some ys \<longleftrightarrow> xs = map Some ys"
proof (induction xs arbitrary: ys)
  case (Cons x xs)
  then show ?case by (cases x; cases ys) (auto split: option.split)
qed auto

section \<open>One request on a connection at rest\<close>

text \<open>
  A connection at rest: it is open, nothing is queued or buffered, the writer waits to be woken and the
  reader waits for data.
\<close>

definition resting :: "'u connection \<Rightarrow> bool" where
  "resting c \<longleftrightarrow>
     c_open c \<and> m_reqs (c_mpx c) = [] \<and> m_write_buffer (c_mpx c) = [] \<and> m_read_buffer (c_mpx c) = [] \<and> idle (c_mpx c)"

definition at_rest :: "'u system \<Rightarrow> bool" where
  "at_rest s \<longleftrightarrow>
     (case s_group s of
        None \<Rightarrow> False
      | Some g \<Rightarrow>
          g_writer g = Suspend Writer_wait Writer_woken \<and> (\<exists>io. g_reader g = Suspend io Reader_appended))
     \<and> resting (s_conn s)"

text \<open>
  The rest of an execution on the system \<open>s\<close> after the call has left the connection \<open>c\<close> and the request \<open>p\<close>:
  the writer is woken and writes the text \<open>out\<close>, the server answers with \<open>inp\<close>, and the operation
  completes without an error and with the number of bytes of the answer, which leaves \<open>s'\<close>.
\<close>

definition answered ::
  "messages \<Rightarrow> (call list \<Rightarrow> bool) \<Rightarrow> error_code option \<Rightarrow> 'u system \<Rightarrow> 'u connection \<Rightarrow> ptr \<Rightarrow> string \<Rightarrow> string
    \<Rightarrow> 'u system \<Rightarrow> bool" where
  "answered msg try_send ec s c p out inp s' \<longleftrightarrow>
     (\<exists>s2 g2 s4 c5. sys_step msg try_send (s\<lparr>s_conn := c\<rparr>) (Ev_woken ec) s2 \<and> s_group s2 = Some g2
       \<and> g_writer g2 = Suspend (Async_write (use_ssl (c_cfg (s_conn s))) out) Writer_written
       \<and> steps (sys_step msg try_send) s2 [Ev_written None, Ev_read None inp] s4
       \<and> resume_exec p {} (s_conn s4) = Inr (c5, Some (None, of_nat (length inp))) \<and> s' = s4\<lparr>s_conn := c5\<rparr>)"

text \<open>
  A program awaits an operation \<open>f\<close> that calls \<open>async_exec\<close>: the system \<open>s\<close> runs until the operation completes.
\<close>

definition awaits ::
  "messages \<Rightarrow> (call list \<Rightarrow> bool) \<Rightarrow> error_code option \<Rightarrow> ('u erased_connection \<Rightarrow> fault + 'u erased_connection \<times> ptr)
    \<Rightarrow> 'u system \<Rightarrow> string \<Rightarrow> string \<Rightarrow> 'u system \<Rightarrow> bool" where
  "awaits msg try_send ec f s out inp s' \<longleftrightarrow>
     (\<exists>e p. f \<lparr>impl = s_conn s\<rparr> = Inr (e, p) \<and> answered msg try_send ec s (impl e) p out inp s')"

text \<open>A program that executes requests with new response objects one after the other.\<close>

type_synonym 'd job = "result_ty list \<times> request \<times> command list \<times> resp list \<times> 'd reply list"

inductive session ::
  "messages \<Rightarrow> (call list \<Rightarrow> bool) \<Rightarrow> 'd platform \<Rightarrow> 'd slot list system \<Rightarrow> 'd job list \<Rightarrow> 'd slot list system \<Rightarrow> bool"
  for msg :: messages and try_send :: "call list \<Rightarrow> bool" and pf :: "'d platform" where
  session_nil: "session msg try_send pf s [] s"
| session_cons: "awaits msg try_send ec (\<lambda>e. erased_async_exec_response pf Ts req (declare_response pf Ts e)) s
      (concat (map command_text cmds)) (concat (map encode ms)) s1 \<Longrightarrow>
    those (map slot_value (user_resp (c_responses (s_conn s1)))) = Some rs \<Longrightarrow> session msg try_send pf s1 jobs s' \<Longrightarrow>
    session msg try_send pf s ((Ts, req, cmds, ms, rs) # jobs) s'"

text \<open>The request stands for the commands, and the replies to them have the given values.\<close>

fun job_ok :: "'d platform \<Rightarrow> 'd job \<Rightarrow> bool" where
  "job_ok pf (Ts, req, cmds, ms, rs) \<longleftrightarrow>
     represents req cmds \<and> length (filter expects_response cmds) = length ms \<and> ms \<noteq> []
     \<and> decode_replies pf Ts ms = Some rs \<and> list_all (wf_resp 0) ms \<and> list_all (\<lambda>t. \<not> is_push t) ms
     \<and> length (concat (map encode ms)) < 2 ^ 64"

text \<open>The multiplexer with one request in the given state of its way.\<close>

definition holds_request :: "'s multiplexer \<Rightarrow> ptr \<Rightarrow> 's elem \<Rightarrow> string \<Rightarrow> bool" where
  "holds_request m p e buf \<longleftrightarrow>
     m_reqs m = [p] \<and> m_heap m p = e \<and> m_write_buffer m = buf \<and> m_read_buffer m = [] \<and> idle m"

lemma partition_point_single [simp]: "partition_point pr [x] = (if pr x then 1 else 0)"
  by (simp add: partition_point_def partition_search.simps)

lemma add_holds_request:
  assumes "m_reqs m = []" and "m_write_buffer m = []" and "m_read_buffer m = []" and "idle m"
  shows "holds_request (add (snd (make_elem m req A)) (m_brk m)) (m_brk m) (new_elem req A) []"
  using assms by (simp add: holds_request_def add_def make_elem_def Let_def idle_def rotate_prefix_def)
    (simp add: new_elem_def is_waiting_def)

lemma prepare_holds_request:
  assumes "holds_request m p e []" and "is_waiting e"
  shows "\<exists>m'. prepare_write m = (m', 1) \<and> holds_request m' p (mark staged e) (r_payload (e_req e))"
  using assms by (auto simp: prepare_write_def holds_request_def idle_def Let_def)

lemma commit_holds_request:
  assumes "holds_request m p e buf" and "is_staged e" and "r_expected_responses (e_req e) \<noteq> 0"
  shows "holds_request (fst (commit_write m)) p (mark written e) []"
  using assms
  by (auto simp: commit_write_def release_push_requests_def stable_partition_def holds_request_def idle_def Let_def mark_def)

lemma prepare_nothing:
  assumes "holds_request m p e []" and "is_written e"
  shows "\<exists>m'. prepare_write m = (m', 0) \<and> holds_request m' p e []"
  using assms by (auto simp: prepare_write_def holds_request_def idle_def Let_def is_written_def is_waiting_def)

text \<open>What the steps of one request leave as it is.\<close>

definition same_client :: "'u connection \<Rightarrow> 'u connection \<Rightarrow> bool" where
  "same_client c c' \<longleftrightarrow> c_open c' = c_open c \<and> c_responses c' = c_responses c \<and> c_execs c' = c_execs c \<and> c_cfg c' = c_cfg c"

lemma same_client_trans: "same_client c c' \<Longrightarrow> same_client c' c'' \<Longrightarrow> same_client c c''"
  by (simp add: same_client_def)

lemma async_exec_queues:
  assumes "m_reqs (c_mpx c) = []" and "m_write_buffer (c_mpx c) = []" and "m_read_buffer (c_mpx c) = []"
    and "idle (c_mpx c)" and "c_open c" and "r_expected_responses req \<le> supported_response_size A"
  shows "\<exists>c'. async_exec req A c = Inr (c', m_brk (c_mpx c))
    \<and> holds_request (c_mpx c') (m_brk (c_mpx c)) (new_elem req (adapt_fn A)) []
    \<and> same_client (c\<lparr>c_execs := (c_execs c)(m_brk (c_mpx c) \<mapsto> Exec_notified)\<rparr>) c'"
proof -
  obtain m where m: "make_elem (c_mpx c) req (adapt_fn A) = (m_brk (c_mpx c), m)" by (simp add: make_elem_def)
  with add_holds_request [OF assms(1-4), of req "adapt_fn A"]
  have h: "holds_request (add m (m_brk (c_mpx c))) (m_brk (c_mpx c)) (new_elem req (adapt_fn A)) []" by simp
  then have "\<not> is_writing (add m (m_brk (c_mpx c)))" by (simp add: holds_request_def is_writing_def)
  with m h assms(5,6) show ?thesis
    by (auto simp: async_exec_def trigger_write_def same_client_def do_call_def not_less Let_def)
qed

lemma woken_writes:
  assumes "holds_request (c_mpx c) p e []" and "is_waiting e" and "c_open c"
  shows "\<exists>c'. writer_op msg l Writer_woken ec c =
      (c', Suspend (Async_write (use_ssl (c_cfg c)) (r_payload (e_req e))) Writer_written)
    \<and> holds_request (c_mpx c') p (mark staged e) (r_payload (e_req e)) \<and> same_client c c'"
  using prepare_holds_request [OF assms(1,2)] assms(3)
  by (auto simp: writer_loop_def same_client_def holds_request_def)

lemma written_waits:
  assumes "holds_request (c_mpx c) p e buf" and "is_staged e" and "r_expected_responses (e_req e) \<noteq> 0" and "c_open c"
  shows "\<exists>c'. writer_op msg l Writer_written None c = (c', Suspend Writer_wait Writer_woken)
    \<and> holds_request (c_mpx c') p (mark written e) [] \<and> same_client c c'"
proof -
  note h = commit_holds_request [OF assms(1-3)]
  have "is_written (mark written e)" by (simp add: is_written_def mark_def)
  from prepare_nothing [OF h this] assms(4) show ?thesis
    by (auto simp: writer_loop_def same_client_def do_call_def Let_def)
qed

lemma replies_read:
  assumes "holds_request (c_mpx c) p e []" and "c_open c" and "\<forall>ks. try_send ks" and "is_written e"
    and "ms \<noteq> []" and "length ms = unat (e_remaining_responses e)" and "e_remaining_responses e = r_expected_responses (e_req e)"
    and "list_all (\<lambda>t. \<not> is_push t) ms" and "list_all (wf_resp 0) ms" and "length (concat (map encode ms)) < 2 ^ 64"
    and "feed_replies (e_adapter e) 0 (c_responses c) ms = Inr (s', None)"
  shows "\<exists>c'. reader_op msg l try_send Reader_appended None (concat (map encode ms)) c = Inr (reader_append c')
    \<and> m_heap (c_mpx c') p = completed e ms \<and> resting c' \<and> c_responses c' = s' \<and> c_execs c' = c_execs c"
proof -
  let ?data = "concat (map encode ms)"
  let ?c = "do_call (Log (on_read msg l None (length ?data))) (c\<lparr>c_mpx := (c_mpx c)\<lparr>m_read_buffer := ?data\<rparr>\<rparr>)"
  have h: "m_reqs (c_mpx c) = [p]" "m_heap (c_mpx c) p = e" "m_read_buffer (c_mpx c) = []" "idle (c_mpx c)"
      "m_write_buffer (c_mpx c) = []"
    using assms(1) by (simp_all add: holds_request_def)
  have "dispatch (m_receive_adapter (c_mpx c)) (m_heap (c_mpx c)) [p] (c_responses c) (ms @ []) =
      dispatch (m_receive_adapter (c_mpx c)) ((m_heap (c_mpx c))(p := completed (m_heap (c_mpx c) p) ms)) [] s' []"
    by (rule dispatch_request) (use assms h in \<open>simp_all add: is_waiting_def is_written_def\<close>)
  then have "dispatch (m_receive_adapter (c_mpx c)) (m_heap (c_mpx c)) (m_reqs (c_mpx c)) (c_responses c) ms =
      Some ((m_heap (c_mpx c))(p := completed e ms), [], s')" by (simp add: h)
  then have "\<exists>c'. reader_commit msg l try_send ?c =
      (if [] = ([] :: string) then Inr (reader_append c') else reader_commit msg l try_send c')
    \<and> idle (c_mpx c') \<and> m_heap (c_mpx c') = (m_heap (c_mpx c))(p := completed e ms) \<and> m_reqs (c_mpx c') = []
    \<and> m_read_buffer (c_mpx c') = [] \<and> c_responses c' = s' \<and> c_open c' \<and> c_execs c' = c_execs ?c
    \<and> m_write_buffer (c_mpx c') = m_write_buffer (c_mpx ?c)
    \<and> c_calls c' = c_calls ?c @ map (\<lambda>t. Try_send (length (encode t))) (filter is_push ms)"
    by (intro reader_commit_dispatch) (use assms h in \<open>simp_all add: idle_def\<close>)
  moreover have "reader_op msg l try_send Reader_appended None ?data c = reader_commit msg l try_send ?c"
    using assms(2) h(3) by (simp add: Let_def)
  ultimately show ?thesis using h(5) by (auto simp: resting_def)
qed

lemma resume_completed:
  assumes "c_execs c p = Some Exec_notified" and "m_heap (c_mpx c) p = completed e ms" and "e_ec e = None" and "e_read_size e = 0"
  shows "\<exists>c'. resume_exec p {} c = Inr (c', Some (None, of_nat (length (concat (map encode ms))))) 
    \<and> c_responses c' = c_responses c \<and> resting c' = resting c"
  using assms by (simp add: resting_def resume_exec_def is_cancelled_def completed_def Let_def)

section \<open>Properties\<close>

lemma adapt_response_new:
  "adapt_response pf Ts (map (new_slot pf) Ts) =
     Inr (map (new_slot pf) Ts, any_static (positions (map (result_adapter pf) Ts)))"
  by (simp add: adapt_response_def assigner_id internal_adapt_new)

text \<open>The part of the run in which the request is written.\<close>

lemma request_written:
  assumes "at_rest s" and "r_expected_responses req \<le> supported_response_size A" and "r_expected_responses req \<noteq> 0"
  defines "p \<equiv> m_brk (c_mpx (s_conn s))"
  shows "\<exists>c1 s2 g2 s3 g3. async_exec req A (s_conn s) = Inr (c1, p)
    \<and> sys_step msg try_send (s\<lparr>s_conn := c1\<rparr>) (Ev_woken ec) s2 \<and> s_group s2 = Some g2
    \<and> g_writer g2 = Suspend (Async_write (use_ssl (c_cfg (s_conn s))) (r_payload req)) Writer_written
    \<and> sys_step msg try_send s2 (Ev_written None) s3 \<and> s_group s3 = Some g3 \<and> (\<exists>io. g_reader g3 = Suspend io Reader_appended)
    \<and> g_writer g3 = Suspend Writer_wait Writer_woken
    \<and> holds_request (c_mpx (s_conn s3)) p (mark written (new_elem req (adapt_fn A))) []
    \<and> same_client ((s_conn s)\<lparr>c_execs := (c_execs (s_conn s))(p \<mapsto> Exec_notified)\<rparr>) (s_conn s3)"
proof -
  let ?e = "new_elem req (adapt_fn A)"
  obtain g io where g: "s_group s = Some g" "g_writer g = Suspend Writer_wait Writer_woken" "g_reader g = Suspend io Reader_appended"
    and c: "c_open (s_conn s)" "m_reqs (c_mpx (s_conn s)) = []" "m_write_buffer (c_mpx (s_conn s)) = []"
      "m_read_buffer (c_mpx (s_conn s)) = []" "idle (c_mpx (s_conn s))"
    using assms(1) by (auto simp: at_rest_def resting_def split: option.splits)
  obtain c1 where c1: "async_exec req A (s_conn s) = Inr (c1, p)" "holds_request (c_mpx c1) p ?e []"
      "same_client ((s_conn s)\<lparr>c_execs := (c_execs (s_conn s))(p \<mapsto> Exec_notified)\<rparr>) c1"
    using async_exec_queues [OF c(2-5,1) assms(2)] p_def by blast
  then have o1: "c_open c1" "c_cfg c1 = c_cfg (s_conn s)" using c(1) by (simp_all add: same_client_def)
  have "is_waiting ?e" by (simp add: new_elem_def is_waiting_def)
  from woken_writes [OF c1(2) this o1(1), of msg "s_logger s" ec] obtain c2 where
    c2: "writer_op msg (s_logger s) Writer_woken ec c1 =
        (c2, Suspend (Async_write (use_ssl (c_cfg (s_conn s))) (r_payload req)) Writer_written)"
      "holds_request (c_mpx c2) p (mark staged ?e) (r_payload req)" "same_client c1 c2"
    using o1(2) by (auto simp: new_elem_def)
  then have o2: "c_open c2" using o1(1) by (simp add: same_client_def)
  have "is_staged (mark staged ?e)" "r_expected_responses (e_req (mark staged ?e)) \<noteq> 0"
    using assms(3) by (simp_all add: is_staged_def mark_def new_elem_def)
  from written_waits [OF c2(2) this o2, of msg "s_logger s"] obtain c3 where
    c3: "writer_op msg (s_logger s) Writer_written None c2 = (c3, Suspend Writer_wait Writer_woken)"
      "holds_request (c_mpx c3) p (mark written ?e) []" "same_client c2 c3"
    by (auto simp: mark_def)
  let ?g2 = "g\<lparr>g_writer := Suspend (Async_write (use_ssl (c_cfg (s_conn s))) (r_payload req)) Writer_written\<rparr>"
  let ?s1 = "s\<lparr>s_conn := c1\<rparr>" and ?s2 = "s\<lparr>s_conn := c2, s_group := Some ?g2, s_write_open := c_open c2\<rparr>"
  let ?s3 = "s\<lparr>s_conn := c3, s_group := Some (?g2\<lparr>g_writer := Suspend Writer_wait Writer_woken\<rparr>), s_write_open := c_open c3\<rparr>"
  have st2: "sys_step msg try_send ?s1 (Ev_woken ec) ?s2"
    using sys_step.woken [of ?s1 g msg ec c2] g c2(1) by simp
  have st3: "sys_step msg try_send ?s2 (Ev_written None) ?s3"
    using sys_step.wrote [of ?s2 ?g2 _ _ None msg c3] c3(1) o2 by simp
  have same: "same_client ((s_conn s)\<lparr>c_execs := (c_execs (s_conn s))(p \<mapsto> Exec_notified)\<rparr>) c3"
    using c1(3) c2(3) c3(3) by (blast intro: same_client_trans)
  show ?thesis
    by (rule exI [of _ c1], rule exI [of _ ?s2], rule exI [of _ ?g2], rule exI [of _ ?s3])
      (use c1(1) st2 st3 same c3(2) g(3) in simp)
qed

text \<open>A request with any adapter that accepts the replies.\<close>

lemma exec_answered:
  assumes "at_rest s" and "\<forall>ks. try_send ks" and "r_expected_responses req \<le> supported_response_size A"
    and "r_expected_responses req = of_nat (length ms)" and "ms \<noteq> []"
    and "list_all (wf_resp 0) ms" and "list_all (\<lambda>t. \<not> is_push t) ms" and "length (concat (map encode ms)) < 2 ^ 64"
    and "feed_replies (adapt_fn A) 0 (c_responses (s_conn s)) ms = Inr (r, None)"
  shows "\<exists>c p s'. async_exec req A (s_conn s) = Inr (c, p)
    \<and> answered msg try_send ec s c p (r_payload req) (concat (map encode ms)) s' \<and> c_responses (s_conn s') = r \<and> at_rest s'"
proof -
  let ?p = "m_brk (c_mpx (s_conn s))" and ?c = "s_conn s" and ?e = "mark written (new_elem req (adapt_fn A))"
  have len: "length ms < 2 ^ 64" using length_concat_encode [of ms] assms(8) by simp
  then have ne: "r_expected_responses req \<noteq> 0" using of_nat_size_t_eq_iff [of "length ms" 0] assms(5) by (simp add: assms(4))
  have e: "is_written ?e" "e_remaining_responses ?e = r_expected_responses (e_req ?e)" "e_adapter ?e = adapt_fn A"
    "e_ec ?e = None" "e_read_size ?e = 0" "e_req ?e = req" by (simp_all add: mark_def is_written_def new_elem_def)
  from request_written [OF assms(1,3) ne, of msg try_send ec] obtain c1 s2 g2 s3 g3 io where
    w: "async_exec req A ?c = Inr (c1, ?p)" "sys_step msg try_send (s\<lparr>s_conn := c1\<rparr>) (Ev_woken ec) s2"
      "s_group s2 = Some g2" "g_writer g2 = Suspend (Async_write (use_ssl (c_cfg ?c)) (r_payload req)) Writer_written"
      "sys_step msg try_send s2 (Ev_written None) s3" "s_group s3 = Some g3" "g_reader g3 = Suspend io Reader_appended"
      "g_writer g3 = Suspend Writer_wait Writer_woken" "holds_request (c_mpx (s_conn s3)) ?p ?e []"
      "same_client (?c\<lparr>c_execs := (c_execs ?c)(?p \<mapsto> Exec_notified)\<rparr>) (s_conn s3)"
    by blast
  have c3: "c_open (s_conn s3)" "c_responses (s_conn s3) = c_responses ?c" "c_execs (s_conn s3) ?p = Some Exec_notified"
    using w(10) assms(1) by (simp_all add: same_client_def at_rest_def resting_def)
  have n: "length ms = unat (e_remaining_responses ?e)" using len by (simp only: e assms(4)) (simp add: unat_of_nat_size_t)
  have feed: "feed_replies (e_adapter ?e) 0 (c_responses (s_conn s3)) ms = Inr (r, None)" using assms(9) by (simp only: e c3(2))
  from replies_read [OF w(9) c3(1) assms(2) e(1) assms(5) n e(2) assms(7,6,8) feed, of msg "s_logger s3"] obtain c4 where
    c4: "reader_op msg (s_logger s3) try_send Reader_appended None (concat (map encode ms)) (s_conn s3) = Inr (reader_append c4)"
      "m_heap (c_mpx c4) ?p = completed ?e ms" "resting c4" "c_responses c4 = r" "c_execs c4 = c_execs (s_conn s3)"
    by blast
  from resume_completed [OF _ c4(2) e(4,5)] c4(5) c3(3) obtain c5 where
    c5: "resume_exec ?p {} c4 = Inr (c5, Some (None, of_nat (length (concat (map encode ms)))))" "c_responses c5 = c_responses c4"
      "resting c5 = resting c4" by auto
  let ?s4 = "s3\<lparr>s_conn := c4, s_group := Some (g3\<lparr>g_reader := snd (reader_append c4)\<rparr>)\<rparr>"
  have "sys_step msg try_send s3 (Ev_read None (concat (map encode ms))) ?s4"
    using sys_step.read [OF w(6,7), of msg try_send None _ c4] c4(1) by (simp add: reader_append_def)
  with w(5) have "steps (sys_step msg try_send) s2 [Ev_written None, Ev_read None (concat (map encode ms))] ?s4"
    by (auto simp: steps_simps)
  with w(2-4) c5(1) have "answered msg try_send ec s c1 ?p (r_payload req) (concat (map encode ms)) (?s4\<lparr>s_conn := c5\<rparr>)"
    unfolding answered_def by (intro exI [of _ s2] exI [of _ g2] exI [of _ ?s4] exI [of _ c5]) simp
  moreover have "at_rest (?s4\<lparr>s_conn := c5\<rparr>)" using w(8) c4(3) c5(3) by (simp add: at_rest_def reader_append_def)
  ultimately show ?thesis using w(1) c4(4) c5(2) by (intro exI [of _ c1] exI [of _ ?p] exI [of _ "?s4\<lparr>s_conn := c5\<rparr>"]) simp
qed

lemma exec_completes:
  assumes "at_rest s" and "\<forall>ks. try_send ks" and "user_resp (c_responses (s_conn s)) = map (new_slot pf) Ts"
    and "represents req cmds" and "length (filter expects_response cmds) = length ms" and "ms \<noteq> []"
    and "decode_replies pf Ts ms = Some rs" and "list_all (wf_resp 0) ms" and "list_all (\<lambda>t. \<not> is_push t) ms"
    and "length (concat (map encode ms)) < 2 ^ 64"
  shows "\<exists>c p s'. async_exec_response pf Ts req (s_conn s) = Inr (c, p)
    \<and> answered msg try_send ec s c p (concat (map command_text cmds)) (concat (map encode ms)) s'
    \<and> those (map slot_value (user_resp (c_responses (s_conn s')))) = Some rs
    \<and> list_all2 slot_ok Ts (user_resp (c_responses (s_conn s'))) \<and> at_rest s'"
proof -
  let ?A = "any_static (positions (map (result_adapter pf) Ts))" and ?c = "s_conn s"
  have len: "length Ts = length ms" "length ms < 2 ^ 64"
    using length_decode_replies [OF assms(7)] length_concat_encode [of ms] assms(10) by simp_all
  have req: "r_expected_responses req = of_nat (length ms)" "r_payload req = concat (map command_text cmds)"
    using assms(4,5) by (simp_all add: represents_def)
  have size: "r_expected_responses req \<le> supported_response_size (user_adapter ?A)"
    by (simp add: user_adapter_def any_static_def req(1) len(1))
  have exec: "async_exec_response pf Ts req ?c = async_exec req (user_adapter ?A) ?c"
    unfolding async_exec_response_def assms(3) adapt_response_new by (simp flip: assms(3))
  obtain ss where ss: "feed_replies (adapt_fn ?A) 0 (map (new_slot pf) Ts) ms = Inr (ss, None)" "those (map slot_value ss) = Some rs"
      "list_all2 slot_ok Ts ss"
    using feed_replies_typed [OF assms(7,8,10), of "[]" "[]"] len by (auto simp: any_static_def)
  from feed_replies_user_adapter [of ?A 0 "c_responses ?c", unfolded assms(3), OF ss(1)]
  have "feed_replies (adapt_fn (user_adapter ?A)) 0 (c_responses ?c) ms = Inr ((c_responses ?c)\<lparr>user_resp := ss\<rparr>, None)" .
  from exec_answered [OF assms(1,2) size req(1) assms(6,8,9,10) this, of msg ec] obtain c p s' where
    "async_exec req (user_adapter ?A) ?c = Inr (c, p)" "answered msg try_send ec s c p (r_payload req) (concat (map encode ms)) s'"
    "c_responses (s_conn s') = (c_responses ?c)\<lparr>user_resp := ss\<rparr>" "at_rest s'" by blast
  with ss(2,3) show ?thesis by (intro exI [of _ c] exI [of _ p] exI [of _ s']) (simp add: exec req(2))
qed

text \<open>
  C1: a request with a typed response, end to end.  On a connection at rest \<open>async_exec\<close> with a
  request for the commands \<open>cmds\<close> and a new \<^verbatim>\<open>response<Ts...>\<close> queues the request and wakes the
  writer, which writes exactly the text of the commands.  When the server has sent the replies \<open>ms\<close>,
  whose values for the types \<open>Ts\<close> are \<open>rs\<close>, the operation completes without an error and with the
  number of bytes of the replies, the elements of the response have these values and types, and
  the connection is at rest again.
\<close>

theorem exec_round_trip:
  assumes "at_rest s" and "\<forall>ks. try_send ks" and "user_resp (c_responses (s_conn s)) = map (new_slot pf) Ts"
    and "represents req cmds" and "length (filter expects_response cmds) = length ms" and "ms \<noteq> []"
    and "decode_replies pf Ts ms = Some rs" and "list_all (wf_resp 0) ms" and "list_all (\<lambda>t. \<not> is_push t) ms"
    and "length (concat (map encode ms)) < 2 ^ 64"
  shows "\<exists>c p s'. async_exec_response pf Ts req (s_conn s) = Inr (c, p)
    \<and> answered msg try_send ec s c p (concat (map command_text cmds)) (concat (map encode ms)) s'
    \<and> those (map slot_value (user_resp (c_responses (s_conn s')))) = Some rs
    \<and> list_all2 slot_ok Ts (user_resp (c_responses (s_conn s'))) \<and> at_rest s'"
  by (rule exec_completes [OF assms])

text \<open>A response object that is used again, if its adapter can be constructed, is reset to a new one.\<close>

lemma exec_reuses:
  assumes "at_rest s" and "\<forall>ks. try_send ks"
    and "adapt_response pf Ts (user_resp (c_responses (s_conn s))) = adapt_response pf Ts (map (new_slot pf) Ts)"
    and "job_ok pf (Ts, req, cmds, ms, rs)"
  shows "\<exists>s'. awaits msg try_send ec (erased_async_exec_response pf Ts req) s
      (concat (map command_text cmds)) (concat (map encode ms)) s'
    \<and> those (map slot_value (user_resp (c_responses (s_conn s')))) = Some rs
    \<and> list_all2 slot_ok Ts (user_resp (c_responses (s_conn s'))) \<and> at_rest s'"
proof -
  let ?c = "(s_conn s)\<lparr>c_responses := (c_responses (s_conn s))\<lparr>user_resp := map (new_slot pf) Ts\<rparr>\<rparr>"
  have rest: "at_rest (s\<lparr>s_conn := ?c\<rparr>)" "user_resp (c_responses (s_conn (s\<lparr>s_conn := ?c\<rparr>))) = map (new_slot pf) Ts"
    using assms(1) by (simp_all add: at_rest_def resting_def)
  have job: "represents req cmds" "length (filter expects_response cmds) = length ms" "ms \<noteq> []" "decode_replies pf Ts ms = Some rs"
    "list_all (wf_resp 0) ms" "list_all (\<lambda>t. \<not> is_push t) ms" "length (concat (map encode ms)) < 2 ^ 64"
    using assms(4) by simp_all
  from exec_completes [OF rest(1) assms(2) rest(2) job, of msg ec] obtain c p s' where
    run: "async_exec_response pf Ts req ?c = Inr (c, p)"
      "answered msg try_send ec (s\<lparr>s_conn := ?c\<rparr>) c p (concat (map command_text cmds)) (concat (map encode ms)) s'"
      "those (map slot_value (user_resp (c_responses (s_conn s')))) = Some rs"
      "list_all2 slot_ok Ts (user_resp (c_responses (s_conn s')))" "at_rest s'" by auto
  have "erased_async_exec_response pf Ts req \<lparr>impl = s_conn s\<rparr> = Inr (\<lparr>impl = c\<rparr>, p)"
    using run(1) by (simp add: async_exec_response_def erased_async_exec_response_def erased_async_exec_def async_exec_impl_def
        assms(3) adapt_response_new Let_def)
  moreover have "answered msg try_send ec s c p (concat (map command_text cmds)) (concat (map encode ms)) s'"
    using run(2) by (simp add: answered_def)
  ultimately show ?thesis using run(3-5) by (auto simp: awaits_def)
qed

text \<open>A response object that is declared for the execution.\<close>

lemma declared_exec:
  assumes "at_rest s" and "\<forall>ks. try_send ks" and "job_ok pf (Ts, req, cmds, ms, rs)"
  shows "\<exists>s'. awaits msg try_send ec (\<lambda>e. erased_async_exec_response pf Ts req (declare_response pf Ts e)) s
      (concat (map command_text cmds)) (concat (map encode ms)) s'
    \<and> those (map slot_value (user_resp (c_responses (s_conn s')))) = Some rs
    \<and> list_all2 slot_ok Ts (user_resp (c_responses (s_conn s'))) \<and> at_rest s'"
proof -
  let ?c = "impl (declare_response pf Ts \<lparr>impl = s_conn s\<rparr>)"
  have c: "at_rest (s\<lparr>s_conn := ?c\<rparr>)" "user_resp (c_responses ?c) = map (new_slot pf) Ts" "c_cfg ?c = c_cfg (s_conn s)"
      "\<lparr>impl = ?c\<rparr> = declare_response pf Ts \<lparr>impl = s_conn s\<rparr>"
    using assms(1) by (simp_all add: at_rest_def resting_def declare_response_def Let_def)
  from exec_reuses [OF c(1) assms(2) _ assms(3), of msg ec] c(2-4) show ?thesis
    by (simp add: awaits_def answered_def)
qed

text \<open>
  C19: a program that executes any number of requests with typed responses, one after the other, on a
  connection at rest.  Every one of them is written, answered and completed; every response holds
  the values of its own replies; and at the end the connection is at rest again.
\<close>

theorem session_completes:
  assumes "at_rest s" and "\<forall>ks. try_send ks" and "list_all (job_ok pf) jobs"
  shows "\<exists>s'. session msg try_send pf s jobs s' \<and> at_rest s'"
  using assms(1,3)
proof (induction jobs arbitrary: s)
  case Nil
  then show ?case by (auto intro: session_nil)
next
  case (Cons job jobs)
  obtain Ts req cmds ms rs where job: "job = (Ts, req, cmds, ms, rs)" by (cases job)
  from Cons.prems(2) have "job_ok pf (Ts, req, cmds, ms, rs)" "list_all (job_ok pf) jobs" by (simp_all add: job)
  with declared_exec [OF Cons.prems(1) assms(2), of pf Ts req cmds ms rs msg None] Cons.IH
  show ?case unfolding job by (blast intro: session_cons)
qed

text \<open>A connection at rest, as an example.\<close>

definition resting_system :: "'u connection \<Rightarrow> 'u system" where
  "resting_system c =
     \<lparr>s_conn = c\<lparr>c_open := True\<rparr>, s_logger = sample_logger, s_run = Some (Suspend Parallel_group Run_group_ended),
      s_group = Some \<lparr>g_hello = Complete None, g_ping = Complete None, g_check = Complete None,
        g_reader = snd (reader_append c), g_writer = Suspend Writer_wait Writer_woken\<rparr>,
      s_write_open = True\<rparr>"

lemma resting_connection:
  obtains c0 where "new_connection (\<lambda>_. new_elem (new_request default_request_config) ignore_adapter) user = Inr c0"
    and "at_rest (resting_system c0)" and "user_resp (c_responses (s_conn (resting_system c0))) = user"
    and "c_cfg c0 = default_config"
proof -
  obtain c0 where c0: "new_connection (\<lambda>_. new_elem (new_request default_request_config) ignore_adapter) user = Inr c0"
      "c_mpx c0 = set_receive_response (new_multiplexer ignore (\<lambda>_. new_elem (new_request default_request_config) ignore_adapter)) ignore_adapter"
      "user_resp (c_responses c0) = user" "c_cfg c0 = default_config"
    by (simp add: new_connection_def new_health_checker_def push_eq)
  then show thesis
    by (intro that [of c0]) (simp_all add: at_rest_def resting_def resting_system_def reader_append_def set_receive_response_def
        new_multiplexer_def idle_def)
qed

lemma pong_example:
  "decode_replies plain_platform [ping_ty] [Simple simple_string_t ''PONG''] = Some [Bulk_reply (Plain_val (String_val ''PONG''))]"
  "wf_resp 0 (Simple simple_string_t ''PONG'')" "\<not> is_push (Simple simple_string_t ''PONG'')"
  "length (encode (Simple simple_string_t ''PONG'')) = 7" "expects_response (''PING'', [])"
proof -
  show "decode_replies plain_platform [ping_ty] [Simple simple_string_t ''PONG''] = Some [Bulk_reply (Plain_val (String_val ''PONG''))]"
    by (simp add: ping_ty_def is_null_def)
qed code_simp+

theorem exec_round_trip_witness:
  "\<exists>c0 req c p s'. new_connection (\<lambda>_. new_elem (new_request default_request_config) ignore_adapter)
        (map (new_slot plain_platform) [ping_ty]) = Inr c0
    \<and> push no_user_type (new_request default_request_config) ''PING'' [] = Inr req
    \<and> async_exec_response plain_platform [ping_ty] req (s_conn (resting_system c0)) = Inr (c, p)
    \<and> answered silent accepting None (resting_system c0) c p (command_text (''PING'', [])) (encode (Simple simple_string_t ''PONG'')) s'
    \<and> those (map slot_value (user_resp (c_responses (s_conn s')))) = Some [Bulk_reply (Plain_val (String_val ''PONG''))]"
proof -
  obtain c0 where c0: "new_connection (\<lambda>_. new_elem (new_request default_request_config) ignore_adapter)
        (map (new_slot plain_platform) [ping_ty]) = Inr c0"
      "at_rest (resting_system c0)" "user_resp (c_responses (s_conn (resting_system c0))) = map (new_slot plain_platform) [ping_ty]"
    by (rule resting_connection)
  obtain req where req: "push no_user_type (new_request default_request_config) ''PING'' [] = Inr req"
      "represents req ([] @ [(''PING'', [])])"
    by (rule push_strings [OF represents_new, of "[]" no_user_type]) auto
  have "length (filter expects_response [(''PING'', [])]) = length [Simple simple_string_t ''PONG'']"
    using pong_example(5) by simp
  from exec_round_trip [OF c0(2) _ c0(3) req(2) [unfolded append.simps] this _ pong_example(1),
      where try_send = accepting and msg = silent and ec = None] pong_example(2-4) c0(1) req(1)
  show ?thesis by fastforce
qed

definition ping_job :: "request \<Rightarrow> unit job" where
  "ping_job req = ([ping_ty], req, [(''PING'', [])], [Simple simple_string_t ''PONG''], [Bulk_reply (Plain_val (String_val ''PONG''))])"

theorem session_completes_witness:
  "\<exists>c0 req s'. new_connection (\<lambda>_. new_elem (new_request default_request_config) ignore_adapter) [] = Inr c0
    \<and> push no_user_type (new_request default_request_config) ''PING'' [] = Inr req
    \<and> session silent accepting plain_platform (resting_system c0) [ping_job req, ping_job req] s' \<and> at_rest s'"
proof -
  obtain c0 where c0: "new_connection (\<lambda>_. new_elem (new_request default_request_config) ignore_adapter) ([] :: unit slot list) = Inr c0"
      "at_rest (resting_system c0)" by (rule resting_connection)
  obtain req where req: "push no_user_type (new_request default_request_config) ''PING'' [] = Inr req"
      "represents req ([] @ [(''PING'', [])])"
    by (rule push_strings [OF represents_new, of "[]" no_user_type]) auto
  have "job_ok plain_platform (ping_job req)" using req(2) pong_example by (simp add: ping_job_def)
  with session_completes [OF c0(2), of accepting plain_platform "[ping_job req, ping_job req]" silent] c0(1) req(1)
  show ?thesis by auto
qed

end
