(* ===== verification/Containers.thy ===== *)
theory Containers
  imports Execution "HOL-Library.List_Lexorder" "HOL-Library.Char_ord"
begin

text \<open>
  The example \<^verbatim>\<open>cpp20_containers.cpp\<close>: it stores the contents of containers and reads them back, alone
  and in a transaction.  Output is the text that is printed.  A \<^verbatim>\<open>std::map\<close> is printed in the order of its
  keys, which compare as sequences of unsigned characters.
\<close>

section \<open>Definitions\<close>

subsection \<open>Requests and responses\<close>

definition store_request :: "fault + request" where
  "store_request =
     andThen (push_range_key_container no_user_type (new_request default_request_config) ''RPUSH'' ''rpush-key''
       (map (\<lambda>i. I_one (A_int i)) [1, 2, 3, 4, 5, 6])) (\<lambda>req.
     andThen (push_range_key_container no_user_type req ''HSET'' ''hset-key''
       [I_pair (A_str ''key1'') (A_str ''value1''), I_pair (A_str ''key2'') (A_str ''value2''),
        I_pair (A_str ''key3'') (A_str ''value3'')]) (\<lambda>req.
     push no_user_type req ''SET'' [A_str ''key'', A_str ''value'']))"

definition store :: "'u erased_connection \<Rightarrow> fault + 'u erased_connection \<times> ptr" where
  "store e = andThen store_request (\<lambda>req. erased_async_exec req any_ignore e)"

definition hgetall_tys :: "result_ty list" where
  "hgetall_tys = [Result_ty (Map_ty string_ty string_ty)]"

definition hgetall :: "'d platform \<Rightarrow> 'd slot list erased_connection \<Rightarrow> fault + 'd slot list erased_connection \<times> ptr" where
  "hgetall pf e =
     andThen (push no_user_type (new_request default_request_config) ''HGETALL'' [A_str ''hset-key'']) (\<lambda>req.
       erased_async_exec_response pf hgetall_tys req (declare_response pf hgetall_tys e))"

definition mget_tys :: "result_ty list" where
  "mget_tys = [Result_ty (Vector_ty (Optional String_ty))]"

definition mget :: "'d platform \<Rightarrow> 'd slot list erased_connection \<Rightarrow> fault + 'd slot list erased_connection \<times> ptr" where
  "mget pf e =
     andThen (push no_user_type (new_request default_request_config) ''MGET'' [A_str ''key'', A_str ''non-existing-key'']) (\<lambda>req.
       erased_async_exec_response pf mget_tys req (declare_response pf mget_tys e))"

definition transaction_request :: "fault + request" where
  "transaction_request =
     andThen (push no_user_type (new_request default_request_config) ''MULTI'' []) (\<lambda>req.
     andThen (push no_user_type req ''LRANGE'' [A_str ''rpush-key'', A_int 0, A_int (-1)]) (\<lambda>req.
     andThen (push no_user_type req ''HGETALL'' [A_str ''hset-key'']) (\<lambda>req.
     andThen (push no_user_type req ''MGET'' [A_str ''key'', A_str ''non-existing-key'']) (\<lambda>req.
     push no_user_type req ''EXEC'' []))))"

definition transaction_tys :: "result_ty list" where
  "transaction_tys =
     [Ignore_ty, Ignore_ty, Ignore_ty, Ignore_ty,
      Tuple_ty [Optional_ty (Vector_ty (Plain (Int_ty True 32))), Optional_ty (Map_ty string_ty string_ty),
        Optional_ty (Vector_ty (Optional String_ty))]]"

definition transaction :: "'d platform \<Rightarrow> 'd slot list erased_connection \<Rightarrow> fault + 'd slot list erased_connection \<times> ptr" where
  "transaction pf e =
     andThen transaction_request (\<lambda>req.
       erased_async_exec_response pf transaction_tys req (declare_response pf transaction_tys e))"


subsection \<open>Output\<close>

fun print_optional :: "string option \<Rightarrow> string" where
  "print_optional (Some s) = s"
| "print_optional None = ''null''"

definition print_map :: "(string \<rightharpoonup> string) \<Rightarrow> string" where
  "print_map cont = concat (map (\<lambda>k. k @ '': '' @ the (cont k) @ newline) (sorted_list_of_set (dom cont)))"

definition print_vector :: "string list \<Rightarrow> string" where
  "print_vector cont = concat (map (\<lambda>e. e @ '' '') cont) @ newline"

text \<open>The text of an element of a vector, and the contents of a map of strings.\<close>

fun element_text :: "'d bulk \<Rightarrow> string option" where
  "element_text (Plain_val (Int_val i)) = Some (to_string_int i)"
| "element_text (Optional_val None) = Some (print_optional None)"
| "element_text (Optional_val (Some (String_val s))) = Some (print_optional (Some s))"
| "element_text _ = None"

definition string_entries :: "('d bulk \<rightharpoonup> 'd bulk) \<Rightarrow> string \<rightharpoonup> string" where
  "string_entries m k = (case m (Plain_val (String_val k)) of Some (Plain_val (String_val v)) \<Rightarrow> Some v | _ \<Rightarrow> None)"

text \<open>\<open>value()\<close> throws on a result that holds an error and on an empty optional.\<close>

definition print_slot :: "'d slot \<Rightarrow> fault + string" where
  "print_slot x =
     (case slot_value x of
        None \<Rightarrow> Inl Bad_Value_Access
      | Some Null_reply \<Rightarrow> Inl Bad_Value_Access
      | Some (Map_reply m) \<Rightarrow> Inr (print_map (string_entries m))
      | Some (Sequence_reply vs) \<Rightarrow>
          (case those (map element_text vs) of None \<Rightarrow> Inl Ill_Typed | Some ts \<Rightarrow> Inr (print_vector ts))
      | _ \<Rightarrow> Inl Ill_Typed)"

text \<open>What \<open>hgetall\<close> and \<open>mget\<close> print of their response, and what \<open>transaction\<close> does.\<close>

definition print_first :: "'d slot list \<Rightarrow> fault + string" where
  "print_first resp = (case resp of [x] \<Rightarrow> print_slot x | _ \<Rightarrow> Inl Ill_Typed)"

definition print_transaction :: "'d slot list \<Rightarrow> fault + string" where
  "print_transaction resp =
     (case resp of
        [_, _, _, _, Tuple_slot i n [x, y, z]] \<Rightarrow>
          andThen (print_slot x) (\<lambda>a. andThen (print_slot y) (\<lambda>b. andThen (print_slot z) (\<lambda>c. Inr (a @ b @ c))))
      | _ \<Rightarrow> Inl Ill_Typed)"

subsection \<open>The program\<close>

text \<open>
  \<open>co_main\<close> after it has started \<open>async_run\<close>, with the texts that are written and answered for each of the
  four operations it awaits, and the text it prints.
\<close>

inductive containers_main ::
  "messages \<Rightarrow> (call list \<Rightarrow> bool) \<Rightarrow> 'd platform \<Rightarrow> 'd slot list system \<Rightarrow> (string \<times> string) list \<Rightarrow> 'd slot list system
    \<Rightarrow> string \<Rightarrow> bool"
  for msg :: messages and try_send :: "call list \<Rightarrow> bool" and pf :: "'d platform" where
  "awaits msg try_send ec1 store s o1 i1 s1 \<Longrightarrow>
   awaits msg try_send ec2 (transaction pf) s1 o2 i2 s2 \<Longrightarrow> print_transaction (user_resp (c_responses (s_conn s2))) = Inr t2 \<Longrightarrow>
   awaits msg try_send ec3 (hgetall pf) s2 o3 i3 s3 \<Longrightarrow> print_first (user_resp (c_responses (s_conn s3))) = Inr t3 \<Longrightarrow>
   awaits msg try_send ec4 (mget pf) s3 o4 i4 s4 \<Longrightarrow> print_first (user_resp (c_responses (s_conn s4))) = Inr t4 \<Longrightarrow>
   s' = s4\<lparr>s_conn := impl (erased_cancel op_all \<lparr>impl = s_conn s4\<rparr>)\<rparr> \<Longrightarrow>
   containers_main msg try_send pf s [(o1, i1), (o2, i2), (o3, i3), (o4, i4)] s' (t2 @ t3 @ t4)"

section \<open>Specification\<close>

text \<open>The replies of Redis to the commands of the transaction.\<close>

definition int_array :: "int list \<Rightarrow> resp" where
  "int_array vec = Aggr array_t (map (\<lambda>i. Bulk blob_string_t (to_string_int i)) vec)"

definition string_map :: "(string \<times> string) list \<Rightarrow> resp" where
  "string_map kvs = Aggr map_t (concat (map (\<lambda>(k, v). [Bulk blob_string_t k, Bulk blob_string_t v]) kvs))"

fun optional_string :: "string option \<Rightarrow> resp" where
  "optional_string None = Simple null_t []"
| "optional_string (Some s) = Bulk blob_string_t s"

definition transaction_replies :: "int list \<Rightarrow> (string \<times> string) list \<Rightarrow> string option list \<Rightarrow> resp list" where
  "transaction_replies vec kvs strs =
     [status_reply ''OK'', status_reply ''QUEUED'', status_reply ''QUEUED'', status_reply ''QUEUED'',
      Aggr array_t [int_array vec, string_map kvs, Aggr array_t (map optional_string strs)]]"

definition transaction_commands :: "command list" where
  "transaction_commands =
     [(''MULTI'', []), (''LRANGE'', [''rpush-key'', ''0'', ''-1'']), (''HGETALL'', [''hset-key'']),
      (''MGET'', [''key'', ''non-existing-key'']), (''EXEC'', [])]"

text \<open>The value of a map of strings that was read from the given pairs: the last value of a key counts.\<close>

definition map_value :: "(string \<times> string) list \<Rightarrow> 'd reply" where
  "map_value kvs = Map_reply (map_of (rev (map (map_prod (Plain_val \<circ> String_val) (Plain_val \<circ> String_val)) kvs)))"

definition store_list :: "command list" where
  "store_list =
     [(''RPUSH'', ''rpush-key'' # map to_string_int [1, 2, 3, 4, 5, 6]),
      (''HSET'', [''hset-key'', ''key1'', ''value1'', ''key2'', ''value2'', ''key3'', ''value3'']),
      (''SET'', [''key'', ''value''])]"

abbreviation map_text :: "(string \<times> string) list \<Rightarrow> string" where
  "map_text kvs \<equiv> print_map (map_of (rev kvs))"

abbreviation ints_text :: "int list \<Rightarrow> string" where
  "ints_text vec \<equiv> print_vector (map to_string_int vec)"

abbreviation strings_text :: "string option list \<Rightarrow> string" where
  "strings_text strs \<equiv> print_vector (map print_optional strs)"

section \<open>Requests and replies\<close>

lemma decode_bulks_map:
  "(\<And>x. x \<in> set xs \<Longrightarrow> decode_bulk pf b (f x) = Some (g x)) \<Longrightarrow> decode_bulks pf b (map f xs) = Some (map g xs)"
  by (induction xs) (simp_all add: decode_bulks_Cons)

lemma decode_string_pairs:
  "decode_pairs pf string_ty string_ty (concat (map (\<lambda>(k, v). [Bulk blob_string_t k, Bulk blob_string_t v]) kvs)) =
     Some (map (map_prod (Plain_val \<circ> String_val) (Plain_val \<circ> String_val)) kvs)"
  by (induction kvs) auto

lemma decode_int_array:
  assumes "list_all (int_range True 32) vec" and "of_nat (length vec) \<le> vector_max_size pf (Plain (Int_ty True 32))"
  shows "decode_result pf d (Optional_ty (Vector_ty (Plain (Int_ty True 32)))) (int_array vec) =
    Some (Sequence_reply (map (Plain_val \<circ> Int_val) vec))"
proof -
  have "decode_bulks pf (Plain (Int_ty True 32)) (map (\<lambda>i. Bulk blob_string_t (to_string_int i)) vec) =
      Some (map (Plain_val \<circ> Int_val) vec)"
    by (rule decode_bulks_map) (use assms(1) in \<open>auto simp: from_chars_int_to_string int_range_def list_all_iff\<close>)
  with assms(2) show ?thesis by (simp add: int_array_def is_null_def)
qed

lemma decode_string_map:
  "decode_result pf d (Optional_ty (Map_ty string_ty string_ty)) (string_map kvs) =
    Some (Map_reply (map_of (rev (map (map_prod (Plain_val \<circ> String_val) (Plain_val \<circ> String_val)) kvs))))"
  by (simp add: string_map_def is_null_def multiplicity_def decode_string_pairs)

lemma decode_optional_strings:
  assumes "of_nat (length strs) \<le> vector_max_size pf (Optional String_ty)"
  shows "decode_result pf d (Optional_ty (Vector_ty (Optional String_ty))) (Aggr array_t (map optional_string strs)) =
    Some (Sequence_reply (map (Optional_val \<circ> map_option String_val) strs))"
proof -
  have "decode_bulk pf (Optional String_ty) (optional_string x) = Some ((Optional_val \<circ> map_option String_val) x)" for x
    by (cases x) simp_all
  then have "decode_bulks pf (Optional String_ty) (map optional_string strs) =
      Some (map (Optional_val \<circ> map_option String_val) strs)" by (intro decode_bulks_map) simp
  with assms show ?thesis by (simp add: is_null_def)
qed

lemma transaction_flat:
  "is_flat (int_array vec)" "is_flat (string_map kvs)" "is_flat (Aggr array_t (map optional_string strs))"
proof -
  have "is_leaf (optional_string x)" for x by (cases x) simp_all
  then show "is_flat (Aggr array_t (map optional_string strs))" by (simp add: multiplicity_def list_all_iff)
  have "2 dvd length (concat (map (\<lambda>(k, v). [Bulk blob_string_t k, Bulk blob_string_t v]) kvs))"
    by (induction kvs) auto
  then show "is_flat (string_map kvs)" by (auto simp: string_map_def multiplicity_def list_all_iff)
  show "is_flat (int_array vec)" by (simp add: int_array_def multiplicity_def list_all_iff)
qed

lemma transaction_represents:
  obtains req where "transaction_request = Inr req" and "represents req transaction_commands"
proof -
  let ?p = "\<lambda>req cmd args. check_cmd (req\<lparr>r_payload := r_payload req @ command_text (cmd, map (arg_text no_user_type) args)\<rparr>) cmd"
  have rep: "represents req cmds \<Longrightarrow> represents (?p req cmd args) (cmds @ [(cmd, map (arg_text no_user_type) args)])"
    for req cmds cmd and args :: "unit arg list" by (rule check_cmd_represents) simp_all
  have words: "to_string_int 0 = ''0''" "to_string_int (-1) = ''-1''" by code_simp+
  have "\<exists>req. transaction_request = Inr req \<and> represents req transaction_commands"
    using rep [OF rep [OF rep [OF rep [OF rep [OF represents_new]]]], of default_request_config "''MULTI''" "[]"
        "''LRANGE''" "[A_str ''rpush-key'', A_int 0, A_int (-1)]" "''HGETALL''" "[A_str ''hset-key'']"
        "''MGET''" "[A_str ''key'', A_str ''non-existing-key'']" "''EXEC''" "[]"]
    by (simp add: transaction_request_def transaction_commands_def push_eq words)
  with that show thesis by blast
qed

lemma decode_transaction:
  assumes "list_all (int_range True 32) vec" and "of_nat (length vec) \<le> vector_max_size pf (Plain (Int_ty True 32))"
    and "of_nat (length strs) \<le> vector_max_size pf (Optional String_ty)"
  shows "decode_replies pf transaction_tys (transaction_replies vec kvs strs) =
    Some [Ignored_reply, Ignored_reply, Ignored_reply, Ignored_reply,
      Tuple_reply [Sequence_reply (map (Plain_val \<circ> Int_val) vec), map_value kvs,
        Sequence_reply (map (Optional_val \<circ> map_option String_val) strs)]]"
  using decode_int_array [OF assms(1,2), of 1] decode_string_map [of pf 1 kvs] decode_optional_strings [OF assms(3), of 1]
  by (simp add: transaction_tys_def transaction_replies_def transaction_flat map_value_def del: decode_result.simps(5) is_flat.simps)

lemma string_map_wf: "d < max_embedded_depth \<Longrightarrow> wf_resp d (string_map kvs)" "\<not> is_push (string_map kvs)"
proof -
  have "2 dvd length (concat (map (\<lambda>(k, v). [Bulk blob_string_t k, Bulk blob_string_t v]) kvs))"
    by (induction kvs) auto
  then show "wf_resp d (string_map kvs)" if "d < max_embedded_depth"
    using that by (auto simp: string_map_def multiplicity_def list_all_iff)
  show "\<not> is_push (string_map kvs)" by (simp add: is_push_def string_map_def header_def wire_def)
qed

lemma optional_string_wf: "wf_resp d (optional_string x)"
  by (cases x) (simp_all add: simple_ok_def find_sub.simps sep_def)

lemma transaction_wf:
  "list_all (wf_resp 0) (transaction_replies vec kvs strs)" "list_all (\<lambda>t. \<not> is_push t) (transaction_replies vec kvs strs)"
proof -
  have status: "simple_ok simple_string_t ''OK''" "simple_ok simple_string_t ''QUEUED''" by code_simp+
  with optional_string_wf status string_map_wf(1) [of 1 kvs] show "list_all (wf_resp 0) (transaction_replies vec kvs strs)"
    by (auto simp: transaction_replies_def int_array_def multiplicity_def list_all_iff max_embedded_depth_def)
  show "list_all (\<lambda>t. \<not> is_push t) (transaction_replies vec kvs strs)"
    by (simp add: transaction_replies_def is_push_def header_def wire_def)
qed

text \<open>The commands of \<open>store\<close>: the vector and the map become the arguments of RPUSH and HSET.\<close>

theorem store_commands:
  "\<exists>req. store_request = Inr req \<and> represents req store_list"
proof -
  let ?vec = "map (\<lambda>i. I_one (A_int i)) [1, 2, 3, 4, 5, 6] :: unit item list"
    and ?map = "[I_pair (A_str ''key1'') (A_str ''value1''), I_pair (A_str ''key2'') (A_str ''value2''),
      I_pair (A_str ''key3'') (A_str ''value3'')] :: unit item list"
  obtain r1 where r1: "push_range_key no_user_type (new_request default_request_config) ''RPUSH'' ''rpush-key'' ?vec = Inr r1"
      "represents r1 [(''RPUSH'', ''rpush-key'' # map to_string_int [1, 2, 3, 4, 5, 6])]"
    using push_range_represents [OF represents_new, of ?vec no_user_type default_request_config "''RPUSH''" "''rpush-key''"]
    by (auto simp: same_shape_def range_args_def)
  obtain r2 where r2: "push_range_key no_user_type r1 ''HSET'' ''hset-key'' ?map = Inr r2"
      "represents r2 ([(''RPUSH'', ''rpush-key'' # map to_string_int [1, 2, 3, 4, 5, 6])]
        @ [(''HSET'', [''hset-key'', ''key1'', ''value1'', ''key2'', ''value2'', ''key3'', ''value3''])])"
    using push_range_represents [OF r1(2), of ?map no_user_type "''HSET''" "''hset-key''"]
    by (auto simp: same_shape_def range_args_def)
  obtain r3 where "push no_user_type r2 ''SET'' [A_str ''key'', A_str ''value''] = Inr r3"
      "represents r3 (([(''RPUSH'', ''rpush-key'' # map to_string_int [1, 2, 3, 4, 5, 6])]
        @ [(''HSET'', [''hset-key'', ''key1'', ''value1'', ''key2'', ''value2'', ''key3'', ''value3''])])
        @ [(''SET'', [''key'', ''value''])])"
    by (rule push_strings [OF r2(2), of "[A_str ''key'', A_str ''value'']" no_user_type]) auto
  with r1(1) r2(1) show ?thesis by (simp add: store_request_def push_range_key_container_def store_list_def)
qed

section \<open>The operations of the example\<close>

theorem transaction_round_trip:
  assumes "at_rest s" and "\<forall>ks. try_send ks" and "list_all (int_range True 32) vec"
    and "of_nat (length vec) \<le> vector_max_size pf (Plain (Int_ty True 32))"
    and "of_nat (length strs) \<le> vector_max_size pf (Optional String_ty)"
    and "length (concat (map encode (transaction_replies vec kvs strs))) < 2 ^ 64"
  shows "\<exists>s'. awaits msg try_send ec (transaction pf) s (concat (map command_text transaction_commands))
      (concat (map encode (transaction_replies vec kvs strs))) s'
    \<and> those (map slot_value (user_resp (c_responses (s_conn s')))) =
        Some [Ignored_reply, Ignored_reply, Ignored_reply, Ignored_reply,
         Tuple_reply [Sequence_reply (map (Plain_val \<circ> Int_val) vec), map_value kvs,
           Sequence_reply (map (Optional_val \<circ> map_option String_val) strs)]]
    \<and> at_rest s'"
proof -
  obtain req where req: "transaction_request = Inr req" "represents req transaction_commands" by (rule transaction_represents)
  have f: "transaction pf = (\<lambda>e. erased_async_exec_response pf transaction_tys req (declare_response pf transaction_tys e))"
    by (simp only: fun_eq_iff transaction_def req(1) andThen.simps) simp
  have n: "length (filter expects_response transaction_commands) = length (transaction_replies vec kvs strs)"
      "transaction_replies vec kvs strs \<noteq> []"
    by (simp_all add: transaction_commands_def transaction_replies_def expects_response_def)
  from declared_exec [OF assms(1,2), unfolded job_ok.simps, OF conjI [OF req(2) conjI [OF n(1) conjI [OF n(2)
      conjI [OF decode_transaction [OF assms(3-5)] conjI [OF transaction_wf(1) conjI [OF transaction_wf(2) assms(6)]]]]]], of msg ec]
  show ?thesis unfolding f by blast
qed

theorem hgetall_round_trip:
  assumes "at_rest s" and "\<forall>ks. try_send ks" and "length (encode (string_map kvs)) < 2 ^ 64"
  shows "\<exists>s'. awaits msg try_send ec (hgetall pf) s (command_text (''HGETALL'', [''hset-key''])) (encode (string_map kvs)) s'
    \<and> those (map slot_value (user_resp (c_responses (s_conn s')))) = Some [map_value kvs] \<and> at_rest s'"
proof -
  obtain req where req: "push no_user_type (new_request default_request_config) ''HGETALL'' [A_str ''hset-key''] = Inr req"
      "represents req ([] @ [(''HGETALL'', [''hset-key''])])"
    by (rule push_strings [OF represents_new, of "[A_str ''hset-key'']" no_user_type]) auto
  have f: "hgetall pf = (\<lambda>e. erased_async_exec_response pf hgetall_tys req (declare_response pf hgetall_tys e))"
    by (simp only: fun_eq_iff hgetall_def req(1) andThen.simps) simp
  have "decode_replies pf hgetall_tys [string_map kvs] = Some [map_value kvs]"
    by (simp add: hgetall_tys_def string_map_def is_null_def multiplicity_def decode_string_pairs map_value_def)
  with req(2) assms(3) string_map_wf(1) [of 0 kvs] string_map_wf(2) [of kvs]
  have "job_ok pf (hgetall_tys, req, [(''HGETALL'', [''hset-key''])], [string_map kvs], [map_value kvs])"
    by (simp add: expects_response_def max_embedded_depth_def)
  from declared_exec [OF assms(1,2) this, of msg ec] show ?thesis by (auto simp: f)
qed

theorem mget_round_trip:
  assumes "at_rest s" and "\<forall>ks. try_send ks" and "of_nat (length strs) \<le> vector_max_size pf (Optional String_ty)"
    and "length (encode (Aggr array_t (map optional_string strs))) < 2 ^ 64"
  shows "\<exists>s'. awaits msg try_send ec (mget pf) s (command_text (''MGET'', [''key'', ''non-existing-key'']))
      (encode (Aggr array_t (map optional_string strs))) s'
    \<and> those (map slot_value (user_resp (c_responses (s_conn s')))) = Some [Sequence_reply (map (Optional_val \<circ> map_option String_val) strs)]
    \<and> at_rest s'"
proof -
  let ?m = "Aggr array_t (map optional_string strs)" and ?args = "[A_str ''key'', A_str ''non-existing-key'']"
    and ?cmd = "(''MGET'', [''key'', ''non-existing-key''])" and ?r = "Sequence_reply (map (Optional_val \<circ> map_option String_val) strs)"
  obtain req where req: "push no_user_type (new_request default_request_config) ''MGET'' ?args = Inr req" "represents req ([] @ [?cmd])"
    by (rule push_strings [OF represents_new, of ?args no_user_type]) auto
  have f: "mget pf = (\<lambda>e. erased_async_exec_response pf mget_tys req (declare_response pf mget_tys e))"
    by (simp only: fun_eq_iff mget_def req(1) andThen.simps) simp
  have dec: "decode_replies pf mget_tys [?m] = Some [?r]"
    using decode_optional_strings [OF assms(3), of 0] by (simp add: mget_tys_def is_null_def)
  have "list_all (wf_resp 0) [?m]" "list_all (\<lambda>t. \<not> is_push t) [?m]"
    using optional_string_wf by (simp_all add: multiplicity_def list_all_iff max_embedded_depth_def is_push_def header_def wire_def)
  with req(2) assms(4) dec have "job_ok pf (mget_tys, req, [?cmd], [?m], [?r])" by (simp add: expects_response_def)
  from declared_exec [OF assms(1,2) this, of msg ec] show ?thesis by (auto simp: f)
qed

text \<open>\<open>store\<close> ignores the replies, as long as none of them is an error or null.\<close>

definition accepted :: "resp list \<Rightarrow> bool" where
  "accepted ms \<longleftrightarrow> list_all (\<lambda>m. list_all (\<lambda>nd. data_type nd \<notin> {null_t, simple_error_t, blob_error_t}) (nodes 0 m)) ms"

lemma feed_ignore:
  "list_all (\<lambda>nd. data_type nd \<notin> {null_t, simple_error_t, blob_error_t}) ns \<Longrightarrow> feed_nodes ignore r ns = Inr (r, None)"
  by (induction ns) (auto simp: ignore_def split: resp3_type.split)

lemma feed_replies_ignore: "accepted ms \<Longrightarrow> feed_replies ignore_adapter i r ms = Inr (r, None)"
  by (induction ms arbitrary: i) (simp_all add: accepted_def feed_ignore ignore_adapter_def)

theorem store_round_trip:
  assumes "at_rest s" and "\<forall>ks. try_send ks" and "accepted ms" and "length ms = 3"
    and "list_all (wf_resp 0) ms" and "list_all (\<lambda>t. \<not> is_push t) ms" and "length (concat (map encode ms)) < 2 ^ 64"
  shows "\<exists>s'. awaits msg try_send ec store s (concat (map command_text store_list)) (concat (map encode ms)) s' \<and> at_rest s'"
proof -
  obtain req where req: "store_request = Inr req" "represents req store_list" using store_commands by blast
  then have n: "r_expected_responses req = of_nat (length ms)" "r_payload req = concat (map command_text store_list)"
    by (simp_all add: represents_def store_list_def expects_response_def assms(4))
  have size: "r_expected_responses req \<le> supported_response_size any_ignore" by (simp add: any_ignore_def)
  have "ms \<noteq> []" using assms(4) by auto
  moreover have "feed_replies (adapt_fn any_ignore) 0 (c_responses (s_conn s)) ms = Inr (c_responses (s_conn s), None)"
    using feed_replies_ignore [OF assms(3)] by (simp add: any_ignore_def)
  ultimately obtain c p s' where "async_exec req any_ignore (s_conn s) = Inr (c, p)"
      "answered msg try_send ec s c p (r_payload req) (concat (map encode ms)) s'" "at_rest s'"
    using exec_answered [OF assms(1,2) size n(1) _ assms(5,6,7), of "c_responses (s_conn s)" msg ec] by blast
  then show ?thesis
    by (auto simp: awaits_def store_def req(1) n(2) erased_async_exec_def async_exec_impl_def intro!: exI [of _ s'])
qed

section \<open>What the program prints\<close>

lemma string_entries_value: "string_entries (map_of (map (map_prod (Plain_val \<circ> String_val) (Plain_val \<circ> String_val)) kvs)) = map_of kvs"
  by (induction kvs) (auto simp: string_entries_def fun_eq_iff)

lemma print_slot_map: "slot_value x = Some (map_value kvs) \<Longrightarrow> print_slot x = Inr (map_text kvs)"
  by (simp add: print_slot_def map_value_def rev_map string_entries_value)

lemma print_slot_ints:
  assumes "slot_value x = Some (Sequence_reply (map (Plain_val \<circ> Int_val) vec))"
  shows "print_slot x = Inr (ints_text vec)"
proof -
  have "map element_text (map (Plain_val \<circ> Int_val) vec :: 'a bulk list) = map Some (map to_string_int vec)" by simp
  then have "those (map element_text (map (Plain_val \<circ> Int_val) vec :: 'a bulk list)) = Some (map to_string_int vec)"
    by (simp only: those_eq_Some)
  with assms show ?thesis by (simp add: print_slot_def)
qed

lemma print_slot_strings:
  assumes "slot_value x = Some (Sequence_reply (map (Optional_val \<circ> map_option String_val) strs))"
  shows "print_slot x = Inr (strings_text strs)"
proof -
  have "element_text ((Optional_val \<circ> map_option String_val) y :: 'a bulk) = Some (print_optional y)" for y by (cases y) simp_all
  then have "map element_text (map (Optional_val \<circ> map_option String_val) strs :: 'a bulk list) = map Some (map print_optional strs)"
    by simp
  then have "those (map element_text (map (Optional_val \<circ> map_option String_val) strs :: 'a bulk list)) = Some (map print_optional strs)"
    by (simp only: those_eq_Some)
  with assms show ?thesis by (simp add: print_slot_def)
qed

lemma print_first_value:
  assumes "those (map slot_value xs) = Some [r]" and "\<And>x. slot_value x = Some r \<Longrightarrow> print_slot x = Inr t"
  shows "print_first xs = Inr t"
  using assms by (auto simp: those_eq_Some print_first_def)

lemma object_value_not_tuple: "object_value x \<noteq> Tuple_reply rs"
  by (induction x) simp_all

lemma slot_value_tuple: "slot_value x = Some (Tuple_reply rs) \<Longrightarrow> \<exists>i n xs. x = Tuple_slot i n xs \<and> those (map slot_value xs) = Some rs"
  by (cases x) (auto simp: object_value_not_tuple split: sum.splits option.splits)

lemma print_transaction_value:
  assumes "those (map slot_value xs) = Some [a, b, c, d, Tuple_reply [Sequence_reply (map (Plain_val \<circ> Int_val) vec), map_value kvs,
      Sequence_reply (map (Optional_val \<circ> map_option String_val) strs)]]"
  shows "print_transaction xs = Inr (ints_text vec @ map_text kvs @ strings_text strs)"
proof -
  from assms obtain x1 x2 x3 x4 x where xs: "xs = [x1, x2, x3, x4, x]" "slot_value x = Some (Tuple_reply
      [Sequence_reply (map (Plain_val \<circ> Int_val) vec), map_value kvs, Sequence_reply (map (Optional_val \<circ> map_option String_val) strs)])"
    by (auto simp: those_eq_Some map_eq_Cons_conv)
  from slot_value_tuple [OF xs(2)] obtain i n y1 y2 y3 where y: "x = Tuple_slot i n [y1, y2, y3]"
      "slot_value y1 = Some (Sequence_reply (map (Plain_val \<circ> Int_val) vec))" "slot_value y2 = Some (map_value kvs)"
      "slot_value y3 = Some (Sequence_reply (map (Optional_val \<circ> map_option String_val) strs))"
    by (auto simp: those_eq_Some map_eq_Cons_conv)
  from print_slot_ints [OF y(2)] print_slot_map [OF y(3)] print_slot_strings [OF y(4)]
  show ?thesis by (simp add: print_transaction_def xs(1) y(1))
qed

lemma cancel_at_rest: "at_rest s \<Longrightarrow> m_reqs (c_mpx (cancel op_all (s_conn s))) = []"
  by (simp add: at_rest_def resting_def conn_cancel_waiting_def cancel_run_def cancel_waiting_def cancel_on_conn_lost_def
      cancel_unless_def stable_partition_def close_def checker_cancel_def no_reconnection_def resolver_cancel_def Let_def)

text \<open>
  C20: the example with containers, end to end.  On a connection at rest it stores its containers, runs
  the transaction and reads the hash and the strings back.  If the server accepts the store and
  holds the list \<open>vec\<close>, the hash \<open>kvs\<close> and the strings \<open>strs\<close>, the program completes all four operations,
  prints exactly the numbers, the hash in the order of its keys, and the strings with \<open>null\<close> for
  the missing ones, twice where it reads them twice, and leaves no request behind.
\<close>

theorem containers_main_prints:
  assumes "at_rest s" and "\<forall>ks. try_send ks" and "accepted ms" and "length ms = 3"
    and "list_all (wf_resp 0) ms" and "list_all (\<lambda>t. \<not> is_push t) ms" and "length (concat (map encode ms)) < 2 ^ 64"
    and "list_all (int_range True 32) vec" and "of_nat (length vec) \<le> vector_max_size pf (Plain (Int_ty True 32))"
    and "of_nat (length strs) \<le> vector_max_size pf (Optional String_ty)"
    and "length (concat (map encode (transaction_replies vec kvs strs))) < 2 ^ 64"
  shows "\<exists>s'. containers_main msg try_send pf s
      [(concat (map command_text store_list), concat (map encode ms)),
       (concat (map command_text transaction_commands), concat (map encode (transaction_replies vec kvs strs))),
       (command_text (''HGETALL'', [''hset-key'']), encode (string_map kvs)),
       (command_text (''MGET'', [''key'', ''non-existing-key'']), encode (Aggr array_t (map optional_string strs)))] s'
      ((ints_text vec @ map_text kvs @ strings_text strs) @ map_text kvs @ strings_text strs)
    \<and> m_reqs (c_mpx (s_conn s')) = []"
proof -
  obtain s1 where s1: "awaits msg try_send None store s (concat (map command_text store_list)) (concat (map encode ms)) s1" "at_rest s1"
    using store_round_trip [OF assms(1-7)] by blast
  from transaction_round_trip [OF s1(2) assms(2,8-11)] obtain s2 where
    s2: "awaits msg try_send None (transaction pf) s1 (concat (map command_text transaction_commands))
        (concat (map encode (transaction_replies vec kvs strs))) s2"
      "print_transaction (user_resp (c_responses (s_conn s2))) = Inr (ints_text vec @ map_text kvs @ strings_text strs)" "at_rest s2"
    using print_transaction_value by blast
  have "length (encode (string_map kvs)) < 2 ^ 64" "length (encode (Aggr array_t (map optional_string strs))) < 2 ^ 64"
    using assms(11) by (simp_all add: transaction_replies_def)
  note len = this
  from hgetall_round_trip [OF s2(3) assms(2) len(1)] obtain s3 where
    s3: "awaits msg try_send None (hgetall pf) s2 (command_text (''HGETALL'', [''hset-key''])) (encode (string_map kvs)) s3"
      "print_first (user_resp (c_responses (s_conn s3))) = Inr (map_text kvs)" "at_rest s3"
    using print_first_value [OF _ print_slot_map] by blast
  from mget_round_trip [OF s3(3) assms(2,10) len(2)] obtain s4 where
    s4: "awaits msg try_send None (mget pf) s3 (command_text (''MGET'', [''key'', ''non-existing-key'']))
        (encode (Aggr array_t (map optional_string strs))) s4"
      "print_first (user_resp (c_responses (s_conn s4))) = Inr (strings_text strs)" "at_rest s4"
    using print_first_value [OF _ print_slot_strings] by blast
  show ?thesis
    using containers_main.intros [OF s1(1) s2(1,2) s3(1,2) s4(1,2) refl] cancel_at_rest [OF s4(3)]
    by (auto simp: erased_cancel_def simp del: cancel.simps)
qed

definition example_ints :: "int list" where
  "example_ints = [1, -5]"

definition example_replies :: "resp list" where
  "example_replies = [Simple number_t ''6'', Simple number_t ''3'', status_reply ''OK'']"

lemma example_text: "ints_text example_ints = ''1 -5 '' @ newline" "map_text [(''k'', ''v'')] = ''k: v'' @ newline"
    "strings_text [Some ''x'', None] = ''x null '' @ newline"
proof -
  show "ints_text example_ints = ''1 -5 '' @ newline" by code_simp
  show "map_text [(''k'', ''v'')] = ''k: v'' @ newline" by (simp add: print_map_def)
  show "strings_text [Some ''x'', None] = ''x null '' @ newline" by code_simp
qed

theorem containers_main_prints_witness:
  "\<exists>c0 io s'. new_connection (\<lambda>_. new_elem (new_request default_request_config) ignore_adapter) ([] :: unit slot list) = Inr c0
    \<and> containers_main silent accepting plain_platform (resting_system c0) io s'
        (''1 -5 '' @ newline @ ''k: v'' @ newline @ ''x null '' @ newline @ ''k: v'' @ newline @ ''x null '' @ newline)
    \<and> m_reqs (c_mpx (s_conn s')) = []"
proof -
  let ?ms = "transaction_replies example_ints [(''k'', ''v'')] [Some ''x'', None]"
  obtain c0 where c0: "new_connection (\<lambda>_. new_elem (new_request default_request_config) ignore_adapter) ([] :: unit slot list) = Inr c0"
      "at_rest (resting_system c0)" by (rule resting_connection)
  have fits: "list_all (int_range True 32) example_ints"
      "of_nat (length example_ints) \<le> vector_max_size plain_platform (Plain (Int_ty True 32))"
      "of_nat (length [Some ''x'', None]) \<le> vector_max_size plain_platform (Optional String_ty)"
    by (simp_all add: example_ints_def int_range_def plain_platform_def)
  have "length (concat (map encode ?ms)) \<le> 200" "length (concat (map encode example_replies)) \<le> 200" by code_simp+
  then have len: "length (concat (map encode ?ms)) < 2 ^ 64" "length (concat (map encode example_replies)) < 2 ^ 64" by simp_all
  have ms: "accepted example_replies" "length example_replies = 3" "list_all (wf_resp 0) example_replies"
      "list_all (\<lambda>t. \<not> is_push t) example_replies" by code_simp+
  from containers_main_prints [OF c0(2) _ ms len(2) fits len(1), where try_send = accepting and msg = silent] c0(1)
  show ?thesis unfolding example_text by (simp only: append_assoc) blast
qed

end
