(* ===== verification/Receivers.thy ===== *)
theory Receivers
  imports Execution
begin

text \<open>
  The examples that receive server pushes, \<^verbatim>\<open>cpp20_subscriber.cpp\<close> and \<^verbatim>\<open>cpp20_chat_room.cpp\<close>: the
  coroutines \<open>receiver\<close> of both as functions from the point where they are resumed to the next
  operation they await, and the publisher of the chat room.  A printed line is the triple of the strings
  it consists of.

  The receiver runs concurrently with the reader of the connection, which gives the nodes of the pushes to
  the response object and sends a message to the receive channel for each push that is complete.
  \<open>pipeline\<close> is the step relation of the two.
\<close>

section \<open>Definitions\<close>

definition print_push :: "node list result \<Rightarrow> fault + string \<times> string \<times> string" where
  "print_push resp =
     andThen (node_at resp 1) (\<lambda>a. andThen (node_at resp 2) (\<lambda>b. andThen (node_at resp 3) (\<lambda>c. Inr (a, b, c))))"

text \<open>
  The bodies of the loops of the two receivers, after \<open>async_receive\<close> has completed without an error.
  \<open>consume_one\<close> throws if it reports an error.
\<close>

definition subscriber_receive ::
  "node list result \<Rightarrow> fault + (string \<times> string \<times> string) \<times> (error_code + node list result)" where
  "subscriber_receive resp = andThen (print_push resp) (\<lambda>line. Inr (line, consume_one_or_throw resp))"

definition chat_receive :: "node list result \<Rightarrow> fault + (string \<times> string \<times> string) \<times> node list result" where
  "chat_receive resp =
     andThen (print_push resp) (\<lambda>line.
       case resp of
         Inl _ \<Rightarrow> Inl Bad_Value_Access
       | Inr _ \<Rightarrow> Inr (line, Inr []))"

definition subscribe_request :: "fault + request" where
  "subscribe_request = push no_user_type (new_request default_request_config) ''SUBSCRIBE'' [A_str ''channel'']"

text \<open>The response object of the program.\<close>

definition set_response :: "'u \<Rightarrow> 'u erased_connection \<Rightarrow> 'u erased_connection" where
  "set_response r e = (let c = impl e in e\<lparr>impl := c\<lparr>c_responses := (c_responses c)\<lparr>user_resp := r\<rparr>\<rparr>\<rparr>)"

datatype receiver_pc = Receiver_start | Receiver_subscribed | Receiver_received

text \<open>What a receiver waits for; \<open>Returned\<close> carries the error of an exception that leaves the coroutine.\<close>

datatype receiver_outcome = Awaits_exec ptr | Awaits_push | Returned "error_code option"

type_synonym line = "string \<times> string \<times> string"

type_synonym receiver = "node list result erased_connection"

text \<open>The condition of the outer loop and the subscription.\<close>

definition receiver_subscribe :: "receiver \<Rightarrow> fault + receiver \<times> line list \<times> receiver_outcome" where
  "receiver_subscribe e =
     (if \<not> erased_will_reconnect e then Inr (e, [], Returned None)
      else andThen subscribe_request (\<lambda>req. andThen (erased_async_exec req any_ignore e) (\<lambda>(e, p). Inr (e, [], Awaits_exec p))))"

definition receiver_begin :: "receiver \<Rightarrow> fault + receiver \<times> line list \<times> receiver_outcome" where
  "receiver_begin e = receiver_subscribe (erased_set_receive_response (adapt_fn (user_adapter any_vector)) (set_response (Inr []) e))"

subsection \<open>The subscriber\<close>

text \<open>Printing a push and going on with \<open>k\<close>.\<close>

definition print_then ::
  "(receiver \<Rightarrow> fault + receiver \<times> line list \<times> receiver_outcome) \<Rightarrow> receiver \<Rightarrow> fault + receiver \<times> line list \<times> receiver_outcome" where
  "print_then k e =
     andThen (subscriber_receive (user_resp (c_responses (impl e)))) (\<lambda>(line, r).
       case r of
         Inl ec \<Rightarrow> Inr (e, [line], Returned (Some ec))
       | Inr r \<Rightarrow> andThen (k (set_response r e)) (\<lambda>(e, ls, out). Inr (e, line # ls, out)))"

text \<open>
  The inner loop.  The list holds the messages that are in the receive channel: \<open>receive\<close> takes one of
  them, and when there is none the coroutine waits.
\<close>

primrec receiver_loop ::
  "(error_code option \<times> nat) list \<Rightarrow> receiver \<Rightarrow> fault + receiver \<times> line list \<times> receiver_outcome" where
  "receiver_loop [] e =
     (let (e, n, ec) = erased_receive (\<lambda>_. None) None e
      in if ec = Some (make_error_code sync_receive_push_failed) then Inr (erased_async_receive e, [], Awaits_push)
         else receiver_subscribe e)"
| "receiver_loop (m # ms) e =
     (let (e, n, ec) = erased_receive (\<lambda>_. Some m) None e
      in if ec = Some (make_error_code sync_receive_push_failed) then Inr (erased_async_receive e, [], Awaits_push)
         else if ec \<noteq> None then receiver_subscribe e
         else print_then (receiver_loop ms) e)"

fun receiver_op ::
  "receiver_pc \<Rightarrow> error_code option \<Rightarrow> (error_code option \<times> nat) list \<Rightarrow> receiver
    \<Rightarrow> fault + receiver \<times> line list \<times> receiver_outcome" where
  "receiver_op Receiver_start ec ms e = receiver_begin e"
| "receiver_op Receiver_subscribed ec ms e =
     (if ec \<noteq> None then Inr (e, [], Returned ec) else receiver_loop ms e)"
| "receiver_op Receiver_received ec ms e =
     (if ec \<noteq> None then receiver_subscribe e else print_then (receiver_loop ms) e)"

subsection \<open>The chat room\<close>

fun chat_op :: "receiver_pc \<Rightarrow> error_code option \<Rightarrow> receiver \<Rightarrow> fault + receiver \<times> line list \<times> receiver_outcome" where
  "chat_op Receiver_start ec e = receiver_begin e"
| "chat_op Receiver_subscribed ec e =
     (if ec \<noteq> None then Inr (e, [], Returned ec) else Inr (erased_async_receive e, [], Awaits_push))"
| "chat_op Receiver_received ec e =
     (if ec \<noteq> None then receiver_subscribe e
      else andThen (chat_receive (user_resp (c_responses (impl e)))) (\<lambda>(line, r).
             Inr (erased_async_receive (set_response r e), [line], Awaits_push)))"

text \<open>
  One round of the publisher of the chat room, after \<open>async_read_until\<close> has filled the buffer up to at
  least the \<open>n\<close>-th byte, where its first line ends: the request and the buffer that is left.
\<close>

definition publish :: "string \<Rightarrow> nat \<Rightarrow> fault + request \<times> string" where
  "publish buf n =
     andThen (push no_user_type (new_request default_request_config) ''PUBLISH'' [A_str ''channel'', A_str buf]) (\<lambda>req.
       Inr (req, drop n buf))"

section \<open>Specification\<close>

text \<open>The push that Redis sends for a message on a channel.\<close>

definition push_message :: "string \<times> string \<times> string \<Rightarrow> resp" where
  "push_message = (\<lambda>(kind, channel, payload).
     Aggr push_t [Bulk blob_string_t kind, Bulk blob_string_t channel, Bulk blob_string_t payload])"

text \<open>The nodes of a sequence of pushes.\<close>

definition push_nodes :: "(string \<times> string \<times> string) list \<Rightarrow> node list" where
  "push_nodes ls = concat (map (\<lambda>l. nodes 0 (push_message l)) ls)"

text \<open>\<open>n\<close> rounds of the subscriber: the lines it prints and the response it leaves.\<close>

fun subscriber_loop :: "nat \<Rightarrow> node list result \<Rightarrow> fault + (string \<times> string \<times> string) list \<times> node list result" where
  "subscriber_loop 0 resp = Inr ([], resp)"
| "subscriber_loop (Suc n) resp =
     andThen (subscriber_receive resp) (\<lambda>(line, resp').
       case resp' of
         Inl ec \<Rightarrow> Inl Bad_Value_Access
       | Inr resp' \<Rightarrow> andThen (subscriber_loop n resp') (\<lambda>(lines, r). Inr (line # lines, r)))"

text \<open>
  The reader and the receiver: the response object, the number of messages in the receive channel, the
  nodes of the pushes that have not arrived yet, and the lines printed so far.  The reader delivers one
  node at a time and announces a push with its last node; a round of the receiver takes a message.
\<close>

record pipe =
  p_resp :: "node list result"
  p_messages :: nat
  p_coming :: "node list list"
  p_printed :: "line list"

datatype pipe_event = Node_arrives | Round

inductive pipeline :: "pipe \<Rightarrow> pipe_event \<Rightarrow> pipe \<Rightarrow> bool" where
  arrives: "p_coming s = (nd # nds) # ns \<Longrightarrow> general_aggregate (p_resp s) nd = Inr (r, None) \<Longrightarrow>
    pipeline s Node_arrives
      (s\<lparr>p_resp := r, p_coming := (if nds = [] then ns else nds # ns),
         p_messages := (if nds = [] then p_messages s + 1 else p_messages s)\<rparr>)"
| round: "p_messages s \<noteq> 0 \<Longrightarrow> subscriber_receive (p_resp s) = Inr (line, Inr r) \<Longrightarrow>
    pipeline s Round (s\<lparr>p_resp := r, p_messages := p_messages s - 1, p_printed := p_printed s @ [line]\<rparr>)"

definition new_pipe :: "line list \<Rightarrow> pipe" where
  "new_pipe ls = \<lparr>p_resp = Inr [], p_messages = 0, p_coming = map (\<lambda>l. nodes 0 (push_message l)) ls, p_printed = []\<rparr>"

section \<open>Properties\<close>

lemma push_message_nodes:
  "nodes 0 (push_message (k, c, p)) =
     [mk_node push_t 3 0 [], mk_node blob_string_t 1 1 k, mk_node blob_string_t 1 1 c, mk_node blob_string_t 1 1 p]"
  by (simp add: push_message_def multiplicity_def)

lemma push_nodes_simps [simp]:
  "push_nodes [] = []" "push_nodes (l # ls) = nodes 0 (push_message l) @ push_nodes ls"
  by (simp_all add: push_nodes_def)

lemma subscriber_receive_push:
  assumes "ns = [] \<or> depth (hd ns) = 0"
  shows "subscriber_receive (Inr (nodes 0 (push_message l) @ ns)) = Inr (l, Inr (Inr ns))"
proof -
  obtain k c p where l: "l = (k, c, p)" by (cases l)
  have "dropWhile (\<lambda>e. depth e \<noteq> 0) ns = ns" using assms by (cases ns) auto
  then show ?thesis
    by (simp add: l push_message_nodes subscriber_receive_def print_push_def node_at_def consume_one_or_throw_def consume_one_def)
qed

lemma push_starts: "got @ todo = nodes 0 (push_message l) \<Longrightarrow> got = [] \<or> depth (hd got) = 0"
  by (cases l; cases got) (auto simp: push_message_nodes)

lemma push_nodes_start: "got = [] \<or> depth (hd got) = 0 \<Longrightarrow> push_nodes ls @ got = [] \<or> depth (hd (push_nodes ls @ got)) = 0"
  by (cases ls) (auto simp: push_message_nodes)

lemma push_no_error: "nd \<in> set (nodes 0 (push_message l)) \<Longrightarrow> data_type nd \<notin> {blob_error_t, simple_error_t}"
  by (cases l) (auto simp: push_message_nodes)

text \<open>
  The subscriber prints every push exactly once and in order, also when several of them have been
  read before it is resumed.  If the receive adapter has been fed the pushes \<open>ls\<close>, as many rounds
  of its loop print the kind, the channel and the payload of each of them and leave the response
  empty.
\<close>

theorem subscriber_prints_each_push:
  "feed_nodes general_aggregate (Inr []) (push_nodes ls) =
      Inr (Inr (push_nodes ls), None)
    \<and> subscriber_loop (length ls) (Inr (push_nodes ls)) = Inr (ls, Inr [])"
proof
  have "list_all (\<lambda>nd. data_type nd \<notin> {blob_error_t, simple_error_t}) (nodes 0 (push_message l))" for l
    unfolding list_all_iff using push_no_error by blast
  then have "list_all (\<lambda>nd. data_type nd \<notin> {blob_error_t, simple_error_t}) (push_nodes ls)"
    by (induction ls) simp_all
  from feed_general_aggregate [OF this, of "[]"]
  show "feed_nodes general_aggregate (Inr []) (push_nodes ls) =
      Inr (Inr (push_nodes ls), None)" by simp
  show "subscriber_loop (length ls) (Inr (push_nodes ls)) = Inr (ls, Inr [])"
    by (induction ls) (simp_all add: subscriber_receive_push [OF push_nodes_start [of "[]", simplified]])
qed

subsection \<open>The reader and the subscriber\<close>

text \<open>
  What holds of the pipeline for the pushes \<open>ls\<close>: the pushes that are printed, those that are complete in
  the response, with a message each in the channel, and the others; of the first of these the nodes
  \<open>got\<close> are in the response already.
\<close>

fun coming_ok :: "line list \<Rightarrow> node list \<Rightarrow> node list list \<Rightarrow> bool" where
  "coming_ok [] got ns \<longleftrightarrow> got = [] \<and> ns = []"
| "coming_ok (l # later) got ns \<longleftrightarrow>
     (\<exists>todo. got @ todo = nodes 0 (push_message l) \<and> todo \<noteq> [] \<and> ns = todo # map (\<lambda>l. nodes 0 (push_message l)) later)"

definition pipe_ok :: "line list \<Rightarrow> pipe \<Rightarrow> bool" where
  "pipe_ok ls s \<longleftrightarrow>
     (\<exists>ready later got. ls = p_printed s @ ready @ later \<and> p_messages s = length ready
       \<and> p_resp s = Inr (push_nodes ready @ got) \<and> coming_ok later got (p_coming s))"

lemma nodes_nonempty: "nodes 0 (push_message l) \<noteq> []"
  by (cases l) (simp add: push_message_nodes)

lemma coming_ok_start: "coming_ok ls [] (map (\<lambda>l. nodes 0 (push_message l)) ls)"
  by (cases ls) (simp_all add: nodes_nonempty)

lemma coming_ok_got:
  assumes "coming_ok later got ns"
  shows "got = [] \<or> depth (hd got) = 0"
proof (cases later)
  case Nil
  then show ?thesis using assms by simp
next
  case (Cons l later')
  with assms obtain todo where "got @ todo = nodes 0 (push_message l)" by auto
  then show ?thesis by (rule push_starts)
qed

lemma new_pipe_ok: "pipe_ok ls (new_pipe ls)"
  unfolding pipe_ok_def new_pipe_def
  by (rule exI [of _ "[]"], rule exI [of _ ls], rule exI [of _ "[]"]) (simp add: coming_ok_start)

lemma arrives_ok:
  assumes "pipe_ok ls s" and "p_coming s = (nd # nds) # ns"
  shows "general_aggregate (p_resp s) nd = Inr (map_sum id (\<lambda>ms. ms @ [nd]) (p_resp s), None)"
    and "pipe_ok ls (s\<lparr>p_resp := map_sum id (\<lambda>ms. ms @ [nd]) (p_resp s), p_coming := (if nds = [] then ns else nds # ns),
      p_messages := (if nds = [] then p_messages s + 1 else p_messages s)\<rparr>)"
proof -
  from assms(1) obtain ready later' got where 1: "ls = p_printed s @ ready @ later'" "p_messages s = length ready"
      "p_resp s = Inr (push_nodes ready @ got)" "coming_ok later' got (p_coming s)"
    unfolding pipe_ok_def by blast
  with assms(2) obtain l later where "later' = l # later" by (cases later') auto
  with 1 assms(2) have ok: "ls = p_printed s @ ready @ l # later" "p_messages s = length ready"
      "p_resp s = Inr (push_nodes ready @ got)" "got @ nd # nds = nodes 0 (push_message l)"
      "ns = map (\<lambda>l. nodes 0 (push_message l)) later"
    by auto
  have "data_type nd \<notin> {blob_error_t, simple_error_t}" using push_no_error [of nd l] by (simp flip: ok(4))
  then show "general_aggregate (p_resp s) nd = Inr (map_sum id (\<lambda>ms. ms @ [nd]) (p_resp s), None)"
    by (simp add: ok(3) general_aggregate_def)
  show "pipe_ok ls (s\<lparr>p_resp := map_sum id (\<lambda>ms. ms @ [nd]) (p_resp s), p_coming := (if nds = [] then ns else nds # ns),
      p_messages := (if nds = [] then p_messages s + 1 else p_messages s)\<rparr>)"
  proof (cases "nds = []")
    case True
    then have "push_nodes (ready @ [l]) = push_nodes ready @ got @ [nd]" using ok(4) by (simp add: push_nodes_def)
    with True ok show ?thesis unfolding pipe_ok_def
      by (intro exI [of _ "ready @ [l]"] exI [of _ later] exI [of _ "[]"]) (simp add: coming_ok_start)
  next
    case False
    with ok show ?thesis unfolding pipe_ok_def
      by (intro exI [of _ ready] exI [of _ "l # later"] exI [of _ "got @ [nd]"]) simp
  qed
qed

lemma round_ok:
  assumes "pipe_ok ls s" and "p_messages s \<noteq> 0"
  shows "\<exists>line r. subscriber_receive (p_resp s) = Inr (line, Inr r)
    \<and> pipe_ok ls (s\<lparr>p_resp := r, p_messages := p_messages s - 1, p_printed := p_printed s @ [line]\<rparr>)"
proof -
  from assms(1) obtain ready' later got where 1: "ls = p_printed s @ ready' @ later" "p_messages s = length ready'"
      "p_resp s = Inr (push_nodes ready' @ got)" "coming_ok later got (p_coming s)"
    unfolding pipe_ok_def by blast
  with assms(2) obtain l ready where ready: "ready' = l # ready" by (cases ready') auto
  from 1(4) have "got = [] \<or> depth (hd got) = 0" by (rule coming_ok_got)
  from subscriber_receive_push [OF push_nodes_start [OF this], of l ready]
  have "subscriber_receive (p_resp s) = Inr (l, Inr (Inr (push_nodes ready @ got)))" by (simp add: 1(3) ready)
  moreover have "pipe_ok ls (s\<lparr>p_resp := Inr (push_nodes ready @ got), p_messages := p_messages s - 1, p_printed := p_printed s @ [l]\<rparr>)"
    unfolding pipe_ok_def using 1 ready by (intro exI [of _ ready] exI [of _ later] exI [of _ got]) simp
  ultimately show ?thesis by blast
qed

interpretation pipe_runs: step_invariant pipeline "pipe_ok ls" for ls
proof
  fix s e s'
  assume "pipe_ok ls s" and "pipeline s e s'"
  from this(2,1) show "pipe_ok ls s'"
  proof (cases rule: pipeline.cases)
    case (arrives nd nds ns r)
    with arrives_ok [OF \<open>pipe_ok ls s\<close> arrives(3)] show ?thesis by simp
  next
    case (round line r)
    with round_ok [OF \<open>pipe_ok ls s\<close> round(3)] show ?thesis by auto
  qed
qed

text \<open>Every step uses up a node or a message.\<close>

lemma pipeline_length:
  "steps pipeline s es s' \<Longrightarrow> length es + (length (concat (p_coming s')) + length (p_coming s') + p_messages s') =
     length (concat (p_coming s)) + length (p_coming s) + p_messages s"
  by (induction rule: steps.induct) (auto elim!: pipeline.cases)

text \<open>
  C22: the subscriber under any interleaving with the reader.  Pushes arrive node by node while the
  receiver runs; after any sequence of steps the lines printed are the first of the pushes, in
  order.  As long as there is a message in the channel the next round prints without an exception, as
  long as pushes are to come their nodes are accepted, and when nothing is left every push has been
  printed exactly once and the response is empty, which is the case after five steps for each push.
\<close>

theorem subscriber_any_interleaving:
  assumes "steps pipeline (new_pipe ls) es s"
  shows "(\<exists>rest. ls = p_printed s @ rest) \<and> (p_messages s \<noteq> 0 \<longrightarrow> (\<exists>s'. pipeline s Round s'))
    \<and> (p_coming s \<noteq> [] \<longrightarrow> (\<exists>s'. pipeline s Node_arrives s'))
    \<and> (p_coming s = [] \<and> p_messages s = 0 \<longrightarrow> p_printed s = ls \<and> p_resp s = Inr [] \<and> length es = 5 * length ls)"
proof (intro conjI impI)
  note ok = pipe_runs.steps_keep [OF assms new_pipe_ok]
  show "\<exists>rest. ls = p_printed s @ rest" using ok by (auto simp: pipe_ok_def)
  show "\<exists>s'. pipeline s Round s'" if "p_messages s \<noteq> 0" using round_ok [OF ok that] that by (blast intro: pipeline.round)
  show "\<exists>s'. pipeline s Node_arrives s'" if "p_coming s \<noteq> []"
  proof -
    from that ok obtain nd nds ns where "p_coming s = (nd # nds) # ns"
      by (auto simp: pipe_ok_def neq_Nil_conv elim!: coming_ok.elims)
    from pipeline.arrives [OF this arrives_ok(1) [OF ok this]] show ?thesis by blast
  qed
  assume empty: "p_coming s = [] \<and> p_messages s = 0"
  with ok show "p_printed s = ls" "p_resp s = Inr []" by (auto simp: pipe_ok_def elim: coming_ok.elims)
  have "length (concat (map (\<lambda>l. nodes 0 (push_message l)) ls)) = 4 * length ls"
    by (induction ls) (auto simp: push_message_nodes)
  with pipeline_length [OF assms] empty show "length es = 5 * length ls" by (simp add: new_pipe_def)
qed

theorem subscriber_any_interleaving_witness:
  "\<exists>s'. pipeline (new_pipe [(''message'', ''channel'', ''text'')]) Node_arrives s'"
  using subscriber_any_interleaving [OF steps_nil [of pipeline "new_pipe [(''message'', ''channel'', ''text'')]"]]
  by (simp add: new_pipe_def)

subsection \<open>The subscriber on a connection\<close>

text \<open>The coroutine takes all the messages that are in the channel.\<close>

lemma print_then_push:
  assumes "user_resp (c_responses (impl e)) = Inr (push_nodes (l # ls))"
  shows "print_then k e = andThen (k (set_response (Inr (push_nodes ls)) e)) (\<lambda>(e, ls, out). Inr (e, l # ls, out))"
  using subscriber_receive_push [OF push_nodes_start [of "[]", simplified], of l ls] assms by (simp add: print_then_def)

lemma receiver_loop_prints:
  assumes "user_resp (c_responses (impl e)) = Inr (push_nodes ls)" and "list_all (\<lambda>m. fst m = None) ms" and "length ms = length ls"
  shows "\<exists>e'. receiver_loop ms e = Inr (e', ls, Awaits_push) \<and> user_resp (c_responses (impl e')) = Inr []"
  using assms
proof (induction ms arbitrary: e ls)
  case Nil
  then show ?case by (auto simp: erased_receive_def receive_def erased_async_receive_def async_receive_def do_call_def Let_def)
next
  case (Cons m ms)
  from Cons.prems(3) obtain l ls' where ls: "ls = l # ls'" by (cases ls) auto
  from Cons.prems(2) obtain n where m: "m = (None, n)" by (cases m) auto
  obtain e1 where e1: "erased_receive (\<lambda>_. Some m) None e = (e1, n, None)" "user_resp (c_responses (impl e1)) = Inr (push_nodes (l # ls'))"
    using Cons.prems(1) by (auto simp: m ls erased_receive_def receive_def do_call_def Let_def)
  have "user_resp (c_responses (impl (set_response (Inr (push_nodes ls')) e1))) = Inr (push_nodes ls')"
    by (simp add: set_response_def Let_def)
  from Cons.IH [OF this] Cons.prems(2,3) obtain e' where
    "receiver_loop ms (set_response (Inr (push_nodes ls')) e1) = Inr (e', ls', Awaits_push)" "user_resp (c_responses (impl e')) = Inr []"
    by (auto simp: ls)
  then show ?case by (simp add: e1(1) print_then_push [OF e1(2)] ls)
qed

lemma push_message_wf: "wf_resp 0 (push_message l)" "is_push (push_message l)"
proof -
  obtain k c p where l: "l = (k, c, p)" by (cases l)
  show "wf_resp 0 (push_message l)" by (simp add: l push_message_def multiplicity_def max_embedded_depth_def)
  show "is_push (push_message l)" by (simp add: l push_message_def is_push_def header_def wire_def)
qed

abbreviation push_adapter :: "size_t \<Rightarrow> node list result responses adapter" where
  "push_adapter \<equiv> adapt_fn (user_adapter any_vector)"

lemma dispatch_pushes:
  assumes "user_resp s = Inr ns"
  shows "dispatch (push_adapter 0) h qs s (map push_message ls) = Some (h, qs, s\<lparr>user_resp := Inr (ns @ push_nodes ls)\<rparr>)"
  using assms
proof (induction ls arbitrary: s ns)
  case Nil
  then have "s\<lparr>user_resp := Inr ns\<rparr> = s" by (simp flip: Nil)
  then show ?case by simp
next
  case (Cons l ls)
  have "list_all (\<lambda>nd. data_type nd \<notin> {blob_error_t, simple_error_t}) (nodes 0 (push_message l))"
    unfolding list_all_iff using push_no_error by blast
  from feed_general_aggregate [OF this, of ns]
  have "feed_nodes (adapt_fn any_vector 0) (user_resp s) (nodes 0 (push_message l)) = Inr (Inr (ns @ nodes 0 (push_message l)), None)"
    by (simp add: any_vector_def vector_adapter_def Cons.prems)
  from feed_user_adapter [OF this] Cons.IH [of "s\<lparr>user_resp := Inr (ns @ nodes 0 (push_message l))\<rparr>"]
  show ?case by (simp add: push_message_wf(2))
qed

lemma pushes_read:
  assumes "resting c" and "\<forall>ks. try_send ks" and "m_receive_adapter (c_mpx c) = push_adapter 0" and "ls \<noteq> []"
    and "user_resp (c_responses c) = Inr ns" and "length (concat (map (\<lambda>l. encode (push_message l)) ls)) < 2 ^ 64"
  shows "\<exists>c' log. reader_op msg l try_send Reader_appended None (concat (map (\<lambda>l. encode (push_message l)) ls)) c = Inr (reader_append c')
    \<and> resting c' \<and> user_resp (c_responses c') = Inr (ns @ push_nodes ls)
    \<and> c_calls c' = c_calls c @ Log log # map (\<lambda>l. Try_send (length (encode (push_message l)))) ls"
proof -
  let ?ts = "map push_message ls"
  let ?data = "concat (map encode ?ts)"
  let ?c = "do_call (Log (on_read msg l None (length ?data))) (c\<lparr>c_mpx := (c_mpx c)\<lparr>m_read_buffer := ?data\<rparr>\<rparr>)"
  have "\<exists>c'. reader_commit msg l try_send ?c =
      (if [] = ([] :: string) then Inr (reader_append c') else reader_commit msg l try_send c')
    \<and> idle (c_mpx c') \<and> m_heap (c_mpx c') = m_heap (c_mpx c) \<and> m_reqs (c_mpx c') = m_reqs (c_mpx c) \<and> m_read_buffer (c_mpx c') = []
    \<and> c_responses c' = (c_responses c)\<lparr>user_resp := Inr (ns @ push_nodes ls)\<rparr> \<and> c_open c' \<and> c_execs c' = c_execs ?c
    \<and> m_write_buffer (c_mpx c') = m_write_buffer (c_mpx ?c)
    \<and> c_calls c' = c_calls ?c @ map (\<lambda>t. Try_send (length (encode t))) (filter is_push ?ts)"
    by (rule reader_commit_dispatch)
      (use assms dispatch_pushes [OF assms(5)] push_message_wf in \<open>simp_all add: resting_def idle_def list_all_iff comp_def\<close>)
  moreover have "reader_op msg l try_send Reader_appended None ?data c = reader_commit msg l try_send ?c"
    using assms(1) by (simp add: resting_def Let_def)
  moreover have "filter is_push ?ts = ?ts" using push_message_wf(2) by (simp add: filter_map comp_def)
  moreover have "c_calls ?c = c_calls c @ [Log (on_read msg l None (length ?data))]" by (simp add: do_call_def)
  ultimately show ?thesis using assms(1) by (auto simp: resting_def comp_def)
qed



text \<open>
  C37: the receiver of the chat room loses pushes.  If two of them have been read before it is resumed,
  it prints the first and clears the response, so that it throws when it is resumed for the second.
\<close>

theorem chat_room_loses_pushes:
  assumes "user_resp (c_responses (impl e)) = Inr (push_nodes (l # l' # ls))"
  shows "\<exists>e'. chat_op Receiver_received None e = Inr (e', [l], Awaits_push) \<and> chat_op Receiver_received None e' = Inl Out_Of_Range"
proof -
  have first: "chat_receive (Inr (push_nodes (l # l' # ls))) = Inr (l, Inr [])"
    by (cases l) (simp add: push_message_nodes chat_receive_def print_push_def node_at_def)
  have "chat_receive (Inr []) = Inl Out_Of_Range" by (simp add: chat_receive_def print_push_def node_at_def)
  with first assms show ?thesis
    by (simp del: push_nodes_simps)
      (simp add: erased_async_receive_def async_receive_def do_call_def set_response_def Let_def)
qed

theorem chat_room_loses_pushes_witness:
  "\<exists>c0 e'. new_connection (\<lambda>_. new_elem (new_request default_request_config) ignore_adapter) (Inr (push_nodes [(''message'', ''channel'', ''a''), (''message'', ''channel'', ''b'')])) = Inr c0
    \<and> chat_op Receiver_received None \<lparr>impl = c0\<rparr> = Inr (e', [(''message'', ''channel'', ''a'')], Awaits_push)
    \<and> chat_op Receiver_received None e' = Inl Out_Of_Range"
proof -
  let ?r = "Inr (push_nodes [(''message'', ''channel'', ''a''), (''message'', ''channel'', ''b'')]) :: node list result"
  obtain c0 where c0: "new_connection (\<lambda>_. new_elem (new_request default_request_config) ignore_adapter) ?r = Inr c0" "user_resp (c_responses c0) = ?r"
    by (simp add: new_connection_def new_health_checker_def push_eq)
  with chat_room_loses_pushes [of "\<lparr>impl = c0\<rparr>" "(''message'', ''channel'', ''a'')" "(''message'', ''channel'', ''b'')" "[]"]
  show ?thesis by (simp only: erased_connection.simps) blast
qed

text \<open>
  The publisher of the chat room repeats input.  It publishes everything that has been read but
  removes only the first line from its buffer, so a second line that was read together with the
  first one is published twice.
\<close>

theorem publisher_repeats_input:
  "\<exists>req req'. publish (line @ line') (length line) = Inr (req, line')
    \<and> represents req [(''PUBLISH'', [''channel'', line @ line'])]
    \<and> publish line' (length line') = Inr (req', []) \<and> represents req' [(''PUBLISH'', [''channel'', line'])]"
proof -
  have pub: "\<exists>req. publish buf n = Inr (req, drop n buf) \<and> represents req [(''PUBLISH'', [''channel'', buf])]" for buf n
  proof -
    obtain req where "push no_user_type (new_request default_request_config) ''PUBLISH'' [A_str ''channel'', A_str buf] = Inr req"
      "represents req ([] @ [(''PUBLISH'', [''channel'', buf])])"
      by (rule push_strings [OF represents_new, of "[A_str ''channel'', A_str buf]" no_user_type]) auto
    then show ?thesis by (simp add: publish_def)
  qed
  from pub [of "line @ line'" "length line"] pub [of line' "length line'"] show ?thesis by auto
qed

end
