(* ===== verification/Streams.thy ===== *)
theory Streams
  imports Execution
begin

text \<open>
  The example \<^verbatim>\<open>cpp20_streams.cpp\<close>: \<open>stream_reader\<close> reads entries of a stream with XREAD into a generic response
  and scans its nodes.  A printed line is the pair of the identifier and the payload.
\<close>

section \<open>Definitions\<close>

definition stream_request :: "request \<Rightarrow> string \<Rightarrow> fault + request" where
  "stream_request req stream_id =
     push no_user_type req ''XREAD'' [A_str ''BLOCK'', A_str ''0'', A_str ''STREAMS'', A_str ''test-topic'', A_str stream_id]"

text \<open>
  The loop over the nodes, which prints and remembers the identifier of an entry.  \<open>item_index - 2\<close> is
  computed in \<open>size_t\<close>.
\<close>

function stream_scan :: "node list \<Rightarrow> nat \<Rightarrow> string \<Rightarrow> fault + (string \<times> string) list \<times> string" where
  "stream_scan resp item_index stream_id =
     (if item_index < length resp then
        (if node_value (resp ! item_index) = ''myfield'' then
           andThen (node_at (Inr resp) (unat (of_nat item_index - 2 :: size_t))) (\<lambda>stream_id.
           andThen (node_at (Inr resp) (item_index + 1)) (\<lambda>payload.
           andThen (stream_scan resp (item_index + 2) stream_id) (\<lambda>(lines, last_id).
             Inr ((stream_id, payload) # lines, last_id))))
         else stream_scan resp (item_index + 1) stream_id)
      else Inr ([], stream_id))"
  by pat_completeness auto
termination by (relation "measure (\<lambda>(resp, item_index, stream_id). length resp - item_index)") auto

declare stream_scan.simps [simp del]

text \<open>One round after \<open>async_exec\<close>: the lines, the next identifier, the cleared request and response.\<close>

definition stream_round ::
  "request \<Rightarrow> node list result \<Rightarrow> string \<Rightarrow> fault + (string \<times> string) list \<times> string \<times> request \<times> node list result" where
  "stream_round req resp stream_id =
     (case resp of
        Inl _ \<Rightarrow> Inl Bad_Value_Access
      | Inr ns \<Rightarrow> andThen (stream_scan ns 0 stream_id) (\<lambda>(lines, stream_id). Inr (lines, stream_id, request_clear req, Inr [])))"

section \<open>Specification\<close>

text \<open>The reply to XREAD: the entries of the topic, each with its identifier and its fields.\<close>

definition stream_entry :: "string \<Rightarrow> string list \<Rightarrow> resp" where
  "stream_entry sid fs = Aggr array_t [Bulk blob_string_t sid, Aggr array_t (map (Bulk blob_string_t) fs)]"

definition stream_reply :: "(string \<times> string list) list \<Rightarrow> resp" where
  "stream_reply es = Aggr map_t [Bulk blob_string_t ''test-topic'', Aggr array_t (map (\<lambda>(sid, fs). stream_entry sid fs) es)]"

section \<open>Properties\<close>

lemma node_at_middle: "node_at (Inr (pre @ nd # post)) (length pre) = Inr (node_value nd)"
  by (simp add: node_at_def)

lemma scan_skip:
  "node_value nd \<noteq> ''myfield'' \<Longrightarrow>
     stream_scan (pre @ nd # post) (length pre) sid = stream_scan ((pre @ [nd]) @ post) (length (pre @ [nd])) sid"
  by (subst stream_scan.simps) simp

lemma scan_field:
  assumes "node_value nd = ''myfield''" and "length (pre @ idn # arr # nd # val # post) < 2 ^ 64"
  shows "stream_scan ((pre @ [idn, arr]) @ nd # val # post) (length (pre @ [idn, arr])) sid =
    andThen (stream_scan ((pre @ [idn, arr, nd, val]) @ post) (length (pre @ [idn, arr, nd, val])) (node_value idn)) (\<lambda>(lines, sid).
      Inr ((node_value idn, node_value val) # lines, sid))"
proof -
  have "(of_nat (length (pre @ [idn, arr])) :: size_t) - 2 = of_nat (length pre)" by simp
  moreover have "unat (of_nat (length pre) :: size_t) = length pre" using assms(2) by (intro unat_of_nat_size_t) simp
  ultimately have i: "unat (of_nat (length (pre @ [idn, arr])) - 2 :: size_t) = length pre" by simp
  have id: "node_at (Inr ((pre @ [idn, arr]) @ nd # val # post)) (length pre) = Inr (node_value idn)"
    using node_at_middle [of pre idn "arr # nd # val # post"] by simp
  have val: "node_at (Inr ((pre @ [idn, arr]) @ nd # val # post)) (length (pre @ [idn, arr]) + 1) = Inr (node_value val)"
    using node_at_middle [of "pre @ [idn, arr, nd]" val post] by simp
  show ?thesis
    by (subst stream_scan.simps) (simp only: i id val andThen.simps, simp add: assms(1) nth_append)
qed

abbreviation entry_nodes :: "string \<Rightarrow> string list \<Rightarrow> node list" where
  "entry_nodes sid fs \<equiv> nodes 2 (stream_entry sid fs)"

lemma entry_nodes_one:
  "entry_nodes sid [''myfield'', v] =
     [mk_node array_t 2 2 [], mk_node blob_string_t 1 3 sid, mk_node array_t 2 3 [], mk_node blob_string_t 1 4 ''myfield'',
      mk_node blob_string_t 1 4 v]"
  by (simp add: stream_entry_def multiplicity_def numeral_eq_Suc)

lemma scan_entry:
  assumes "sid \<noteq> ''myfield''" and "length (pre @ entry_nodes sid [''myfield'', v] @ post) < 2 ^ 64"
  shows "stream_scan (pre @ entry_nodes sid [''myfield'', v] @ post) (length pre) sid0 =
    andThen (stream_scan ((pre @ entry_nodes sid [''myfield'', v]) @ post) (length (pre @ entry_nodes sid [''myfield'', v])) sid)
      (\<lambda>(lines, last_id). Inr ((sid, v) # lines, last_id))"
proof -
  let ?a = "mk_node array_t 2 2 []" and ?i = "mk_node blob_string_t 1 3 sid" and ?b = "mk_node array_t 2 3 []"
    and ?f = "mk_node blob_string_t 1 4 ''myfield''" and ?v = "mk_node blob_string_t 1 4 v"
  have "stream_scan (pre @ ?a # ?i # ?b # ?f # ?v # post) (length pre) sid0 =
      stream_scan (((pre @ [?a]) @ [?i, ?b]) @ ?f # ?v # post) (length ((pre @ [?a]) @ [?i, ?b])) sid0"
    using scan_skip [of ?a pre "?i # ?b # ?f # ?v # post" sid0] scan_skip [of ?i "pre @ [?a]" "?b # ?f # ?v # post" sid0]
      scan_skip [of ?b "pre @ [?a, ?i]" "?f # ?v # post" sid0] assms(1) by (simp add: mk_node_def)
  with scan_field [of ?f "pre @ [?a]" ?i ?b ?v post sid0] assms(2) show ?thesis
    by (simp add: entry_nodes_one mk_node_def)
qed

lemma scan_entries:
  assumes "list_all (\<lambda>(sid, v). sid \<noteq> ''myfield'') es"
    and "length (pre @ concat (map (\<lambda>(sid, v). entry_nodes sid [''myfield'', v]) es)) < 2 ^ 64"
  shows "stream_scan (pre @ concat (map (\<lambda>(sid, v). entry_nodes sid [''myfield'', v]) es)) (length pre) sid0 =
    Inr (es, if es = [] then sid0 else fst (last es))"
  using assms
proof (induction es arbitrary: pre sid0)
  case Nil
  then show ?case by (subst stream_scan.simps) simp
next
  case (Cons e es)
  obtain sid v where e: "e = (sid, v)" by (cases e)
  let ?post = "concat (map (\<lambda>(sid, v). entry_nodes sid [''myfield'', v]) es)"
  have "stream_scan ((pre @ entry_nodes sid [''myfield'', v]) @ ?post) (length (pre @ entry_nodes sid [''myfield'', v])) sid =
      Inr (es, if es = [] then sid else fst (last es))"
    using Cons.prems by (intro Cons.IH) (simp_all add: e)
  with scan_entry [of sid pre v ?post sid0] Cons.prems show ?case by (simp add: e)
qed



text \<open>
  C39: the stream reader on an entry with another field before \<open>myfield\<close>.  It takes the node two before
  the field for the identifier, which is the name of the other field, prints it, and asks for
  the entries after an identifier that does not exist.
\<close>

theorem stream_reader_wrong_id:
  assumes "sid \<noteq> ''myfield''" and "f \<noteq> ''myfield''" and "w \<noteq> ''myfield''"
  shows "stream_round req (Inr (nodes 0 (stream_reply [(sid, [f, w, ''myfield'', v])]))) sid0 =
    Inr ([(f, v)], f, request_clear req, Inr [])"
proof -
  let ?pre = "[mk_node map_t 1 0 [], mk_node blob_string_t 1 1 ''test-topic'', mk_node array_t 1 1 [],
      mk_node array_t 2 2 [], mk_node blob_string_t 1 3 sid, mk_node array_t 4 3 []]"
    and ?f = "mk_node blob_string_t 1 4 f" and ?w = "mk_node blob_string_t 1 4 w"
    and ?nd = "mk_node blob_string_t 1 4 ''myfield''" and ?v = "mk_node blob_string_t 1 4 v"
  have nodes: "nodes 0 (stream_reply [(sid, [f, w, ''myfield'', v])]) = (?pre @ [?f, ?w]) @ [?nd, ?v]"
    by (simp add: stream_reply_def stream_entry_def multiplicity_def numeral_eq_Suc)
  have skip: "stream_scan (pre @ nds @ post) (length pre) sid0 = stream_scan ((pre @ nds) @ post) (length (pre @ nds)) sid0"
    if "list_all (\<lambda>nd. node_value nd \<noteq> ''myfield'') nds" for pre nds post
    using that
  proof (induction nds arbitrary: pre)
    case (Cons nd nds)
    with scan_skip [of nd pre "nds @ post" sid0] Cons.IH [of "pre @ [nd]"] show ?case by simp
  qed simp
  have "list_all (\<lambda>nd. node_value nd \<noteq> ''myfield'') (?pre @ [?f, ?w])" using assms by (simp add: mk_node_def)
  from skip [OF this, of "[]" "[?nd, ?v]"] scan_field [of ?nd ?pre ?f ?w ?v "[]" sid0]
  have "stream_scan ((?pre @ [?f, ?w]) @ [?nd, ?v]) 0 sid0 =
      andThen (stream_scan (?pre @ [?f, ?w, ?nd, ?v]) (length (?pre @ [?f, ?w, ?nd, ?v])) f) (\<lambda>(lines, sid). Inr ((f, v) # lines, sid))"
    by (simp add: mk_node_def)
  moreover have "stream_scan (?pre @ [?f, ?w, ?nd, ?v]) (length (?pre @ [?f, ?w, ?nd, ?v])) f = Inr ([], f)"
    by (subst stream_scan.simps) simp
  ultimately show ?thesis by (simp only: stream_round_def nodes sum.case andThen.simps prod.case)
qed

theorem stream_reader_wrong_id_witness:
  "stream_round (new_request default_request_config) (Inr (nodes 0 (stream_reply [(''1-0'', [''a'', ''b'', ''myfield'', ''c''])]))) ''$'' =
    Inr ([(''a'', ''c'')], ''a'', request_clear (new_request default_request_config), Inr [])"
  using stream_reader_wrong_id [of "''1-0''" "''a''" "''b''" "new_request default_request_config" "''c''" "''$''"] by simp

end
