(* ===== verification/Sentinel.thy ===== *)
theory Sentinel
  imports Execution
begin

text \<open>
  The example \<^verbatim>\<open>cpp20_resolve_with_sentinel.cpp\<close>: a program that asks a list of sentinels for the address of
  a master.  Running the connection and executing the request for one sentinel is an argument of
  the loop; \<open>sentinel_answers\<close> instantiates it with the adapters of the library.
\<close>

section \<open>Definitions\<close>

definition sentinel_request :: "fault + request" where
  "sentinel_request =
     andThen (push no_user_type (new_request default_request_config) ''SENTINEL''
       [A_str ''get-master-addr-by-name'', A_str ''mymaster'']) (\<lambda>req. push no_user_type req ''QUIT'' [])"

definition sentinel_tys :: "result_ty list" where
  "sentinel_tys = [Optional_ty (Array_ty string_ty 2), Ignore_ty]"

text \<open>The elements of the array in the first response: \<open>value()\<close> throws on an error and on an empty optional.\<close>

fun array_strings :: "'d object \<Rightarrow> fault + string list" where
  "array_strings (Array_obj (i, [Plain_val (String_val a), Plain_val (String_val b)])) = Inr [a, b]"
| "array_strings _ = Inl Ill_Typed"

definition master_address :: "error_code option \<Rightarrow> 'd slot list \<Rightarrow> fault + address option" where
  "master_address ec resp =
     (case resp of
        Optional_slot w # _ \<Rightarrow>
          (case w_result w of
             Inl _ \<Rightarrow> Inr None
           | Inr None \<Rightarrow> if ec = None then Inl Bad_Value_Access else Inr None
           | Inr (Some x) \<Rightarrow>
               if ec = None then andThen (array_strings x) (\<lambda>ss. Inr (Some \<lparr>host = ss ! 0, port = ss ! 1\<rparr>)) else Inr None)
      | _ \<Rightarrow> Inl Ill_Typed)"

text \<open>
  The loop over the sentinels.  \<open>exec\<close> is what running the connection and executing the request does
  with the response object for an address; the object is declared before the loop.
\<close>

fun try_sentinels ::
  "(address \<Rightarrow> 'd slot list \<Rightarrow> fault + error_code option \<times> 'd slot list) \<Rightarrow> address list
    \<Rightarrow> 'd slot list \<Rightarrow> fault + address" where
  "try_sentinels exec [] resp = Inr default_address"
| "try_sentinels exec (a # as) resp =
     andThen (exec a resp) (\<lambda>(ec, resp).
     andThen (master_address ec resp) (\<lambda>found.
       case found of
         Some r \<Rightarrow> Inr r
       | None \<Rightarrow> try_sentinels exec as resp))"

definition resolve_master_address ::
  "'d platform \<Rightarrow> (address \<Rightarrow> 'd slot list \<Rightarrow> fault + error_code option \<times> 'd slot list)
    \<Rightarrow> address list \<Rightarrow> fault + address" where
  "resolve_master_address pf exec addresses = try_sentinels exec addresses (map (new_slot pf) sentinel_tys)"

section \<open>Specification\<close>

text \<open>What one sentinel does to the response: the replies it sends and the error of the operation.\<close>

definition sentinel_answers ::
  "'d platform \<Rightarrow> (address \<Rightarrow> resp list \<times> error_code option) \<Rightarrow> address \<Rightarrow> 'd slot list
    \<Rightarrow> fault + error_code option \<times> 'd slot list" where
  "sentinel_answers pf net a resp =
     andThen (adapt_response pf sentinel_tys resp) (\<lambda>(ss, A).
     andThen (feed_replies (adapt_fn A) 0 ss (fst (net a))) (\<lambda>(ss, ec).
       Inr (if ec \<noteq> None then ec else snd (net a), ss)))"

definition address_message :: "string \<Rightarrow> string \<Rightarrow> resp" where
  "address_message h p = Aggr array_t [Bulk blob_string_t h, Bulk blob_string_t p]"

section \<open>Properties\<close>

abbreviation master_ty :: result_ty where "master_ty \<equiv> Optional_ty (Array_ty string_ty 2)"

definition master_slot :: "bool \<Rightarrow> int \<Rightarrow> string \<Rightarrow> string \<Rightarrow> 'd slot" where
  "master_slot called i h p = Optional_slot \<lparr>w_result = Inr (Some (Array_obj (i, [Plain_val (String_val h), Plain_val (String_val p)]))),
     w_called_once = called\<rparr>"

lemma address_nodes:
  "nodes 0 (address_message h p) = [mk_node array_t 2 0 [], mk_node blob_string_t 1 1 h, mk_node blob_string_t 1 1 p]"
  by (simp add: address_message_def multiplicity_def)

lemma feed_master_first:
  "feed_nodes (result_adapter pf master_ty) (Optional_slot (new_wrapper None)) (nodes 0 (address_message h p)) =
     Inr (master_slot True 2 h p, None)"
  by (simp add: address_nodes opt_emb.lift_emb wrapper_optional_call_def new_wrapper_def object_call_def array_emb.lift_emb
      array_impl_def plain_emb.lift_emb string_emb.lift_emb convert_string_def master_slot_def numeral_2_eq_2)

lemma feed_master_again:
  "feed_nodes (result_adapter pf master_ty) (master_slot False (-1) h p) (nodes 0 (address_message h' p')) =
     Inr (master_slot True 2 (h @ h') (p @ p'), None)"
  by (simp add: address_nodes opt_emb.lift_emb wrapper_optional_call_def object_call_def array_emb.lift_emb
      array_impl_def plain_emb.lift_emb string_emb.lift_emb convert_string_def master_slot_def numeral_2_eq_2)

text \<open>The response of one attempt, on a new object and on the object of an earlier attempt.\<close>

lemma sentinel_adapt:
  "adapt_response pf sentinel_tys [Optional_slot (new_wrapper None), Ignore_slot] =
     Inr ([Optional_slot (new_wrapper None), Ignore_slot], any_static (positions (map (result_adapter pf) sentinel_tys)))"
  "adapt_response pf sentinel_tys [master_slot b i h p, Ignore_slot] =
     Inr ([master_slot False (-1) h p, Ignore_slot], any_static (positions (map (result_adapter pf) sentinel_tys)))"
  by (simp_all add: adapt_response_def sentinel_tys_def wrapper_optional_construct_def new_wrapper_def master_slot_def)

lemma feed_first_reply:
  assumes "feed_nodes (result_adapter pf master_ty) s (nodes 0 m) = Inr (s', None)"
  shows "feed_replies (adapt_fn (any_static (positions (map (result_adapter pf) sentinel_tys)))) 0 [s, Ignore_slot] (m # ms) =
    feed_replies (adapt_fn (any_static (positions (map (result_adapter pf) sentinel_tys)))) 1 [s', Ignore_slot] ms"
proof -
  have "static_adapter (positions (map (result_adapter pf) sentinel_tys)) 0 = at_position 0 (result_adapter pf master_ty)"
    by (simp add: fun_eq_iff static_adapter_def positions_nth sentinel_tys_def)
  with feed_at_position [of "result_adapter pf master_ty" "[s, Ignore_slot]" 0] assms show ?thesis
    by (simp add: any_static_def del: result_adapter.simps)
qed

lemma feed_quit_reply:
  "feed_replies (adapt_fn (any_static (positions (map (result_adapter pf) sentinel_tys)))) 1 [s, Ignore_slot] [status_reply t] =
    Inr ([s, Ignore_slot], None)"
  by (simp add: any_static_def static_adapter_def positions_nth sentinel_tys_def at_position_def ignore_def)

text \<open>
  C40: the address that the example for sentinels returns after a failed attempt.  The response is
  declared before the loop: if the first sentinel has sent the address of the master but its
  operation fails, for instance because the connection is lost before the reply to QUIT, the
  address that the second sentinel sends is appended to the first one.
\<close>

theorem sentinel_concatenates_addresses:
  assumes "net a = ([address_message h p], Some ec)" and "net a' = ([address_message h' p', status_reply ''OK''], None)"
  shows "resolve_master_address pf (sentinel_answers pf net) (a # a' # as) = Inr \<lparr>host = h @ h', port = p @ p'\<rparr>"
proof -
  have new: "map (new_slot pf) sentinel_tys = [Optional_slot (new_wrapper None), Ignore_slot]" by (simp add: sentinel_tys_def)
  have "sentinel_answers pf net a [Optional_slot (new_wrapper None), Ignore_slot] =
      Inr (Some ec, [master_slot True 2 h p, Ignore_slot])"
    by (simp only: sentinel_answers_def sentinel_adapt andThen.simps prod.case assms(1) fst_conv feed_first_reply [OF feed_master_first])
      simp
  moreover have "sentinel_answers pf net a' [master_slot True 2 h p, Ignore_slot] =
      Inr (None, [master_slot True 2 (h @ h') (p @ p'), Ignore_slot])"
    by (simp only: sentinel_answers_def sentinel_adapt andThen.simps prod.case assms(2) fst_conv
        feed_first_reply [OF feed_master_again] feed_quit_reply) simp
  ultimately show ?thesis
    by (simp add: resolve_master_address_def new) (simp add: master_address_def master_slot_def)
qed

theorem sentinel_concatenates_addresses_witness:
  "resolve_master_address plain_platform
     (sentinel_answers plain_platform (\<lambda>a. if host a = ''foo'' then ([address_message ''10.0.0.1'' ''6379''], Some operation_aborted)
        else ([address_message ''10.0.0.1'' ''6379'', status_reply ''OK''], None)))
     [\<lparr>host = ''foo'', port = ''26379''\<rparr>, \<lparr>host = ''bar'', port = ''26379''\<rparr>] = Inr \<lparr>host = ''10.0.0.110.0.0.1'', port = ''63796379''\<rparr>"
  using sentinel_concatenates_addresses [of "\<lambda>a. if host a = ''foo'' then ([address_message ''10.0.0.1'' ''6379''], Some operation_aborted)
        else ([address_message ''10.0.0.1'' ''6379'', status_reply ''OK''], None)" "\<lparr>host = ''foo'', port = ''26379''\<rparr>"
      "''10.0.0.1''" "''6379''" operation_aborted "\<lparr>host = ''bar'', port = ''26379''\<rparr>" "''10.0.0.1''" "''6379''" plain_platform "[]"]
  by simp

text \<open>
  A sentinel that does not know the master answers with null.  The example takes the result for an
  address, since it holds no error, and \<open>value()\<close> on the empty optional throws.
\<close>

lemma sentinel_unknown_master_throws:
  assumes "net a = ([Simple null_t [], status_reply ''OK''], None)"
  shows "resolve_master_address pf (sentinel_answers pf net) (a # as) = Inl Bad_Value_Access"
proof -
  let ?s = "Optional_slot \<lparr>w_result = Inr None, w_called_once = True\<rparr> :: 'a slot"
  have "feed_nodes (result_adapter pf master_ty) (Optional_slot (new_wrapper None)) (nodes 0 (Simple null_t [])) = Inr (?s, None)"
    by (simp add: opt_emb.lift_emb wrapper_optional_call_def new_wrapper_def)
  from feed_first_reply [OF this]
  have "sentinel_answers pf net a [Optional_slot (new_wrapper None), Ignore_slot] = Inr (None, [?s, Ignore_slot])"
    by (simp only: sentinel_answers_def sentinel_adapt andThen.simps prod.case assms fst_conv feed_quit_reply) simp
  then show ?thesis by (simp add: resolve_master_address_def sentinel_tys_def master_address_def)
qed

end
