(* ===== verification/Echo_Server.thy ===== *)
theory Echo_Server
  imports Execution
begin

text \<open>
  The examples built on PING: the session of \<^verbatim>\<open>cpp20_echo_server.cpp\<close>, \<^verbatim>\<open>cpp20_intro.cpp\<close>, \<^verbatim>\<open>cpp17_intro_sync.cpp\<close>
  and the class \<^verbatim>\<open>sync_connection\<close> it uses.  The session declares its request and its response once and uses
  them for every line of its client.
\<close>

section \<open>Definitions\<close>

subsection \<open>The echo server\<close>

definition echo_request :: "request \<Rightarrow> string \<Rightarrow> fault + request" where
  "echo_request req buffer = push no_user_type req ''PING'' [A_str buffer]"

text \<open>\<open>value()\<close> of the response, which is written to the client, and the response after \<open>clear()\<close>.\<close>

definition echo_answer :: "'d slot list erased_connection \<Rightarrow> fault + string \<times> 'd slot list erased_connection" where
  "echo_answer e =
     (let c = impl e
      in case user_resp (c_responses c) of
           [Result_slot w] \<Rightarrow>
             (case w_result w of
                Inl _ \<Rightarrow> Inl Bad_Value_Access
              | Inr (Simple_obj (Plain_val (String_val text))) \<Rightarrow>
                  Inr (text, e\<lparr>impl := c\<lparr>c_responses := (c_responses c)\<lparr>user_resp :=
                    [Result_slot (w\<lparr>w_result := Inr (Simple_obj (Plain_val (String_val [])))\<rparr>)]\<rparr>\<rparr>\<rparr>)
              | _ \<Rightarrow> Inl Ill_Typed)
         | _ \<Rightarrow> Inl Ill_Typed)"

text \<open>
  The number of bytes \<open>async_read_until\<close> reports once the buffer contains a newline: up to and with the
  first of them.
\<close>

definition line_length :: "string \<Rightarrow> nat" where
  "line_length buffer = length (takeWhile (\<lambda>c. c \<noteq> CHR 0x0A) buffer) + 1"

text \<open>
  \<open>async_read_until\<close> with \<^verbatim>\<open>dynamic_buffer(buffer, 1024)\<close>: it reads nothing if the buffer has a newline already, and
  at most as much as the buffer may hold otherwise.
\<close>

definition read_until :: "string \<Rightarrow> string \<Rightarrow> bool" where
  "read_until buffer data \<longleftrightarrow> CHR 0x0A \<in> set (buffer @ data) \<and> (CHR 0x0A \<in> set buffer \<longrightarrow> data = []) \<and> length (buffer @ data) \<le> 1024"

text \<open>
  Rounds of the session with the data that each of them reads from the client, the texts that are written
  to and answered by the server, and the texts written to the client.
\<close>

inductive echo_session ::
  "messages \<Rightarrow> (call list \<Rightarrow> bool) \<Rightarrow> 'd platform \<Rightarrow> request \<Rightarrow> string \<Rightarrow> 'd slot list system
    \<Rightarrow> (string \<times> string \<times> string) list \<Rightarrow> string list \<Rightarrow> 'd slot list system \<Rightarrow> bool"
  for msg :: messages and try_send :: "call list \<Rightarrow> bool" and pf :: "'d platform" where
  echo_waits: "echo_session msg try_send pf req buffer s [] [] s"
| echo_round: "read_until buffer data \<Longrightarrow> echo_request req (buffer @ data) = Inr req' \<Longrightarrow>
    awaits msg try_send ec (erased_async_exec_response pf [ping_ty] req') s out inp s1 \<Longrightarrow>
    echo_answer \<lparr>impl = s_conn s1\<rparr> = Inr (text, e) \<Longrightarrow>
    echo_session msg try_send pf (request_clear req') (drop (line_length (buffer @ data)) (buffer @ data))
      (s1\<lparr>s_conn := impl e\<rparr>) ios texts s' \<Longrightarrow>
    echo_session msg try_send pf req buffer s ((data, out, inp) # ios) (text # texts) s'"

subsection \<open>Introductions\<close>

definition intro_request :: "fault + request" where
  "intro_request = push no_user_type (new_request default_request_config) ''PING'' [A_str ''Hello world'']"

definition intro :: "'d platform \<Rightarrow> 'd slot list erased_connection \<Rightarrow> fault + 'd slot list erased_connection \<times> ptr" where
  "intro pf e = andThen intro_request (\<lambda>req. erased_async_exec_response pf [ping_ty] req (declare_response pf [ping_ty] e))"

definition intro_print :: "'d slot list erased_connection \<Rightarrow> fault + string" where
  "intro_print e = andThen (echo_answer e) (\<lambda>(text, _). Inr (''PING: '' @ text @ newline))"

record 'u sync_connection =
  conn :: "'u erased_connection"

definition sync_run ::
  "config \<Rightarrow> messages \<Rightarrow> logger \<Rightarrow> 'u sync_connection
    \<Rightarrow> fault + 'u sync_connection \<times> logger \<times> (run_pc, error_code option) outcome" where
  "sync_run cfg msg l sc = andThen (erased_async_run cfg msg l (conn sc)) (\<lambda>(e, l, out). Inr (sc\<lparr>conn := e\<rparr>, l, out))"

definition sync_stop :: "'u sync_connection \<Rightarrow> 'u sync_connection" where
  "sync_stop sc = sc\<lparr>conn := erased_cancel op_all (conn sc)\<rparr>"

definition sync_exec ::
  "'d platform \<Rightarrow> result_ty list \<Rightarrow> request \<Rightarrow> 'd slot list sync_connection \<Rightarrow> fault + 'd slot list sync_connection \<times> ptr" where
  "sync_exec pf Ts req sc =
     andThen (erased_async_exec_response pf Ts req (conn sc)) (\<lambda>(e, p). Inr (sc\<lparr>conn := e\<rparr>, p))"

definition sync_ping ::
  "'d platform \<Rightarrow> 'd slot list sync_connection \<Rightarrow> fault + 'd slot list sync_connection \<times> ptr" where
  "sync_ping pf sc =
     andThen (push no_user_type (new_request default_request_config) ''PING'' [])
       (\<lambda>req. sync_exec pf [ping_ty] req (sc\<lparr>conn := declare_response pf [ping_ty] (conn sc)\<rparr>))"

definition sync_print :: "'d slot list sync_connection \<Rightarrow> fault + string" where
  "sync_print sc = andThen (echo_answer (conn sc)) (\<lambda>(text, _). Inr (''Response: '' @ text @ newline))"

section \<open>Properties\<close>

text \<open>The texts fit: a buffer holds at most 1024 bytes.\<close>

lemma length_to_string_nat: "length (to_string_nat n) \<le> n + 1"
proof (induction n rule: to_string_nat.induct)
  case (1 n)
  then show ?case by (cases "n < 10") (simp_all add: to_string_nat.simps [of n])
qed

lemma short_reply: "length line \<le> 1024 \<Longrightarrow> length (encode (Bulk t line)) < 2 ^ 64"
  using length_to_string_nat [of "length line"] by (simp add: length_header)

lemma echo_job:
  assumes "represents req [(''PING'', [line])]" and "length line \<le> 1024"
  shows "job_ok pf ([ping_ty], req, [(''PING'', [line])], [Bulk blob_string_t line], [Bulk_reply (Plain_val (String_val line))])"
  using assms short_reply [OF assms(2)] by (simp add: ping_ty_def is_null_def expects_response_def is_push_def header_def wire_def)

lemma ping_value:
  assumes "those (map slot_value xs) = Some [Bulk_reply (Plain_val (String_val line))]" and "list_all2 slot_ok [ping_ty] xs"
  obtains w where "xs = [Result_slot w]" and "w_result w = Inr (Simple_obj (Plain_val (String_val line)))"
proof -
  from assms obtain x where x: "xs = [x]" "slot_value x = Some (Bulk_reply (Plain_val (String_val line)))" "slot_ok ping_ty x"
    by (auto simp: those_eq_Some)
  from x(3) obtain w where w: "x = Result_slot w" by (cases x) (auto simp: ping_ty_def holds_def)
  with x(2,3) obtain o1 where "w_result w = Inr o1" "object_ok (Simple_ty string_ty) o1"
      "object_value o1 = Bulk_reply (Plain_val (String_val line))"
    by (auto simp: ping_ty_def holds_def result_ok_def split: sum.splits)
  then have "w_result w = Inr (Simple_obj (Plain_val (String_val line)))"
    by (cases o1) (auto simp: object_ok_def holds_def)
  with x(1) w that show thesis by blast
qed

lemma adapt_again:
  assumes "w_result w = Inr x"
  shows "adapt_response pf [ping_ty] [Result_slot w] = adapt_response pf [ping_ty] (map (new_slot pf) [ping_ty])"
  using assms by (simp add: adapt_response_def ping_ty_def wrapper_construct_def new_wrapper_def)

text \<open>One round, with the response object of the round before.\<close>

lemma echo_once:
  assumes "at_rest s" and "\<forall>ks. try_send ks" and "user_resp (c_responses (s_conn s)) = [Result_slot w]" and "w_result w = Inr x"
    and "represents req []" and "length line \<le> 1024"
  shows "\<exists>req' s1 e w'. echo_request req line = Inr req' \<and> represents (request_clear req') []
    \<and> awaits msg try_send ec (erased_async_exec_response pf [ping_ty] req') s (command_text (''PING'', [line]))
        (encode (Bulk blob_string_t line)) s1
    \<and> echo_answer \<lparr>impl = s_conn s1\<rparr> = Inr (line, e) \<and> at_rest (s1\<lparr>s_conn := impl e\<rparr>)
    \<and> user_resp (c_responses (impl e)) = [Result_slot w'] \<and> w_result w' = Inr (Simple_obj (Plain_val (String_val [])))"
proof -
  obtain req' where req': "push no_user_type req ''PING'' [A_str line] = Inr req'" "represents req' ([] @ [(''PING'', [line])])"
    by (rule push_strings [OF assms(5), of "[A_str line]" no_user_type]) auto
  have reuse: "adapt_response pf [ping_ty] (user_resp (c_responses (s_conn s))) = adapt_response pf [ping_ty] (map (new_slot pf) [ping_ty])"
    unfolding assms(3) by (rule adapt_again [OF assms(4)])
  from exec_reuses [OF assms(1,2) reuse echo_job [OF req'(2) [unfolded append.simps] assms(6)], of msg ec] obtain s1 where
    s1: "awaits msg try_send ec (erased_async_exec_response pf [ping_ty] req') s (command_text (''PING'', [line])) (encode (Bulk blob_string_t line)) s1"
      "those (map slot_value (user_resp (c_responses (s_conn s1)))) = Some [Bulk_reply (Plain_val (String_val line))]"
      "list_all2 slot_ok [ping_ty] (user_resp (c_responses (s_conn s1)))" "at_rest s1"
    by auto
  obtain w1 where w1: "user_resp (c_responses (s_conn s1)) = [Result_slot w1]" "w_result w1 = Inr (Simple_obj (Plain_val (String_val line)))"
    using s1(2,3) by (rule ping_value)
  let ?w = "w1\<lparr>w_result := Inr (Simple_obj (Plain_val (String_val [])))\<rparr>"
  let ?e = "\<lparr>impl = (s_conn s1)\<lparr>c_responses := (c_responses (s_conn s1))\<lparr>user_resp := [Result_slot ?w]\<rparr>\<rparr>\<rparr>"
  have "represents (request_clear req') []" by (rule represents_clear)
  moreover have "echo_answer \<lparr>impl = s_conn s1\<rparr> = Inr (line, ?e)" by (simp add: echo_answer_def w1 Let_def)
  moreover have "at_rest (s1\<lparr>s_conn := impl ?e\<rparr>)" using s1(4) by (simp add: at_rest_def resting_def)
  ultimately show ?thesis using req'(1) s1(1)
    by (intro exI [of _ req'] exI [of _ s1] exI [of _ ?e] exI [of _ ?w]) (simp add: echo_request_def)
qed

definition is_line :: "string \<Rightarrow> bool" where
  "is_line line \<longleftrightarrow> (\<exists>w. line = w @ [CHR 0x0A] \<and> CHR 0x0A \<notin> set w) \<and> length line \<le> 1024"

lemma line_length_first:
  assumes "is_line line"
  shows "line_length (line @ rest) = length line"
proof -
  from assms obtain w where w: "line = w @ [CHR 0x0A]" "CHR 0x0A \<notin> set w" by (auto simp: is_line_def)
  then have "takeWhile (\<lambda>c. c \<noteq> CHR 0x0A) (w @ CHR 0x0A # rest) = w" by (induction w arbitrary: line) auto
  with w(1) show ?thesis by (simp add: line_length_def)
qed

lemmas line_length_line = line_length_first [of _ "[]", unfolded append_Nil2]

text \<open>
  C23: a session of the echo server.  If its client sends one line at a time and the server answers PING
  with its argument, the session writes back exactly the lines it has read, for any number of
  rounds with the same request and response object, and the connection is at rest after each of them.
\<close>

theorem echo_session_echoes:
  assumes "at_rest s" and "\<forall>ks. try_send ks" and "user_resp (c_responses (s_conn s)) = map (new_slot pf) [ping_ty]"
    and "represents req []" and "list_all is_line lines"
  shows "\<exists>s'. echo_session msg try_send pf req [] s
      (map (\<lambda>l. (l, command_text (''PING'', [l]), encode (Bulk blob_string_t l))) lines) lines s' \<and> at_rest s'"
proof -
  have "\<exists>s'. echo_session msg try_send pf req [] s
      (map (\<lambda>l. (l, command_text (''PING'', [l]), encode (Bulk blob_string_t l))) lines) lines s' \<and> at_rest s'"
    if "at_rest s" "user_resp (c_responses (s_conn s)) = [Result_slot w]" "w_result w = Inr x" "represents req []"
    for s w x req
    using assms(5) that
  proof (induction lines arbitrary: s w x req)
    case Nil
    then show ?case by (auto intro: echo_waits)
  next
    case (Cons line lines)
    have line: "is_line line" "length line \<le> 1024" using Cons.prems(1) by (auto simp: is_line_def)
    from echo_once [OF Cons.prems(2) assms(2) Cons.prems(3-5) line(2), of msg None pf] obtain req' s1 e w' where
      r: "echo_request req line = Inr req'" "represents (request_clear req') []"
        "awaits msg try_send None (erased_async_exec_response pf [ping_ty] req') s (command_text (''PING'', [line]))
          (encode (Bulk blob_string_t line)) s1"
        "echo_answer \<lparr>impl = s_conn s1\<rparr> = Inr (line, e)" "at_rest (s1\<lparr>s_conn := impl e\<rparr>)"
        "user_resp (c_responses (impl e)) = [Result_slot w']" "w_result w' = Inr (Simple_obj (Plain_val (String_val [])))"
      by blast
    from Cons.IH [of "s1\<lparr>s_conn := impl e\<rparr>" w' _ "request_clear req'"] Cons.prems(1) r(2,5-7) obtain s' where
      "echo_session msg try_send pf (request_clear req') [] (s1\<lparr>s_conn := impl e\<rparr>)
        (map (\<lambda>l. (l, command_text (''PING'', [l]), encode (Bulk blob_string_t l))) lines) lines s'" "at_rest s'" by auto
    moreover have "drop (line_length line) line = []" "read_until [] line" using line(1) line_length_line by (auto simp: is_line_def read_until_def)
    ultimately have "echo_session msg try_send pf req [] s
        (map (\<lambda>l. (l, command_text (''PING'', [l]), encode (Bulk blob_string_t l))) (line # lines)) (line # lines) s'"
      using echo_round [of "[]" line req req' msg try_send None pf s _ _ s1 line e] r(1,3,4) by simp
    with \<open>at_rest s'\<close> show ?case by blast
  qed
  from this [OF assms(1) _ _ assms(4)] assms(3) show ?thesis by (simp add: ping_ty_def new_wrapper_def)
qed

theorem echo_session_echoes_witness:
  "\<exists>c0 ios s'. new_connection (\<lambda>_. new_elem (new_request default_request_config) ignore_adapter)
        (map (new_slot plain_platform) [ping_ty]) = Inr c0
    \<and> echo_session silent accepting plain_platform (new_request default_request_config) [] (resting_system c0) ios
        [''a'' @ newline, ''b'' @ newline] s'"
proof -
  let ?lines = "[''a'' @ newline, ''b'' @ newline]"
  obtain c0 where c0: "new_connection (\<lambda>_. new_elem (new_request default_request_config) ignore_adapter)
        (map (new_slot plain_platform) [ping_ty]) = Inr c0"
      "at_rest (resting_system c0)" "user_resp (c_responses (s_conn (resting_system c0))) = map (new_slot plain_platform) [ping_ty]"
    by (rule resting_connection)
  have lines: "list_all is_line ?lines" by (simp add: is_line_def newline_def)
  show ?thesis using echo_session_echoes [OF c0(2) _ c0(3) represents_new lines, of accepting silent] c0(1) by blast
qed

text \<open>
  C38: pipelined lines.  The session sends the whole buffer to the server but removes only
  its first line, so of two lines that arrive together the second is echoed twice.
\<close>

theorem echo_session_repeats:
  assumes "at_rest s" and "\<forall>ks. try_send ks" and "user_resp (c_responses (s_conn s)) = map (new_slot pf) [ping_ty]"
    and "represents req []" and "is_line line1" and "is_line line2" and "length (line1 @ line2) \<le> 1024"
  shows "\<exists>s'. echo_session msg try_send pf req [] s
      [(line1 @ line2, command_text (''PING'', [line1 @ line2]), encode (Bulk blob_string_t (line1 @ line2))),
       ([], command_text (''PING'', [line2]), encode (Bulk blob_string_t line2))]
      [line1 @ line2, line2] s' \<and> at_rest s'"
proof -
  let ?io = "\<lambda>l. (command_text (''PING'', [l]), encode (Bulk blob_string_t l))"
  obtain w0 x0 where w0: "user_resp (c_responses (s_conn s)) = [Result_slot w0]" "w_result w0 = Inr x0"
    using assms(3) by (auto simp: ping_ty_def new_wrapper_def)
  from echo_once [OF assms(1,2) w0 assms(4,7), of msg None pf] obtain req1 s1 e1 w1 where
    r1: "echo_request req (line1 @ line2) = Inr req1" "represents (request_clear req1) []"
      "awaits msg try_send None (erased_async_exec_response pf [ping_ty] req1) s (fst (?io (line1 @ line2))) (snd (?io (line1 @ line2))) s1"
      "echo_answer \<lparr>impl = s_conn s1\<rparr> = Inr (line1 @ line2, e1)" "at_rest (s1\<lparr>s_conn := impl e1\<rparr>)"
      "user_resp (c_responses (s_conn (s1\<lparr>s_conn := impl e1\<rparr>))) = [Result_slot w1]" "w_result w1 = Inr (Simple_obj (Plain_val (String_val [])))"
    by auto
  have short: "length line2 \<le> 1024" using assms(6) by (simp add: is_line_def)
  from echo_once [OF r1(5) assms(2) r1(6,7,2) short, of msg None pf] obtain req2 s2 e2 where
    r2: "echo_request (request_clear req1) line2 = Inr req2"
      "awaits msg try_send None (erased_async_exec_response pf [ping_ty] req2) (s1\<lparr>s_conn := impl e1\<rparr>) (fst (?io line2)) (snd (?io line2)) s2"
      "echo_answer \<lparr>impl = s_conn s2\<rparr> = Inr (line2, e2)" "at_rest (s2\<lparr>s_conn := impl e2\<rparr>)"
    by auto
  have reads: "read_until [] (line1 @ line2)" "read_until line2 []" "drop (line_length (line1 @ line2)) (line1 @ line2) = line2"
    using assms(5-7) line_length_first [OF assms(5)] by (auto simp: is_line_def read_until_def)
  have second: "echo_session msg try_send pf (request_clear req1) line2 (s1\<lparr>s_conn := impl e1\<rparr>) [([], ?io line2)] [line2] (s2\<lparr>s_conn := impl e2\<rparr>)"
    using echo_round [OF reads(2) _ _ r2(3) echo_waits] r2(1,2) by simp
  have "echo_session msg try_send pf req [] s ((line1 @ line2, ?io (line1 @ line2)) # [([], ?io line2)]) ((line1 @ line2) # [line2]) (s2\<lparr>s_conn := impl e2\<rparr>)"
    by (rule echo_round [where e = e1]) (use r1(1,3,4) reads(1,3) second in \<open>simp_all only: append_Nil fst_conv snd_conv\<close>)
  with r2(4) show ?thesis by blast
qed

theorem echo_session_repeats_witness:
  "\<exists>c0 ios s'. new_connection (\<lambda>_. new_elem (new_request default_request_config) ignore_adapter)
        (map (new_slot plain_platform) [ping_ty]) = Inr c0
    \<and> echo_session silent accepting plain_platform (new_request default_request_config) [] (resting_system c0) ios
        [(''a'' @ newline) @ (''b'' @ newline), ''b'' @ newline] s'"
proof -
  obtain c0 where c0: "new_connection (\<lambda>_. new_elem (new_request default_request_config) ignore_adapter)
        (map (new_slot plain_platform) [ping_ty]) = Inr c0"
      "at_rest (resting_system c0)" "user_resp (c_responses (s_conn (resting_system c0))) = map (new_slot plain_platform) [ping_ty]"
    by (rule resting_connection)
  have lines: "is_line (''a'' @ newline)" "is_line (''b'' @ newline)" "length ((''a'' @ newline) @ (''b'' @ newline)) \<le> 1024"
    by (simp_all add: is_line_def newline_def)
  show ?thesis using echo_session_repeats [OF c0(2) _ c0(3) represents_new lines, of accepting silent] c0(1) by blast
qed

text \<open>
  The introduction prints the argument of its PING.
\<close>

theorem intro_prints:
  assumes "at_rest s" and "\<forall>ks. try_send ks"
  shows "\<exists>s'. awaits msg try_send ec (intro pf) s (command_text (''PING'', [''Hello world''])) (encode (Bulk blob_string_t ''Hello world'')) s'
    \<and> intro_print \<lparr>impl = s_conn s'\<rparr> = Inr (''PING: Hello world'' @ newline) \<and> at_rest s'"
proof -
  obtain req where req: "intro_request = Inr req" "represents req ([] @ [(''PING'', [''Hello world''])])"
    unfolding intro_request_def by (rule push_strings [OF represents_new, of "[A_str ''Hello world'']" no_user_type]) auto
  have f: "intro pf = (\<lambda>e. erased_async_exec_response pf [ping_ty] req (declare_response pf [ping_ty] e))"
    by (simp only: fun_eq_iff intro_def req(1) andThen.simps) simp
  have "length ''Hello world'' \<le> 1024" by simp
  from declared_exec [OF assms echo_job [OF req(2) [unfolded append.simps] this], of msg ec] obtain s' where
    s': "awaits msg try_send ec (intro pf) s (command_text (''PING'', [''Hello world''])) (encode (Bulk blob_string_t ''Hello world'')) s'"
      "those (map slot_value (user_resp (c_responses (s_conn s')))) = Some [Bulk_reply (Plain_val (String_val ''Hello world''))]"
      "list_all2 slot_ok [ping_ty] (user_resp (c_responses (s_conn s')))" "at_rest s'"
    unfolding f by auto
  obtain w where "user_resp (c_responses (s_conn s')) = [Result_slot w]" "w_result w = Inr (Simple_obj (Plain_val (String_val ''Hello world'')))"
    using s'(2,3) by (rule ping_value)
  with s'(1,4) show ?thesis by (auto simp: intro_print_def echo_answer_def Let_def)
qed

text \<open>
  The synchronous one prints the reply to a PING without argument.  It stops the connection before it
  reads the response, which \<open>cancel\<close> leaves as it is.
\<close>

lemma cancel_all_responses: "c_responses (cancel op_all c) = c_responses c"
  by (simp add: conn_cancel_waiting_def checker_cancel_def no_reconnection_def resolver_cancel_def cancel_run_def close_def do_call_def Let_def)

theorem sync_prints:
  assumes "at_rest s" and "\<forall>ks. try_send ks"
  shows "\<exists>s'. awaits msg try_send ec (\<lambda>e. andThen (sync_ping pf \<lparr>conn = e\<rparr>) (\<lambda>(sc, p). Inr (conn sc, p))) s
      (command_text (''PING'', [])) (encode (status_reply ''PONG'')) s'
    \<and> sync_print (sync_stop \<lparr>conn = \<lparr>impl = s_conn s'\<rparr>\<rparr>) = Inr (''Response: PONG'' @ newline)"
proof -
  let ?f = "\<lambda>e. andThen (sync_ping pf \<lparr>conn = e\<rparr>) (\<lambda>(sc, p). Inr (conn sc, p))"
  obtain req where req: "push no_user_type (new_request default_request_config) ''PING'' [] = Inr req" "represents req ([] @ [(''PING'', [])])"
    by (rule push_strings [OF represents_new, of "[]" no_user_type]) auto
  have f: "?f = (\<lambda>e. erased_async_exec_response pf [ping_ty] req (declare_response pf [ping_ty] e))"
  proof
    fix e
    show "?f e = erased_async_exec_response pf [ping_ty] req (declare_response pf [ping_ty] e)"
      by (cases "erased_async_exec_response pf [ping_ty] req (declare_response pf [ping_ty] e)")
        (auto simp: sync_ping_def req(1) sync_exec_def)
  qed
  have "job_ok pf ([ping_ty], req, [(''PING'', [])], [status_reply ''PONG''], [Bulk_reply (Plain_val (String_val ''PONG''))])"
    using req(2) by (simp add: ping_ty_def is_null_def expects_response_def is_push_def header_def wire_def) code_simp
  from declared_exec [OF assms this, of msg ec] obtain s' where
    s': "awaits msg try_send ec ?f s (command_text (''PING'', [])) (encode (status_reply ''PONG'')) s'"
      "those (map slot_value (user_resp (c_responses (s_conn s')))) = Some [Bulk_reply (Plain_val (String_val ''PONG''))]"
      "list_all2 slot_ok [ping_ty] (user_resp (c_responses (s_conn s')))"
    unfolding f by auto
  obtain w where "user_resp (c_responses (s_conn s')) = [Result_slot w]" "w_result w = Inr (Simple_obj (Plain_val (String_val ''PONG'')))"
    using s'(2,3) by (rule ping_value)
  with s'(1) show ?thesis by (auto simp: sync_print_def sync_stop_def erased_cancel_def cancel_all_responses echo_answer_def Let_def simp del: cancel.simps)
qed

end
