(* ===== verification/Spec2Isabelle.thy ===== *)
theory Spec2Isabelle
  imports Multiplexer_Properties Runner Containers Receivers Streams Sentinel Echo_Server
begin

text \<open>
  A verification of Boost.Redis, the C++ client library of the Redis server; the sources
  named below are under \<^verbatim>\<open>src/include/boost/redis\<close>, the examples under \<^verbatim>\<open>src/example\<close>.

  \<^bold>\<open>The program.\<close>  A user pushes commands into a \<open>request\<close> and starts \<open>async_exec\<close> with it and a
  response object.  The \<open>multiplexer\<close> queues the request, coalesces the payloads of all waiting
  requests into one write, parses what the server sends with the incremental RESP3 \<open>parser\<close>, and
  gives the nodes of each message to the adapter of the request it answers, or to the receive
  adapter if the server pushed it.  The \<open>connection\<close> drives the multiplexer with coroutines: a reader,
  a writer, the handshake, the health check, and \<open>run_op\<close>, which connects, runs these five in
  a parallel group and reconnects.

  \<^bold>\<open>Theories and sources.\<close>

  \<^item> \<open>Prelude\<close>: \<open>size_t\<close> as 64-bit words, \<open>fault\<close> for broken preconditions and exceptions, the parts
    of the standard library the sources use, runs of transition systems and the locale
    \<open>step_invariant\<close>.
  \<^item> \<open>Errors\<close>: \<^verbatim>\<open>error.hpp\<close>, \<^verbatim>\<open>impl/error.ipp\<close>.  \<open>Resp3_Type\<close>: \<^verbatim>\<open>resp3/type.hpp\<close>, \<^verbatim>\<open>resp3/node.hpp\<close>.
  \<^item> \<open>Parser\<close>: \<^verbatim>\<open>resp3/parser.hpp\<close>, \<^verbatim>\<open>resp3/impl/parser.ipp\<close>; the record \<open>parser\<close> has the members of the
    class, \<open>consume\<close> is one step and \<open>parse\<close> the loop with an adapter.  \<open>Parser_Safety\<close> shows on which
    lines it can fault, with the locale \<open>adapter_contract\<close> for adapters that accept every node;
    \<open>Parser_Incremental\<close> that the result does not depend on how the input is cut into pieces.
  \<^item> \<open>Serialization\<close>: \<^verbatim>\<open>resp3/serialization.hpp\<close>, \<^verbatim>\<open>resp3/impl/serialization.ipp\<close>.
  \<^item> \<open>Resp3_Message\<close>: the specification of the protocol, messages as trees (\<open>resp\<close>) with their text
    (\<open>encode\<close>) and their nodes in pre-order (\<open>nodes\<close>), and the round trip with the parser.
  \<^item> \<open>Request\<close>: \<^verbatim>\<open>request.hpp\<close>, \<^verbatim>\<open>impl/request.ipp\<close>; \<open>represents\<close> is the list of commands a request stands
    for.
  \<^item> \<open>Adapters\<close>: \<^verbatim>\<open>adapter/\<close>, \<^verbatim>\<open>impl/response.ipp\<close>, one definition per class that the templates choose
    from the type of the response.  \<open>Adapter_Properties\<close>: what they read, with the locale
    \<open>value_contract\<close>, which gives \<open>adapter_contract\<close> for the wrapped adapter.
  \<^item> \<open>Response_Types\<close>: the types a response may have as the data types \<open>scalar_ty\<close>, \<open>bulk_ty\<close>, \<open>object_ty\<close>
    and \<open>result_ty\<close>, and the templates that choose the code by the type, \<open>converter\<close>, \<open>impl_map\<close>,
    \<open>result_traits\<close>, \<open>response_traits\<close>, as functions on them.  An object of any type is a \<open>slot\<close>; code on
    the wrong type is the fault \<open>Ill_Typed\<close>.  \<open>Response_Typing\<close>: with the locale \<open>embedding\<close> of one type into
    the slots, the predicate \<open>slot_ok\<close> and that every adapter keeps it.  \<open>Response_Decoding\<close>: the
    reference decoder \<open>decode_result\<close> on message trees, which the adapters implement node by node.
  \<^item> \<open>Multiplexer\<close>: \<^verbatim>\<open>detail/multiplexer.hpp\<close>, \<^verbatim>\<open>impl/multiplexer.ipp\<close>, \<^verbatim>\<open>usage.hpp\<close>; a shared pointer is an
    address into \<open>m_heap\<close>.  \<open>Multiplexer_Queue\<close>: the invariant \<open>queue_ok\<close> and the effect of every
    operation on the components of the state.  \<open>Multiplexer_Read\<close>: \<open>commit_read\<close> as one equation, the
    step relation \<open>mpx_step\<close> over all operations and its invariants.  \<open>Multiplexer_Delivery\<close>: the
    specification \<open>dispatch\<close> of who gets which message, and that \<open>commit_read\<close> implements it.
    \<open>Multiplexer_Properties\<close>: the properties.
  \<^item> \<open>Config\<close>: \<^verbatim>\<open>config.hpp\<close>, \<^verbatim>\<open>operation.hpp\<close>.  \<open>Logger\<close>: \<^verbatim>\<open>logger.hpp\<close>, \<^verbatim>\<open>impl/logger.ipp\<close>.
  \<^item> \<open>Handshaker\<close>: \<^verbatim>\<open>detail/resp3_handshaker.hpp\<close>, \<^verbatim>\<open>impl/resp3_handshaker.ipp\<close>.  \<open>Health_Checker\<close>:
    \<^verbatim>\<open>detail/health_checker.hpp\<close>, \<^verbatim>\<open>detail/resolver.hpp\<close>, \<^verbatim>\<open>detail/connector.hpp\<close>.
  \<^item> \<open>Connection\<close>: \<^verbatim>\<open>connection.hpp\<close>, \<^verbatim>\<open>detail/helper.hpp\<close> and the coroutines of the two former.  A
    coroutine is a function from its suspension point and the result it is resumed with to the next
    suspension point or its completion.  \<open>Connection_Invariants\<close>: what every operation keeps
    (\<open>conn_ok\<close>, \<open>tame\<close>).  \<open>Connection_Runs\<close>: the step relation \<open>sys_step\<close> of a connection with its
    suspended coroutines, under any interleaving of completions, and its invariant \<open>sys_ok\<close>.
    \<open>Connection_Properties\<close>: the properties.
  \<^item> \<open>Runner\<close>: \<^verbatim>\<open>detail/runner.hpp\<close>, and how its coroutines are related to those of the connection.
  \<^item> \<open>Execution\<close>: \<open>async_exec\<close> with a typed response, \<^verbatim>\<open>class connection\<close> and \<^verbatim>\<open>impl/connection.ipp\<close>,
    \<^verbatim>\<open>detail/write.hpp\<close>, an execution from the call to its completion through all components
    (\<open>answered\<close>, \<open>awaits\<close>), and sequences of them (\<open>session\<close>) between states in which the connection is
    idle (\<open>at_rest\<close>).  The theories of the examples are built on it.
  \<^item> \<open>Containers\<close>: \<^verbatim>\<open>cpp20_containers.cpp\<close>, every function and the program as the relation \<open>containers_main\<close>.
    \<open>Receivers\<close>: the coroutines of \<^verbatim>\<open>cpp20_subscriber.cpp\<close> and \<^verbatim>\<open>cpp20_chat_room.cpp\<close>, and the step relation
    \<open>pipeline\<close> of a receiver that runs concurrently with the reader.  \<open>Streams\<close>: \<^verbatim>\<open>cpp20_streams.cpp\<close>.
    \<open>Sentinel\<close>: \<^verbatim>\<open>cpp20_resolve_with_sentinel.cpp\<close>.  \<open>Echo_Server\<close>: \<^verbatim>\<open>cpp20_echo_server.cpp\<close>, \<^verbatim>\<open>cpp20_intro.cpp\<close>,
    \<^verbatim>\<open>cpp17_intro_sync.cpp\<close> and \<^verbatim>\<open>sync_connection.hpp\<close>.

  \<^bold>\<open>What is shown.\<close>  The parser reads exactly the messages of the specification, returns on every
  input and faults only on the listed lines.  Requests put on the wire what they stand for.  The
  adapters of all supported types keep their objects well typed and build the values the
  messages denote.  The multiplexer keeps its queue in order, gives
  every reply to the request it answers and never violates its assertions.  The connection
  writes the handshake first, loses no request, stages requests only while it writes, and ends them
  all when it is cancelled.  A request with a typed response is written, answered, decoded and
  completed, any number of them one after the other, with new or reused response objects.  The
  examples print what the server holds or sends, from the bytes on the wire to the text.  A last group
  of theorems, listed under the findings, shows behaviour that is not intended: requests sent again
  after an error or with a stale counter, a miscounted tuple, exceptions after an error reply, runs
  that fail after a pong timeout or a refused handshake, responses that cannot be used twice, and
  examples that lose or repeat data or take a field for an identifier.

  \<^bold>\<open>Bounds.\<close>  There is no fuel: \<open>parse\<close> ends because every step consumes input, \<open>partition_search\<close>
  because the range shrinks, \<open>reader_commit\<close> because every message makes the read buffer shorter, and
  \<open>stream_scan\<close> because the index grows.  The loops of the examples that never end are relations on their
  rounds.
  Buffers are assumed shorter than \<open>2 ^ 64\<close> bytes, the range of their size; \<open>lengths_fit\<close> excludes
  announced lengths within 2 of \<open>2 ^ 64\<close>, for which \<open>bulk_length_ + 2\<close> wraps in the source.

  \<^bold>\<open>Parameters.\<close>  Code outside the repository is an argument of the definitions: serialization of
  user types (\<open>ser\<close>), conversion to \<open>double\<close>, its zero and the largest size of a vector (\<open>platform\<close>), the
  member \<open>reset\<close> that the runner expects of a connection, the writing functions of Asio, messages of error codes (\<open>msg\<close>), the answers of the
  receive channel (\<open>try_send\<close>, \<open>try_receive\<close>), the dynamic buffer of Asio (\<open>grow\<close>, \<open>shrink\<close>), and the
  results of asynchronous operations, which are events of \<open>sys_step\<close>: a write that was started on a
  closed socket fails, a successful connect opens the socket, and the cancellation that
  reaches \<open>async_exec\<close> is the terminal one, as Asio documents for composed operations.

  \<^bold>\<open>Not modelled.\<close>  Sockets, timers, SSL, channels and executors (Asio), and the members that return
  them; containers with a comparison other than equality of keys; user types in responses, whose
  conversion is user code; concepts; the parts of the examples that are Asio or the standard library
  (signals, standard input, listeners, threads); the examples with JSON, Protobuf and TLS, whose own work is done
  by other libraries; benchmarks and tools.
\<close>

end
